(* ===== verification/Prelude.thy ===== *)
theory Prelude
  imports Main "HOL-Library.Word"
begin

text \<open>
  The vocabulary every component of the development shares.

  The module is C code that runs in a 32-bit Linux 2.6.32 kernel.  A C function is
  translated to a HOL function into \<^verbatim>\<open>'a res\<close>: \<open>Ok v\<close> is a normal return and
  \<open>Fault f\<close> is an execution that leaves the defined behaviour of the program, with
  the reason \<open>f\<close> (a null or dangling pointer is dereferenced, an array is accessed
  outside its bounds, a \<open>BUG_ON\<close> fires, a bounded search is cut off).  An error code
  such as \<open>-ENOSPC\<close> is an ordinary value and not a fault.  \<open>bindR\<close> sequences two
  steps and stops at the first fault.

  Machine integers keep their width: \<open>u32\<close> is both \<open>int\<close> and \<open>unsigned long\<close>
  of the 32-bit build (the kernel is compiled with \<open>-fno-strict-overflow\<close>, so signed
  arithmetic wraps too), \<open>u16\<close> is \<open>umode_t\<close>, and \<open>u64\<close> is \<open>long long\<close>.
\<close>

section \<open>Integers and bytes\<close>

type_synonym u8 = "8 word"
type_synonym u16 = "16 word"
type_synonym u32 = "32 word"
type_synonym u64 = "64 word"

type_synonym bytes = "char list"

abbreviation NUL :: char where
  "NUL \<equiv> CHR 0x00"

section \<open>Results: defined executions and faults\<close>

datatype fault = NullDeref | BadPointer | OutOfBounds | BugOn | BadArgument | OutOfFuel

datatype 'a res = Ok 'a | Fault fault

fun bindR :: "'a res \<Rightarrow> ('a \<Rightarrow> 'b res) \<Rightarrow> 'b res" where
  "bindR (Ok x) f = f x"
| "bindR (Fault e) f = Fault e"

fun is_ok :: "'a res \<Rightarrow> bool" where
  "is_ok (Ok _) = True"
| "is_ok (Fault _) = False"

text \<open>The evaluation order of a bind, for functions that recurse under it.\<close>

lemma bindR_cong [fundef_cong]:
  assumes "m = m'" and "\<And>x. m' = Ok x \<Longrightarrow> f x = g x"
  shows "bindR m f = bindR m' g"
  using assms by (cases m') auto

lemma bindR_eq_Ok [simp]: "bindR m f = Ok y \<longleftrightarrow> (\<exists>x. m = Ok x \<and> f x = Ok y)"
  by (cases m) auto

lemma Ok_eq_bindR [simp]: "Ok y = bindR m f \<longleftrightarrow> (\<exists>x. m = Ok x \<and> f x = Ok y)"
  by (cases m) auto

lemma bindR_eq_Fault:
  "bindR m f = Fault e \<longleftrightarrow> m = Fault e \<or> (\<exists>x. m = Ok x \<and> f x = Fault e)"
  by (cases m) auto

lemma bindR_assoc: "bindR (bindR m f) g = bindR m (\<lambda>x. bindR (f x) g)"
  by (cases m) auto

lemma bindR_Ok_right [simp]: "bindR m Ok = m"
  by (cases m) auto

lemma is_ok_iff: "is_ok m \<longleftrightarrow> (\<exists>x. m = Ok x)"
  by (cases m) auto

text \<open>A dereference: the value a pointer designates, if it designates one.\<close>

fun deref :: "fault \<Rightarrow> 'a option \<Rightarrow> 'a res" where
  "deref e None = Fault e"
| "deref e (Some x) = Ok x"

lemma deref_eq_Ok [simp]: "deref e p = Ok x \<longleftrightarrow> p = Some x"
  by (cases p) auto

text \<open>\<open>BUG_ON(c)\<close>: the kernel stops when the condition holds.\<close>

definition bug_on :: "bool \<Rightarrow> unit res" where
  "bug_on c = (if c then Fault BugOn else Ok ())"

lemma bug_on_simps [simp]:
  "bug_on False = Ok ()"
  "bug_on True = Fault BugOn"
  by (simp_all add: bug_on_def)

lemma bug_on_eq_Ok [simp]: "bug_on c = Ok u \<longleftrightarrow> \<not> c"
  by (simp add: bug_on_def)

section \<open>Arrays with bounds\<close>

definition aread :: "'a list \<Rightarrow> nat \<Rightarrow> 'a res" where
  "aread xs i = (if i < length xs then Ok (xs ! i) else Fault OutOfBounds)"

definition awrite :: "'a list \<Rightarrow> nat \<Rightarrow> 'a \<Rightarrow> 'a list res" where
  "awrite xs i v = (if i < length xs then Ok (xs[i := v]) else Fault OutOfBounds)"

lemma aread_Ok [simp]: "i < length xs \<Longrightarrow> aread xs i = Ok (xs ! i)"
  by (simp add: aread_def)

lemma awrite_Ok [simp]: "i < length xs \<Longrightarrow> awrite xs i v = Ok (xs[i := v])"
  by (simp add: awrite_def)

lemma aread_Fault [simp]: "length xs \<le> i \<Longrightarrow> aread xs i = Fault OutOfBounds"
  by (simp add: aread_def)

lemma awrite_Fault [simp]: "length xs \<le> i \<Longrightarrow> awrite xs i v = Fault OutOfBounds"
  by (simp add: awrite_def)

lemma aread_eq_Ok: "aread xs i = Ok v \<longleftrightarrow> i < length xs \<and> v = xs ! i"
  by (auto simp: aread_def)

lemma awrite_eq_Ok: "awrite xs i v = Ok ys \<longleftrightarrow> i < length xs \<and> ys = xs[i := v]"
  by (auto simp: awrite_def)

lemma aread_append_Cons [simp]: "i = length xs \<Longrightarrow> aread (xs @ y # ys) i = Ok y"
  by (simp add: aread_def nth_append)

section \<open>Lists\<close>

lemma takeWhile_append_stop:
  "\<forall>x \<in> set xs. P x \<Longrightarrow> \<not> P y \<Longrightarrow> takeWhile P (xs @ y # ys) = xs"
  by (simp add: takeWhile_append2)

lemma list_update_take_drop_Suc:
  "k < length r \<Longrightarrow> take (Suc k) (r[k := x]) = take k r @ [x]"
  by (simp add: take_Suc_conv_app_nth)

end
