(* ===== verification/CString.thy ===== *)
theory CString
  imports Prelude
begin

text \<open>
  The string and memory primitives of \<open>lib/string.c\<close> the module uses, on byte buffers.

  A pointer into a buffer is the list of the bytes from it to the end of the buffer; the
  end of the list is the end of the object, so a loop that runs over it is an
  \<open>OutOfBounds\<close> fault.  \<open>cstring b\<close> is the string a buffer holds, and
  \<open>holds b s\<close> says that \<open>b\<close> is a buffer with the terminated string \<open>s\<close>.
\<close>

section \<open>The routines\<close>

fun strlen :: "bytes \<Rightarrow> nat res" where
  "strlen [] = Fault OutOfBounds"
| "strlen (c # s) = (if c = NUL then Ok 0 else bindR (strlen s) (\<lambda>n. Ok (Suc n)))"

fun strcpy :: "bytes \<Rightarrow> bytes \<Rightarrow> bytes res" where
  "strcpy [] src = Fault OutOfBounds"
| "strcpy (d # dest) [] = Fault OutOfBounds"
| "strcpy (d # dest) (c # src) =
     (if c = NUL then Ok (c # dest)
      else bindR (strcpy dest src) (\<lambda>r. Ok (c # r)))"

fun strcmp :: "bytes \<Rightarrow> bytes \<Rightarrow> int res" where
  "strcmp (c1 # cs) (c2 # ct) =
     (if c1 \<noteq> c2 then Ok (if (of_char c1 :: nat) < of_char c2 then - 1 else 1)
      else if c1 = NUL then Ok 0
      else strcmp cs ct)"
| "strcmp cs ct = Fault OutOfBounds"

fun strncmp :: "bytes \<Rightarrow> bytes \<Rightarrow> nat \<Rightarrow> int res" where
  "strncmp cs ct 0 = Ok 0"
| "strncmp (c1 # cs) (c2 # ct) (Suc n) =
     (if c1 \<noteq> c2 then Ok (if (of_char c1 :: nat) < of_char c2 then - 1 else 1)
      else if c1 = NUL then Ok 0
      else strncmp cs ct n)"
| "strncmp cs ct (Suc n) = Fault OutOfBounds"

text \<open>The result of \<open>strchr\<close> is the offset of the character, or \<open>None\<close> for \<open>NULL\<close>.\<close>

fun strchr :: "bytes \<Rightarrow> char \<Rightarrow> nat option res" where
  "strchr [] c = Fault OutOfBounds"
| "strchr (x # s) c =
     (if x \<noteq> c then
        (if x = NUL then Ok None else bindR (strchr s c) (\<lambda>r. Ok (map_option Suc r)))
      else Ok (Some 0))"

fun strpbrk :: "bytes \<Rightarrow> char set \<Rightarrow> nat option res" where
  "strpbrk [] ct = Fault OutOfBounds"
| "strpbrk (x # s) ct =
     (if x \<noteq> NUL then
        (if x \<in> ct then Ok (Some 0) else bindR (strpbrk s ct) (\<lambda>r. Ok (map_option Suc r)))
      else Ok None)"

text \<open>
  \<open>strsep(&s, ct)\<close> on a non-null \<open>s\<close>: the token, cut off by a \<open>NUL\<close> written over
  the separator, and the new value of \<open>s\<close> (\<open>None\<close> when the string is used up).
\<close>

definition strsep :: "bytes option \<Rightarrow> char set \<Rightarrow> (bytes option \<times> bytes option) res" where
  "strsep s ct =
     (case s of
        None \<Rightarrow> Ok (None, None)
      | Some sbegin \<Rightarrow>
          bindR (strpbrk sbegin ct) (\<lambda>e.
            case e of
              None \<Rightarrow> Ok (Some sbegin, None)
            | Some i \<Rightarrow> Ok (Some (sbegin[i := NUL]), Some (drop (Suc i) sbegin))))"

fun memset :: "bytes \<Rightarrow> char \<Rightarrow> nat \<Rightarrow> bytes res" where
  "memset xs c 0 = Ok xs"
| "memset [] c (Suc n) = Fault OutOfBounds"
| "memset (x # xs) c (Suc n) = bindR (memset xs c n) (\<lambda>r. Ok (c # r))"

fun memcpy :: "bytes \<Rightarrow> bytes \<Rightarrow> nat \<Rightarrow> bytes res" where
  "memcpy tmp s 0 = Ok tmp"
| "memcpy (d # tmp) (c # s) (Suc n) = bindR (memcpy tmp s n) (\<lambda>r. Ok (c # r))"
| "memcpy tmp s (Suc n) = Fault OutOfBounds"

fun memcmp :: "bytes \<Rightarrow> bytes \<Rightarrow> nat \<Rightarrow> int res" where
  "memcmp cs ct 0 = Ok 0"
| "memcmp (c1 # cs) (c2 # ct) (Suc n) =
     (let r = int (of_char c1) - int (of_char c2)
      in if r \<noteq> 0 then Ok r else memcmp cs ct n)"
| "memcmp cs ct (Suc n) = Fault OutOfBounds"

section \<open>Strings held by buffers\<close>

definition cstring :: "bytes \<Rightarrow> string" where
  "cstring b = takeWhile (\<lambda>c. c \<noteq> NUL) b"

definition holds :: "bytes \<Rightarrow> string \<Rightarrow> bool" where
  "holds b s \<longleftrightarrow> NUL \<notin> set s \<and> length s < length b \<and> take (Suc (length s)) b = s @ [NUL]"

lemma holds_iff: "holds b s \<longleftrightarrow> NUL \<notin> set s \<and> (\<exists>r. b = s @ NUL # r)"
proof
  assume h: "holds b s"
  then have "b = (s @ [NUL]) @ drop (Suc (length s)) b"
    unfolding holds_def by (metis append_take_drop_id)
  with h show "NUL \<notin> set s \<and> (\<exists>r. b = s @ NUL # r)"
    by (auto simp: holds_def)
qed (auto simp: holds_def)

lemma holdsI [intro]: "NUL \<notin> set s \<Longrightarrow> holds (s @ NUL # r) s"
  by (auto simp: holds_iff)

lemma holds_Nil [simp]: "holds (NUL # r) []"
  by (simp add: holds_def)

lemma holds_Cons [simp]: "holds (c # b) (c' # s) \<longleftrightarrow> c = c' \<and> c \<noteq> NUL \<and> holds b s"
  by (auto simp: holds_def)

lemma not_holds_empty [simp]: "\<not> holds [] s"
  by (simp add: holds_def)

lemma cstring_holds: "holds b s \<Longrightarrow> cstring b = s"
  by (auto simp: holds_iff cstring_def takeWhile_append)

lemma holds_cstring: "NUL \<in> set b \<Longrightarrow> holds b (cstring b)"
proof (induction b)
  case (Cons c b)
  then show ?case by (auto simp: cstring_def)
qed simp

lemma holds_length: "holds b s \<Longrightarrow> length s < length b"
  by (simp add: holds_def)

lemma holds_unique: "holds b s \<Longrightarrow> holds b t \<Longrightarrow> s = t"
  by (metis cstring_holds)

section \<open>What the routines compute\<close>

lemma strlen_holds [simp]: "holds b s \<Longrightarrow> strlen b = Ok (length s)"
proof (induction s arbitrary: b)
  case Nil
  then show ?case by (auto simp: holds_iff)
next
  case (Cons c s)
  then show ?case by (cases b) (auto simp: holds_iff)
qed

lemma strlen_Ok: "strlen b = Ok n \<longleftrightarrow> holds b (cstring b) \<and> n = length (cstring b)"
proof (induction b arbitrary: n)
  case Nil
  then show ?case by simp
next
  case (Cons c b)
  then show ?case by (auto simp: cstring_def)
qed

lemma strlen_Fault: "NUL \<notin> set b \<Longrightarrow> strlen b = Fault OutOfBounds"
  by (induction b) auto

lemma strcpy_holds:
  assumes "holds src s" and "length s < length dest"
  shows "strcpy dest src = Ok (s @ NUL # drop (Suc (length s)) dest)"
  using assms
proof (induction s arbitrary: src dest)
  case Nil
  then show ?case by (cases dest; cases src) (auto simp: holds_iff)
next
  case (Cons c s)
  then show ?case by (cases dest; cases src) auto
qed

lemma strcpy_overflow:
  assumes "holds src s" and "length dest \<le> length s"
  shows "strcpy dest src = Fault OutOfBounds"
  using assms
proof (induction s arbitrary: src dest)
  case Nil
  then show ?case by simp
next
  case (Cons c s)
  then show ?case by (cases dest; cases src) auto
qed

lemma strcmp_holds:
  assumes "holds a s" and "holds b t"
  shows "\<exists>r. strcmp a b = Ok r \<and> (r = 0 \<longleftrightarrow> s = t)"
  using assms
proof (induction s arbitrary: a b t)
  case Nil
  then show ?case by (cases t; cases a; cases b) (auto simp: holds_iff)
next
  case (Cons c s)
  then show ?case by (cases t; cases a; cases b) (auto simp: holds_iff)
qed

lemma strcmp_eq_0 [simp]:
  "holds a s \<Longrightarrow> holds b t \<Longrightarrow> strcmp a b = Ok 0 \<longleftrightarrow> s = t"
  using strcmp_holds [of a s b t] by auto

lemma memset_eq: "memset xs c n = (if n \<le> length xs then Ok (replicate n c @ drop n xs)
                                   else Fault OutOfBounds)"
  by (induction xs c n rule: memset.induct) auto

lemma memset_all [simp]: "n = length xs \<Longrightarrow> memset xs c n = Ok (replicate n c)"
  by (simp add: memset_eq)

lemma memcpy_eq:
  "memcpy d s n = (if n \<le> length d \<and> n \<le> length s then Ok (take n s @ drop n d)
                   else Fault OutOfBounds)"
  by (induction d s n rule: memcpy.induct) auto

lemma of_char_nat_eq_iff [simp]: "(of_char c = (of_char d :: nat)) = (c = d)"
  by (rule of_char_eq_iff)

lemma memcmp_0:
  assumes "n \<le> length a" and "n \<le> length b"
  shows "\<exists>r. memcmp a b n = Ok r \<and> (r = 0 \<longleftrightarrow> take n a = take n b)"
  using assms
proof (induction a b n rule: memcmp.induct)
  case (2 c1 cs c2 ct n)
  then show ?case by (auto simp: Let_def)
qed auto

lemma memcmp_eq_0 [simp]:
  assumes "n \<le> length a" and "n \<le> length b"
  shows "memcmp a b n = Ok 0 \<longleftrightarrow> take n a = take n b"
  using memcmp_0 [OF assms] by auto

end
