(* ===== verification/Decimal.thy ===== *)
theory Decimal
  imports CString
begin

unbundle bit_operations_syntax

text \<open>
  Conversion between integers and decimal digits: \<open>put_dec_trunc\<close>, \<open>put_dec_full\<close>
  and \<open>put_dec\<close> of \<open>lib/vsprintf.c\<close>, which compute decimal digits with shifts and
  small multiplications, and \<open>string2int\<close> of \<open>wjfs/fs/wjfs.c\<close>, the module's own
  reader.  The reference is \<open>decimal\<close>, the usual division by ten; the lemmas show that
  the optimised writer computes it and that the reader inverts it.

  The routines write the least significant digit first; the model returns the bytes they
  write, in the order of the addresses.
\<close>

section \<open>The writer\<close>

definition put_digit :: "u32 \<Rightarrow> char" where
  "put_digit d = char_of (unat (d + 48))"

definition put_dec_trunc :: "u32 \<Rightarrow> bytes" where
  "put_dec_trunc q0 =
     (let d1 = drop_bit 4 q0 AND 0xf;
          d2 = drop_bit 8 q0 AND 0xf;
          d3 = drop_bit 12 q0;
          d0 = 6 * (d3 + d2 + d1) + (q0 AND 0xf);
          q = drop_bit 11 (d0 * 0xcd);
          d0 = d0 - 10 * q;
          out0 = [put_digit d0];
          d1 = q + 9 * d3 + 5 * d2 + d1
      in if d1 \<noteq> 0 then
           let q = drop_bit 11 (d1 * 0xcd);
               d1 = d1 - 10 * q;
               out1 = out0 @ [put_digit d1];
               d2 = q + 2 * d2
           in if d2 \<noteq> 0 \<or> d3 \<noteq> 0 then
                let q = drop_bit 7 (d2 * 0xd);
                    d2 = d2 - 10 * q;
                    out2 = out1 @ [put_digit d2];
                    d3 = q + 4 * d3
                in if d3 \<noteq> 0 then
                     let q = drop_bit 11 (d3 * 0xcd);
                         d3 = d3 - 10 * q;
                         out3 = out2 @ [put_digit d3]
                     in if q \<noteq> 0 then out3 @ [put_digit q] else out3
                   else out2
              else out1
         else out0)"

definition put_dec_full :: "u32 \<Rightarrow> bytes" where
  "put_dec_full q0 =
     (let d1 = drop_bit 4 q0 AND 0xf;
          d2 = drop_bit 8 q0 AND 0xf;
          d3 = drop_bit 12 q0;
          d0 = 6 * (d3 + d2 + d1) + (q0 AND 0xf);
          q = drop_bit 11 (d0 * 0xcd);
          d0 = d0 - 10 * q;
          out0 = [put_digit d0];
          d1 = q + 9 * d3 + 5 * d2 + d1;
          q = drop_bit 11 (d1 * 0xcd);
          d1 = d1 - 10 * q;
          out1 = out0 @ [put_digit d1];
          d2 = q + 2 * d2;
          q = drop_bit 7 (d2 * 0xd);
          d2 = d2 - 10 * q;
          out2 = out1 @ [put_digit d2];
          d3 = q + 4 * d3;
          q = drop_bit 11 (d3 * 0xcd);
          d3 = d3 - 10 * q
      in out2 @ [put_digit d3] @ [put_digit q])"

function put_dec :: "u64 \<Rightarrow> bytes" where
  "put_dec num =
     (if num < 100000 then put_dec_trunc (ucast num)
      else put_dec_full (ucast (num mod 100000)) @ put_dec (num div 100000))"
  by pat_completeness auto
termination
proof (relation "measure unat")
  fix num :: u64
  assume "\<not> num < 100000"
  then have "100000 \<le> unat num"
    by (simp add: word_less_nat_alt)
  then show "(num div 100000, num) \<in> measure unat"
    by (simp add: unat_div_distrib)
qed simp

declare put_dec.simps [simp del]

section \<open>The reader\<close>

text \<open>\<open>char\<close> is signed on this architecture: \<open>schar c\<close> is the value of a byte in an \<open>int\<close>.\<close>

definition schar :: "char \<Rightarrow> u32" where
  "schar c = scast (of_nat (of_char c) :: 8 word)"

text \<open>
  The loop of \<open>string2int\<close> from index \<open>i\<close>, with \<open>n = strlen(buf)\<close> (the buffer is
  not written, so the repeated calls of \<open>strlen\<close> give the same value).
\<close>

function string2int_loop :: "bytes \<Rightarrow> nat \<Rightarrow> nat \<Rightarrow> u32 \<Rightarrow> u32 res" where
  "string2int_loop buf n i ans =
     (if i < n then
        bindR (aread buf i) (\<lambda>c. string2int_loop buf n (Suc i) (ans * 10 + (schar c - 48)))
      else Ok ans)"
  by pat_completeness auto
termination
  by (relation "measure (\<lambda>(buf, n, i, ans). n - i)") auto

declare string2int_loop.simps [simp del]

definition string2int :: "bytes \<Rightarrow> u32 res" where
  "string2int buf = bindR (strlen buf) (\<lambda>n. string2int_loop buf n 0 0)"

section \<open>The reference\<close>

definition digit :: "nat \<Rightarrow> char" where
  "digit d = char_of (d + 48)"

fun decimal :: "nat \<Rightarrow> string" where
  "decimal n = (if n < 10 then [digit n] else decimal (n div 10) @ [digit (n mod 10)])"

declare decimal.simps [simp del]

fun value_of :: "u32 \<Rightarrow> string \<Rightarrow> u32" where
  "value_of a [] = a"
| "value_of a (c # s) = value_of (a * 10 + (schar c - 48)) s"

lemma of_char_digit: "d < 10 \<Longrightarrow> of_char (digit d) = d + 48"
  by (simp add: digit_def)

section \<open>The writer computes the decimal digits\<close>

lemma drop_bit_nat: "unat (drop_bit k (w :: 'a :: len word)) = unat w div 2 ^ k"
proof -
  have "unat w < 2 ^ LENGTH('a)"
    by (rule unsigned_less)
  then have "take_bit LENGTH('a) (unat w) = unat w"
    by (simp only: take_bit_eq_mod mod_less)
  then show ?thesis
    by (simp only: unsigned_drop_bit_eq [where 'a = nat]) (simp add: drop_bit_eq_div)
qed

lemma and_15_nat: "unat ((w :: u32) AND 0xf) = unat w mod 16"
proof -
  have "w AND 0xf = take_bit 4 w"
    by (simp add: take_bit_eq_mask mask_numeral)
  then have "unat (w AND 0xf) = take_bit 4 (unat w)"
    by (simp only: unsigned_take_bit_eq)
  then show ?thesis by (simp add: take_bit_eq_mod)
qed

lemma div10_205:
  assumes "(d::nat) \<le> 1000"
  shows "d * 205 div 2048 = d div 10"
proof -
  define q r where "q = d div 10" and "r = d mod 10"
  then have "d = 10 * q + r" "r \<le> 9" "q \<le> 100"
    using assms by auto
  then have "2048 * q \<le> d * 205" "d * 205 < 2048 * Suc q"
    by auto
  then show ?thesis unfolding q_def by (rule div_nat_eqI)
qed

lemma div10_13:
  assumes "(d::nat) \<le> 68"
  shows "d * 13 div 128 = d div 10"
proof -
  define q r where "q = d div 10" and "r = d mod 10"
  then have d: "d = 10 * q + r" "r \<le> 9"
    by auto
  then have "2 * q + 13 * r < 128"
    using assms by (cases "q \<le> 5") auto
  with d have "128 * q \<le> d * 13" "d * 13 < 128 * Suc q"
    by auto
  then show ?thesis unfolding q_def by (rule div_nat_eqI)
qed

lemma word_add_nat: "unat a + unat b < 2 ^ 32 \<Longrightarrow> unat (a + b :: u32) = unat a + unat b"
  by (simp add: unat_word_ariths)

lemma word_mult_nat: "unat a * unat b < 2 ^ 32 \<Longrightarrow> unat (a * b :: u32) = unat a * unat b"
  by (simp add: unat_word_ariths)

lemma q_205: "unat (d :: u32) \<le> 1000 \<Longrightarrow> unat (drop_bit 11 (d * 0xcd)) = unat d div 10"
  by (simp add: drop_bit_nat word_mult_nat div10_205)

lemma q_13: "unat (d :: u32) \<le> 68 \<Longrightarrow> unat (drop_bit 7 (d * 0xd)) = unat d div 10"
  by (simp add: drop_bit_nat word_mult_nat div10_13)

lemma put_digit_rem:
  assumes "unat (q :: u32) = unat d div 10"
  shows "put_digit (d - 10 * q) = digit (unat d mod 10)"
proof -
  have "unat (10 * q) = 10 * (unat d div 10)"
    using assms unsigned_less [where w = d and 'a = nat] by (subst word_mult_nat) auto
  moreover have "10 * (unat d div 10) \<le> unat d" by simp
  ultimately have "unat (d - 10 * q) = unat d - 10 * (unat d div 10)"
    by (simp add: unat_sub_if')
  also have "\<dots> = unat d mod 10" by (simp add: minus_mult_div_eq_mod)
  finally have r: "unat (d - 10 * q) = unat d mod 10" .
  then have "unat (d - 10 * q + 48) = unat d mod 10 + 48"
    by (subst word_add_nat) auto
  then show ?thesis by (simp add: put_digit_def digit_def)
qed


text \<open>The decimal digits of a number below 100000, from its hexadecimal digits.\<close>

lemma hex_digits:
  "n = 4096 * (n div 4096) + 256 * (n div 256 mod 16) + 16 * (n div 16 mod 16) + (n mod 16 :: nat)"
proof -
  have "n div 16 div 16 = n div 256" and "n div 256 div 16 = n div 4096"
    by (simp_all add: div_mult2_eq [symmetric])
  then show ?thesis
    using mult_div_mod_eq [of 16 n] mult_div_mod_eq [of 16 "n div 16"]
      mult_div_mod_eq [of 16 "n div 256"] by linarith
qed

lemma decimal_stages:
  fixes n a b c e :: nat
  assumes n: "n = 4096 * c + 256 * b + 16 * a + e"
  defines "s0 \<equiv> 6 * (c + b + a) + e"
  defines "s1 \<equiv> s0 div 10 + 9 * c + 5 * b + a"
  defines "s2 \<equiv> s1 div 10 + 2 * b"
  defines "s3 \<equiv> s2 div 10 + 4 * c"
  shows "s0 mod 10 = n mod 10" and "s1 mod 10 = n div 10 mod 10"
    and "s2 mod 10 = n div 100 mod 10" and "s3 = n div 1000"
    and "s1 = 0 \<longleftrightarrow> n div 10 = 0" and "s2 = 0 \<and> c = 0 \<longleftrightarrow> n div 100 = 0"
proof -
  have n0: "n = s0 + 10 * (409 * c + 25 * b + a)"
    by (simp add: n s0_def)
  then show "s0 mod 10 = n mod 10" by (simp only: mod_mult_self2)
  have "n div 10 = 409 * c + 25 * b + a + s0 div 10"
    unfolding n0 by (rule div_mult_self2) simp
  then have n1: "n div 10 = s1 + 10 * (40 * c + 2 * b)"
    by (simp add: s1_def)
  then show "s1 mod 10 = n div 10 mod 10" by (simp only: mod_mult_self2)
  have "n div 100 = n div 10 div 10" by (simp add: div_mult2_eq [symmetric])
  also have "\<dots> = 40 * c + 2 * b + s1 div 10"
    unfolding n1 by (rule div_mult_self2) simp
  finally have n2: "n div 100 = s2 + 10 * (4 * c)"
    by (simp add: s2_def)
  then show "s2 mod 10 = n div 100 mod 10" by (simp only: mod_mult_self2)
  have "n div 1000 = n div 100 div 10" by (simp add: div_mult2_eq [symmetric])
  also have "\<dots> = 4 * c + s2 div 10"
    unfolding n2 by (rule div_mult_self2) simp
  finally show "s3 = n div 1000" by (simp add: s3_def)
  show "s1 = 0 \<longleftrightarrow> n div 10 = 0" using n1 by (auto simp: s1_def)
  show "s2 = 0 \<and> c = 0 \<longleftrightarrow> n div 100 = 0" using n2 by auto
qed

lemma rev_decimal:
  "rev (decimal n) = digit (n mod 10) # (if n div 10 = 0 then [] else rev (decimal (n div 10)))"
  by (subst decimal.simps) auto

lemma put_digit_small: "unat (q :: u32) < 10 \<Longrightarrow> put_digit q = digit (unat q)"
  by (simp add: put_digit_def digit_def word_add_nat)

lemma word_sums:
  fixes a b c e q :: u32
  assumes "unat a < 16" and "unat b < 16" and "unat c \<le> 24" and "unat e < 16" and "unat q \<le> 100"
  shows "unat (6 * (c + b + a) + e) = 6 * (unat c + unat b + unat a) + unat e"
    and "unat (q + 9 * c + 5 * b + a) = unat q + 9 * unat c + 5 * unat b + unat a"
    and "unat (q + 2 * b) = unat q + 2 * unat b"
    and "unat (q + 4 * c) = unat q + 4 * unat c"
  using assms by (simp_all add: word_add_nat word_mult_nat)

lemma word_stages:
  fixes w a b c e s0 s1 s2 s3 q0 q1 q2 q3 :: u32
  assumes w: "unat w < 100000"
  assumes a: "a = drop_bit 4 w AND 0xf" and b: "b = drop_bit 8 w AND 0xf"
    and c: "c = drop_bit 12 w" and e: "e = w AND 0xf"
  assumes s0: "s0 = 6 * (c + b + a) + e" and q0: "q0 = drop_bit 11 (s0 * 0xcd)"
    and s1: "s1 = q0 + 9 * c + 5 * b + a" and q1: "q1 = drop_bit 11 (s1 * 0xcd)"
    and s2: "s2 = q1 + 2 * b" and q2: "q2 = drop_bit 7 (s2 * 0xd)"
    and s3: "s3 = q2 + 4 * c" and q3: "q3 = drop_bit 11 (s3 * 0xcd)"
  shows "put_digit (s0 - 10 * q0) = digit (unat w mod 10)"
    and "put_digit (s1 - 10 * q1) = digit (unat w div 10 mod 10)"
    and "put_digit (s2 - 10 * q2) = digit (unat w div 100 mod 10)"
    and "put_digit (s3 - 10 * q3) = digit (unat w div 1000 mod 10)"
    and "put_digit q3 = digit (unat w div 10000)"
    and "s1 = 0 \<longleftrightarrow> unat w div 10 = 0"
    and "s2 = 0 \<and> c = 0 \<longleftrightarrow> unat w div 100 = 0"
    and "s3 = 0 \<longleftrightarrow> unat w div 1000 = 0"
    and "q3 = 0 \<longleftrightarrow> unat w div 10000 = 0"
proof -
  let ?n = "unat w"
  have ua: "unat a = ?n div 16 mod 16" and ub: "unat b = ?n div 256 mod 16"
    and uc: "unat c = ?n div 4096" and ue: "unat e = ?n mod 16"
    by (simp_all add: a b c e and_15_nat drop_bit_nat)
  have bnd: "unat a < 16" "unat b < 16" "unat c \<le> 24" "unat e < 16"
    using w by (auto simp: ua ub uc ue)
  have n: "?n = 4096 * unat c + 256 * unat b + 16 * unat a + unat e"
    unfolding ua ub uc ue by (rule hex_digits)
  note st = decimal_stages [OF n]
  have us0: "unat s0 = 6 * (unat c + unat b + unat a) + unat e"
    unfolding s0 by (rule word_sums(1) [OF bnd, of 0]) simp
  then have uq0: "unat q0 = unat s0 div 10"
    unfolding q0 using bnd by (intro q_205) auto
  have us1: "unat s1 = unat s0 div 10 + 9 * unat c + 5 * unat b + unat a"
    unfolding s1 using us0 bnd by (subst word_sums(2)) (auto simp: uq0)
  have uq1: "unat q1 = unat s1 div 10"
    unfolding q1 using us0 us1 bnd by (intro q_205) auto
  have us2: "unat s2 = unat s1 div 10 + 2 * unat b"
    unfolding s2 using us0 us1 bnd by (subst word_sums(3)) (auto simp: uq1)
  have uq2: "unat q2 = unat s2 div 10"
    unfolding q2 using us0 us1 us2 bnd by (intro q_13) auto
  have us3: "unat s3 = unat s2 div 10 + 4 * unat c"
    unfolding s3 using us0 us1 us2 bnd by (subst word_sums(4)) (auto simp: uq2)
  have uq3: "unat q3 = unat s3 div 10"
    unfolding q3 using us0 us1 us2 us3 bnd by (intro q_205) auto
  note st' = st [folded us0, folded us1, folded us2, folded us3]
  have q3n: "unat q3 = ?n div 10000"
    by (simp add: uq3 st'(4) div_mult2_eq [symmetric])
  show "put_digit (s0 - 10 * q0) = digit (unat w mod 10)"
    using put_digit_rem [OF uq0] st'(1) by simp
  show "put_digit (s1 - 10 * q1) = digit (unat w div 10 mod 10)"
    using put_digit_rem [OF uq1] st'(2) by simp
  show "put_digit (s2 - 10 * q2) = digit (unat w div 100 mod 10)"
    using put_digit_rem [OF uq2] st'(3) by simp
  show "put_digit (s3 - 10 * q3) = digit (unat w div 1000 mod 10)"
    using put_digit_rem [OF uq3] st'(4) by simp
  show "put_digit q3 = digit (unat w div 10000)"
    using q3n w by (subst put_digit_small) auto
  show "s1 = 0 \<longleftrightarrow> unat w div 10 = 0"
    using st'(5) by (metis unat_eq_zero)
  show "s2 = 0 \<and> c = 0 \<longleftrightarrow> unat w div 100 = 0"
    using st'(6) by (metis unat_eq_zero)
  show "s3 = 0 \<longleftrightarrow> unat w div 1000 = 0"
    using st'(4) by (metis unat_eq_zero)
  show "q3 = 0 \<longleftrightarrow> unat w div 10000 = 0"
    using q3n by (metis unat_eq_zero)
qed

lemmas word_stages_inst = word_stages [OF _ refl refl refl refl refl refl refl refl refl refl refl refl]

lemma put_dec_trunc_decimal:
  assumes "unat w < 100000"
  shows "put_dec_trunc w = rev (decimal (unat w))"
proof -
  have d: "unat w div 10 div 10 = unat w div 100" "unat w div 100 div 10 = unat w div 1000"
    "unat w div 1000 div 10 = unat w div 10000" "unat w div 10000 mod 10 = unat w div 10000"
    "unat w div 10000 div 10 = 0"
    using assms by (simp_all add: div_mult2_eq [symmetric])
  have z: "unat w div 10 = 0 \<Longrightarrow> unat w div 100 = 0" "unat w div 100 = 0 \<Longrightarrow> unat w div 1000 = 0"
    "unat w div 1000 = 0 \<Longrightarrow> unat w div 10000 = 0"
    by auto
  have "rev (decimal (unat w)) = digit (unat w mod 10) # (if unat w div 10 = 0 then [] else
      digit (unat w div 10 mod 10) # (if unat w div 100 = 0 then [] else
      digit (unat w div 100 mod 10) # (if unat w div 1000 = 0 then [] else
      digit (unat w div 1000 mod 10) # (if unat w div 10000 = 0 then [] else
      [digit (unat w div 10000)]))))"
    by (simp only: rev_decimal [of "unat w"] rev_decimal [of "unat w div 10"]
        rev_decimal [of "unat w div 100"] rev_decimal [of "unat w div 1000"]
        rev_decimal [of "unat w div 10000"] d simp_thms if_True)
  then show ?thesis
    by (simp only: put_dec_trunc_def Let_def de_Morgan_conj [symmetric]
        word_stages_inst [OF assms] append.simps) simp
qed

lemma put_dec_full_digits:
  assumes "unat w < 100000"
  shows "put_dec_full w =
    [digit (unat w mod 10), digit (unat w div 10 mod 10), digit (unat w div 100 mod 10),
     digit (unat w div 1000 mod 10), digit (unat w div 10000)]"
  by (simp only: put_dec_full_def Let_def word_stages_inst [OF assms] append.simps)

lemma rev_decimal_split:
  assumes "100000 \<le> n"
  shows "rev (decimal n) =
    [digit (n mod 10), digit (n div 10 mod 10), digit (n div 100 mod 10),
     digit (n div 1000 mod 10), digit (n div 10000 mod 10)] @ rev (decimal (n div 100000))"
proof -
  have d: "n div 10 div 10 = n div 100" "n div 100 div 10 = n div 1000"
    "n div 1000 div 10 = n div 10000" "n div 10000 div 10 = n div 100000"
    by (simp_all add: div_mult2_eq [symmetric])
  have nz: "n div 10 \<noteq> 0" "n div 100 \<noteq> 0" "n div 1000 \<noteq> 0" "n div 10000 \<noteq> 0" "n div 100000 \<noteq> 0"
    using assms by (auto simp: div_eq_0_iff)
  show ?thesis
    by (simp only: rev_decimal [of n] rev_decimal [of "n div 10"] rev_decimal [of "n div 100"]
        rev_decimal [of "n div 1000"] rev_decimal [of "n div 10000"] d nz if_False append.simps)
qed

lemma mod_100000_digits:
  fixes n :: nat
  defines "m \<equiv> n mod 100000"
  shows "m mod 10 = n mod 10" and "m div 10 mod 10 = n div 10 mod 10"
    and "m div 100 mod 10 = n div 100 mod 10" and "m div 1000 mod 10 = n div 1000 mod 10"
    and "m div 10000 = n div 10000 mod 10"
proof -
  have n: "n = m + 100000 * (n div 100000)" by (simp add: m_def)
  define k where "k = n div 100000"
  have n: "n = m + 100000 * k" by (simp add: m_def k_def)
  have m: "m < 100000" by (simp add: m_def)
  show "m mod 10 = n mod 10" unfolding n by (simp add: mod_mult_self2 [of m 10 "10000 * k", simplified])
  show "m div 10 mod 10 = n div 10 mod 10"
    unfolding n using mod_mult_self2 [of "m div 10" 10 "1000 * k"] div_mult_self2 [of 10 m "10000 * k"]
    by (simp add: algebra_simps)
  show "m div 100 mod 10 = n div 100 mod 10"
    unfolding n using mod_mult_self2 [of "m div 100" 10 "100 * k"] div_mult_self2 [of 100 m "1000 * k"]
    by (simp add: algebra_simps)
  show "m div 1000 mod 10 = n div 1000 mod 10"
    unfolding n using mod_mult_self2 [of "m div 1000" 10 "10 * k"] div_mult_self2 [of 1000 m "100 * k"]
    by (simp add: algebra_simps)
  show "m div 10000 = n div 10000 mod 10"
    unfolding n using mod_mult_self2 [of "m div 10000" 10 "k"] div_mult_self2 [of 10000 m "10 * k"] m
    by (simp add: algebra_simps)
qed

lemma put_dec_decimal: "put_dec num = rev (decimal (unat num))"
proof (induction num rule: put_dec.induct)
  case (1 num)
  show ?case
  proof (cases "num < 100000")
    case True
    then have "unat num < 100000" by (simp add: word_less_nat_alt)
    moreover from this have "unat (ucast num :: u32) = unat num"
      by (simp add: unsigned_ucast_eq take_bit_eq_mod)
    ultimately show ?thesis
      using True by (simp add: put_dec.simps [of num] put_dec_trunc_decimal)
  next
    case False
    then have ge: "100000 \<le> unat num" by (simp add: word_less_nat_alt)
    have "unat (num mod 100000) = unat num mod 100000"
      by (simp add: unat_mod_distrib)
    then have r: "unat (ucast (num mod 100000) :: u32) = unat num mod 100000"
      by (simp add: unsigned_ucast_eq take_bit_eq_mod)
    have "unat (num div 100000) = unat num div 100000"
      by (simp add: unat_div_distrib)
    with 1 False have IH: "put_dec (num div 100000) = rev (decimal (unat num div 100000))"
      by simp
    show ?thesis
      using False ge by (simp add: put_dec.simps [of num] IH put_dec_full_digits r
          mod_100000_digits rev_decimal_split)
  qed
qed

section \<open>The reader inverts the writer\<close>

definition digits :: "char set" where
  "digits = {c. 48 \<le> (of_char c :: nat) \<and> of_char c \<le> (57 :: nat)}"

lemma digit_in_digits [simp]: "d < 10 \<Longrightarrow> digit d \<in> digits"
  by (simp add: digits_def digit_def)

lemma decimal_digits: "set (decimal n) \<subseteq> digits"
proof (induction n rule: decimal.induct)
  case (1 n)
  then show ?case by (subst decimal.simps) auto
qed

lemma decimal_not_Nil [simp]: "decimal n \<noteq> []"
  by (subst decimal.simps) simp

lemma digits_no_NUL [simp]: "NUL \<notin> digits"
  by (simp add: digits_def)

lemma decimal_no_NUL [simp]: "NUL \<notin> set (decimal n)"
  using decimal_digits digits_no_NUL by blast

lemma decimal_length: "n < 10 ^ Suc k \<Longrightarrow> length (decimal n) \<le> Suc k"
proof (induction k arbitrary: n)
  case 0
  then show ?case by (subst decimal.simps) simp
next
  case (Suc k)
  show ?case
  proof (cases "n < 10")
    case True
    then show ?thesis by (subst decimal.simps) simp
  next
    case False
    from Suc.prems have "n div 10 < 10 ^ Suc k" by (simp add: less_mult_imp_div_less)
    with Suc.IH have "length (decimal (n div 10)) \<le> Suc k" by blast
    with False show ?thesis by (subst decimal.simps) simp
  qed
qed

lemma decimal_u32_length: "length (decimal (unat (w :: u32))) \<le> 10"
  using unsigned_less [of w, where 'a = nat] by (intro decimal_length [of _ 9, simplified]) simp

lemma string2int_loop_value:
  assumes "holds buf s" and "i \<le> length s"
  shows "string2int_loop buf (length s) i ans = Ok (value_of ans (drop i s))"
  using assms(2)
proof (induction "length s - i" arbitrary: i ans)
  case 0
  then show ?case by (subst string2int_loop.simps) simp
next
  case (Suc k)
  then have i: "i < length s" by simp
  from assms(1) obtain r where b: "buf = s @ NUL # r" by (auto simp: holds_iff)
  have "string2int_loop buf (length s) (Suc i) a = Ok (value_of a (drop (Suc i) s))" for a
    using Suc i by simp
  moreover have "drop i s = s ! i # drop (Suc i) s" using i by (rule Cons_nth_drop_Suc [symmetric])
  ultimately show ?case
    using i by (subst string2int_loop.simps) (simp add: b nth_append aread_def)
qed

lemma string2int_holds: "holds buf s \<Longrightarrow> string2int buf = Ok (value_of 0 s)"
  by (simp add: string2int_def string2int_loop_value)

lemma value_of_append: "value_of a (s @ t) = value_of (value_of a s) t"
  by (induction s arbitrary: a) auto

lemma schar_digit: "d < 10 \<Longrightarrow> schar (digit d) - 48 = of_nat d"
proof -
  assume "d < 10"
  then have "d \<in> {0, 1, 2, 3, 4, 5, 6, 7, 8, 9}" by auto
  then show ?thesis by (auto simp: schar_def digit_def)
qed

lemma value_of_decimal: "value_of 0 (decimal n) = of_nat n"
proof (induction n rule: decimal.induct)
  case (1 n)
  show ?case
  proof (cases "n < 10")
    case True
    then show ?thesis by (subst decimal.simps) (simp add: schar_digit)
  next
    case False
    then have "value_of 0 (decimal n) = of_nat (n div 10) * 10 + of_nat (n mod 10)"
      using 1 by (subst decimal.simps) (simp add: value_of_append schar_digit)
    also have "\<dots> = (of_nat (n div 10 * 10 + n mod 10) :: u32)"
      by (simp only: of_nat_add of_nat_mult of_nat_numeral)
    finally show ?thesis by simp
  qed
qed

text \<open>
  C40.  The kernel's \<open>put_dec\<close>, which takes a number apart five digits at a time by multiplying
  and shifting, gives the same digits as dividing by ten, for every 64-bit number; and wjfs's
  \<open>string2int\<close> reads them back, modulo the 32 bits of its result.
\<close>

theorem put_dec_equivalence:
  "rev (put_dec num) = decimal (unat num) \<and> string2int (rev (put_dec num) @ NUL # rest) = Ok (ucast num)"
proof -
  have d: "rev (put_dec num) = decimal (unat num)"
    by (simp add: put_dec_decimal)
  have "string2int (decimal (unat num) @ NUL # rest) = Ok (value_of 0 (decimal (unat num)))"
    by (rule string2int_holds) (rule holdsI [OF decimal_no_NUL])
  then show ?thesis
    by (simp add: d value_of_decimal)
qed

end
