(* ===== verification/Vsprintf.thy ===== *)
theory Vsprintf
  imports Decimal
begin

unbundle bit_operations_syntax

text \<open>
  Formatted output, from \<open>lib/vsprintf.c\<close>: \<open>number\<close>, \<open>string\<close>,
  \<open>format_decode\<close> and \<open>vsnprintf\<close>, through which the module builds every message
  it sends.  The C code writes each byte to \<open>buf\<close> under the guard \<open>buf < end\<close> and
  advances \<open>buf\<close> in any case; the model returns the bytes produced, and \<open>vsnprintf\<close>
  stores the part of them that fits into \<open>size\<close>.

  A format is a string constant; \<open>fmt_at\<close> reads it with its terminating \<open>NUL\<close>.
  \<open>FORMAT_TYPE_PTR\<close> and \<open>FORMAT_TYPE_NRCHARS\<close> (\<open>%p\<close>, \<open>%n\<close>) do not occur
  in the messages and end in the fault \<open>BadArgument\<close>, as does an argument of another
  type than the conversion asks for.
\<close>

section \<open>Character classes (\<open>include/linux/ctype.h\<close>)\<close>

definition isdigit :: "char \<Rightarrow> bool" where
  "isdigit c \<longleftrightarrow> (48 :: nat) \<le> of_char c \<and> of_char c \<le> (57 :: nat)"

definition isxdigit :: "char \<Rightarrow> bool" where
  "isxdigit c \<longleftrightarrow> isdigit c \<or> (65 :: nat) \<le> of_char c \<and> of_char c \<le> (70 :: nat)
     \<or> (97 :: nat) \<le> of_char c \<and> of_char c \<le> (102 :: nat)"

section \<open>Format specifications\<close>

abbreviation ZEROPAD :: u32 where "ZEROPAD \<equiv> 1"
abbreviation SIGN :: u32 where "SIGN \<equiv> 2"
abbreviation PLUS :: u32 where "PLUS \<equiv> 4"
abbreviation SPACE :: u32 where "SPACE \<equiv> 8"
abbreviation LEFT :: u32 where "LEFT \<equiv> 16"
abbreviation SMALL :: u32 where "SMALL \<equiv> 32"
abbreviation SPECIAL :: u32 where "SPECIAL \<equiv> 64"

datatype format_type =
    FORMAT_TYPE_NONE | FORMAT_TYPE_WIDTH | FORMAT_TYPE_PRECISION | FORMAT_TYPE_CHAR
  | FORMAT_TYPE_STR | FORMAT_TYPE_PTR | FORMAT_TYPE_PERCENT_CHAR | FORMAT_TYPE_INVALID
  | FORMAT_TYPE_LONG_LONG | FORMAT_TYPE_ULONG | FORMAT_TYPE_LONG | FORMAT_TYPE_UBYTE
  | FORMAT_TYPE_BYTE | FORMAT_TYPE_USHORT | FORMAT_TYPE_SHORT | FORMAT_TYPE_UINT
  | FORMAT_TYPE_INT | FORMAT_TYPE_NRCHARS | FORMAT_TYPE_SIZE_T | FORMAT_TYPE_PTRDIFF

record printf_spec =
  ftype :: format_type
  flags :: u32
  field_width :: int
  fbase :: int
  precision :: int
  qualifier :: "char option"

definition spec_zero :: printf_spec where
  "spec_zero = \<lparr>ftype = FORMAT_TYPE_NONE, flags = 0, field_width = 0, fbase = 0,
     precision = 0, qualifier = Some NUL\<rparr>"

section \<open>Numbers\<close>

text \<open>The loop \<open>while (--n >= 0) *buf++ = c\<close>: the bytes it writes and the last \<open>n\<close>.\<close>

definition pad_loop :: "char \<Rightarrow> int \<Rightarrow> bytes \<times> int" where
  "pad_loop c n = (replicate (nat n) c, min n 0 - 1)"

text \<open>
  The digits in base 8 or 16, least significant first, with \<open>0x20\<close> or'ed in; \<open>shift\<close> is
  3 or 4.
\<close>

definition hex_digit :: "u64 \<Rightarrow> u64 \<Rightarrow> nat \<Rightarrow> char" where
  "hex_digit num msk locase =
     char_of (of_char (''0123456789ABCDEF'' ! unat ((num AND 0xff) AND msk)) OR locase)"

function number_pow2 :: "u64 \<Rightarrow> u64 \<Rightarrow> nat \<Rightarrow> nat \<Rightarrow> bytes" where
  "number_pow2 num msk shift locase =
     (if shift = 0 then [] else
      let num' = drop_bit shift num
      in hex_digit num msk locase #
         (if num' \<noteq> 0 then number_pow2 num' msk shift locase else []))"
  by pat_completeness auto
termination
proof (relation "measure (\<lambda>(num, msk, shift, locase). unat num)")
  fix num msk :: u64 and shift locase :: nat and x
  assume s: "shift \<noteq> 0" and x: "x = drop_bit shift num" and "x \<noteq> 0"
  then have "unat num div 2 ^ shift \<noteq> 0"
    by (metis unat_eq_zero drop_bit_nat)
  then have "unat num \<noteq> 0" by (metis div_0)
  then have "unat num div 2 ^ shift < unat num"
    using s one_less_power [of "2::nat" shift] by (intro div_less_dividend) auto
  then show "((x, msk, shift, locase), num, msk, shift, locase)
      \<in> measure (\<lambda>(num, msk, shift, locase). unat num)"
    by (simp add: x drop_bit_nat)
qed simp

declare number_pow2.simps [simp del]

definition has_flag :: "printf_spec \<Rightarrow> u32 \<Rightarrow> bool" where
  "has_flag spec f \<longleftrightarrow> flags spec AND f \<noteq> 0"

definition number :: "u64 \<Rightarrow> printf_spec \<Rightarrow> bytes" where
  "number num0 spec0 =
     (let need_pfx = has_flag spec0 SPECIAL \<and> fbase spec0 \<noteq> 10;
          locase = unat (flags spec0 AND SMALL);
          spec = (if has_flag spec0 LEFT
                  then spec0\<lparr>flags := flags spec0 AND NOT ZEROPAD\<rparr> else spec0);
          (sign, num, fw) =
            (if has_flag spec SIGN then
               (if sint num0 < 0 then ([CHR ''-''], - num0, field_width spec - 1)
                else if has_flag spec PLUS then ([CHR ''+''], num0, field_width spec - 1)
                else if has_flag spec SPACE then ([CHR '' ''], num0, field_width spec - 1)
                else ([], num0, field_width spec))
             else ([], num0, field_width spec));
          fw = (if need_pfx then (if fbase spec = 16 then fw - 2 else fw - 1) else fw);
          tmp = (if num = 0 then [CHR ''0'']
                 else if fbase spec \<noteq> 10
                   then number_pow2 num (word_of_int (fbase spec - 1))
                          (if fbase spec = 16 then 4 else 3) locase
                 else put_dec num);
          i = int (length tmp);
          prec = max i (precision spec);
          fw = fw - prec;
          (lead, fw) = (if \<not> has_flag spec (ZEROPAD + LEFT) then pad_loop (CHR '' '') fw
                        else ([], fw));
          pfx = (if need_pfx
                 then CHR ''0'' # (if fbase spec = 16
                                   then [char_of (of_char (CHR ''X'') OR locase)] else [])
                 else []);
          (fill, fw) = (if \<not> has_flag spec LEFT
                        then pad_loop (if has_flag spec ZEROPAD then CHR ''0'' else CHR '' '') fw
                        else ([], fw));
          zeros = replicate (nat (prec - i)) (CHR ''0'');
          (trail, fw) = pad_loop (CHR '' '') fw
      in lead @ sign @ pfx @ fill @ zeros @ rev tmp @ trail)"

section \<open>Strings\<close>

fun strnlen :: "bytes \<Rightarrow> nat \<Rightarrow> nat res" where
  "strnlen [] n = (if n = 0 then Ok 0 else Fault OutOfBounds)"
| "strnlen (c # s) n =
     (if n = 0 then Ok 0 else if c = NUL then Ok 0
      else bindR (strnlen s (n - 1)) (\<lambda>k. Ok (Suc k)))"

text \<open>\<open>precision\<close> is converted to \<open>size_t\<close>: \<open>- 1\<close> is the largest size.\<close>

definition string :: "bytes option \<Rightarrow> printf_spec \<Rightarrow> bytes res" where
  "string p spec =
     (let s = (case p of None \<Rightarrow> ''<NULL>'' @ [NUL] | Some s \<Rightarrow> s)
      in bindR (strnlen s (unat (word_of_int (precision spec) :: u32))) (\<lambda>len.
           let fw = field_width spec;
               (lead, fw) = (if \<not> has_flag spec LEFT
                             then (replicate (nat (fw - int len)) (CHR '' ''), min fw (int len) - 1)
                             else ([], fw));
               trail = replicate (nat (fw - int len)) (CHR '' '')
           in Ok (lead @ take len s @ trail)))"

section \<open>Decoding a format\<close>

definition fmt_at :: "string \<Rightarrow> nat \<Rightarrow> char" where
  "fmt_at fmt i = (if i < length fmt then fmt ! i else NUL)"

lemma fmt_at_neq_NUL: "fmt_at fmt i \<noteq> NUL \<Longrightarrow> i < length fmt"
  by (auto simp: fmt_at_def split: if_splits)

lemma isdigit_neq_NUL: "isdigit c \<Longrightarrow> c \<noteq> NUL"
  by (auto simp: isdigit_def)

function skip_atoi :: "string \<Rightarrow> nat \<Rightarrow> u32 \<Rightarrow> int \<times> nat" where
  "skip_atoi fmt i acc =
     (if isdigit (fmt_at fmt i) then skip_atoi fmt (Suc i) (acc * 10 + schar (fmt_at fmt i) - 48)
      else (sint acc, i))"
  by pat_completeness auto
termination
  by (relation "measure (\<lambda>(fmt, i, acc). length fmt - i)")
    (auto dest!: isdigit_neq_NUL fmt_at_neq_NUL)

declare skip_atoi.simps [simp del]

text \<open>From the label \<open>qualifier\<close> on: the conversion character.\<close>

definition decode_int_type :: "printf_spec \<Rightarrow> format_type" where
  "decode_int_type spec =
     (if qualifier spec = Some (CHR ''L'') then FORMAT_TYPE_LONG_LONG
      else if qualifier spec = Some (CHR ''l'')
        then (if has_flag spec SIGN then FORMAT_TYPE_LONG else FORMAT_TYPE_ULONG)
      else if qualifier spec = Some (CHR ''Z'') \<or> qualifier spec = Some (CHR ''z'')
        then FORMAT_TYPE_SIZE_T
      else if qualifier spec = Some (CHR ''t'') then FORMAT_TYPE_PTRDIFF
      else if qualifier spec = Some (CHR ''H'')
        then (if has_flag spec SIGN then FORMAT_TYPE_BYTE else FORMAT_TYPE_UBYTE)
      else if qualifier spec = Some (CHR ''h'')
        then (if has_flag spec SIGN then FORMAT_TYPE_SHORT else FORMAT_TYPE_USHORT)
      else if has_flag spec SIGN then FORMAT_TYPE_INT else FORMAT_TYPE_UINT)"

definition decode_conversion :: "char \<Rightarrow> nat \<Rightarrow> printf_spec \<Rightarrow> nat \<times> printf_spec" where
  "decode_conversion c i spec0 =
     (let spec = spec0\<lparr>fbase := 10\<rparr> in
      if c = CHR ''c'' then (Suc i, spec\<lparr>ftype := FORMAT_TYPE_CHAR\<rparr>)
      else if c = CHR ''s'' then (Suc i, spec\<lparr>ftype := FORMAT_TYPE_STR\<rparr>)
      else if c = CHR ''p'' then (i, spec\<lparr>ftype := FORMAT_TYPE_PTR\<rparr>)
      else if c = CHR ''n'' then (Suc i, spec\<lparr>ftype := FORMAT_TYPE_NRCHARS\<rparr>)
      else if c = CHR ''%'' then (Suc i, spec\<lparr>ftype := FORMAT_TYPE_PERCENT_CHAR\<rparr>)
      else if c = CHR ''o'' then
        (let s = spec\<lparr>fbase := 8\<rparr> in (Suc i, s\<lparr>ftype := decode_int_type s\<rparr>))
      else if c = CHR ''x'' then
        (let s = spec\<lparr>flags := flags spec OR SMALL, fbase := 16\<rparr>
         in (Suc i, s\<lparr>ftype := decode_int_type s\<rparr>))
      else if c = CHR ''X'' then
        (let s = spec\<lparr>fbase := 16\<rparr> in (Suc i, s\<lparr>ftype := decode_int_type s\<rparr>))
      else if c = CHR ''d'' \<or> c = CHR ''i'' then
        (let s = spec\<lparr>flags := flags spec OR SIGN\<rparr>
         in (Suc i, s\<lparr>ftype := decode_int_type s\<rparr>))
      else if c = CHR ''u'' then (Suc i, spec\<lparr>ftype := decode_int_type spec\<rparr>)
      else (i, spec\<lparr>ftype := FORMAT_TYPE_INVALID\<rparr>))"

definition decode_qualifier :: "string \<Rightarrow> nat \<Rightarrow> printf_spec \<Rightarrow> nat \<times> printf_spec" where
  "decode_qualifier fmt i spec =
     (let c = fmt_at fmt i;
          (i, q) =
            (if c \<in> set ''hlLZzt'' then
               (if fmt_at fmt (Suc i) = c \<and> c = CHR ''l'' then (i + 2, Some (CHR ''L''))
                else if fmt_at fmt (Suc i) = c \<and> c = CHR ''h'' then (i + 2, Some (CHR ''H''))
                else (Suc i, Some c))
             else (i, None))
      in decode_conversion (fmt_at fmt i) i (spec\<lparr>qualifier := q\<rparr>))"

text \<open>From the label \<open>precision\<close> on.\<close>

definition decode_precision :: "string \<Rightarrow> nat \<Rightarrow> printf_spec \<Rightarrow> nat \<times> printf_spec" where
  "decode_precision fmt i spec0 =
     (let spec = spec0\<lparr>precision := - 1\<rparr> in
      if fmt_at fmt i = CHR ''.'' then
        (if isdigit (fmt_at fmt (Suc i)) then
           (let (v, i') = skip_atoi fmt (Suc i) 0
            in decode_qualifier fmt i' (spec\<lparr>precision := max v 0\<rparr>))
         else if fmt_at fmt (Suc i) = CHR ''*''
           then (i + 2, spec\<lparr>ftype := FORMAT_TYPE_PRECISION\<rparr>)
         else decode_qualifier fmt (Suc i) spec)
      else decode_qualifier fmt i spec)"

text \<open>The loop over the flag characters, entered at the \<open>%\<close> at \<open>i\<close>.\<close>

function decode_flags :: "string \<Rightarrow> nat \<Rightarrow> u32 \<Rightarrow> nat \<times> u32" where
  "decode_flags fmt i fl =
     (let c = fmt_at fmt (Suc i) in
      if c = CHR ''-'' then decode_flags fmt (Suc i) (fl OR LEFT)
      else if c = CHR ''+'' then decode_flags fmt (Suc i) (fl OR PLUS)
      else if c = CHR '' '' then decode_flags fmt (Suc i) (fl OR SPACE)
      else if c = CHR ''#'' then decode_flags fmt (Suc i) (fl OR SPECIAL)
      else if c = CHR ''0'' then decode_flags fmt (Suc i) (fl OR ZEROPAD)
      else (Suc i, fl))"
  by pat_completeness auto
termination
  by (relation "measure (\<lambda>(fmt, i, fl). length fmt - i)")
    (auto simp: fmt_at_def split: if_splits)

declare decode_flags.simps [simp del]

text \<open>\<open>format_decode\<close>: the number of format characters read and the specification.\<close>

definition format_decode :: "string \<Rightarrow> printf_spec \<Rightarrow> nat \<times> printf_spec" where
  "format_decode fmt spec0 =
     (if ftype spec0 = FORMAT_TYPE_WIDTH then
        (let spec = (if field_width spec0 < 0
                     then spec0\<lparr>field_width := - field_width spec0, flags := flags spec0 OR LEFT\<rparr>
                     else spec0)
         in decode_precision fmt 0 (spec\<lparr>ftype := FORMAT_TYPE_NONE\<rparr>))
      else if ftype spec0 = FORMAT_TYPE_PRECISION then
        (let spec = (if precision spec0 < 0 then spec0\<lparr>precision := 0\<rparr> else spec0)
         in decode_qualifier fmt 0 (spec\<lparr>ftype := FORMAT_TYPE_NONE\<rparr>))
      else
        let spec = spec0\<lparr>ftype := FORMAT_TYPE_NONE\<rparr>;
            lit = length (takeWhile (\<lambda>c. c \<noteq> CHR ''%'') fmt)
        in if lit \<noteq> 0 \<or> fmt = [] then (lit, spec)
           else
             let (i, fl) = decode_flags fmt 0 0;
                 spec = spec\<lparr>flags := fl, field_width := - 1\<rparr>
             in if isdigit (fmt_at fmt i) then
                  (let (v, i') = skip_atoi fmt i 0
                   in decode_precision fmt i' (spec\<lparr>field_width := v\<rparr>))
                else if fmt_at fmt i = CHR ''*''
                  then (Suc i, spec\<lparr>ftype := FORMAT_TYPE_WIDTH\<rparr>)
                else decode_precision fmt i spec)"

section \<open>Formatting\<close>

text \<open>A variable argument: an integer of at most 32 bits, a 64-bit integer, or a string pointer.\<close>

datatype varg = AInt u32 | ALong u64 | AStr "bytes option"

fun va_int :: "varg list \<Rightarrow> (u32 \<times> varg list) res" where
  "va_int (AInt w # args) = Ok (w, args)"
| "va_int _ = Fault BadArgument"

fun va_ll :: "varg list \<Rightarrow> (u64 \<times> varg list) res" where
  "va_ll (ALong w # args) = Ok (w, args)"
| "va_ll _ = Fault BadArgument"

fun va_str :: "varg list \<Rightarrow> (bytes option \<times> varg list) res" where
  "va_str (AStr p # args) = Ok (p, args)"
| "va_str _ = Fault BadArgument"

text \<open>The integer argument of a conversion, extended to \<open>unsigned long long\<close>.\<close>

fun va_num :: "format_type \<Rightarrow> varg list \<Rightarrow> (u64 \<times> varg list) res" where
  "va_num FORMAT_TYPE_LONG_LONG args = va_ll args"
| "va_num FORMAT_TYPE_ULONG args = bindR (va_int args) (\<lambda>(w, r). Ok (ucast w, r))"
| "va_num FORMAT_TYPE_LONG args = bindR (va_int args) (\<lambda>(w, r). Ok (scast w, r))"
| "va_num FORMAT_TYPE_SIZE_T args = bindR (va_int args) (\<lambda>(w, r). Ok (ucast w, r))"
| "va_num FORMAT_TYPE_PTRDIFF args = bindR (va_int args) (\<lambda>(w, r). Ok (scast w, r))"
| "va_num FORMAT_TYPE_UBYTE args = bindR (va_int args) (\<lambda>(w, r). Ok (ucast (ucast w :: 8 word), r))"
| "va_num FORMAT_TYPE_BYTE args = bindR (va_int args) (\<lambda>(w, r). Ok (scast (ucast w :: 8 word), r))"
| "va_num FORMAT_TYPE_USHORT args = bindR (va_int args) (\<lambda>(w, r). Ok (ucast (ucast w :: 16 word), r))"
| "va_num FORMAT_TYPE_SHORT args = bindR (va_int args) (\<lambda>(w, r). Ok (scast (ucast w :: 16 word), r))"
| "va_num FORMAT_TYPE_INT args = bindR (va_int args) (\<lambda>(w, r). Ok (scast w, r))"
| "va_num _ args = bindR (va_int args) (\<lambda>(w, r). Ok (ucast w, r))"

definition pending :: "printf_spec \<Rightarrow> bool" where
  "pending spec \<longleftrightarrow> ftype spec = FORMAT_TYPE_WIDTH \<or> ftype spec = FORMAT_TYPE_PRECISION"

lemma decode_int_type_cases:
  "decode_int_type spec \<noteq> FORMAT_TYPE_WIDTH" "decode_int_type spec \<noteq> FORMAT_TYPE_PRECISION"
  by (simp_all add: decode_int_type_def)

lemma decode_conversion_pos:
  "i \<le> fst (decode_conversion c i spec)"
  "\<not> pending (snd (decode_conversion c i spec))"
  by (simp_all add: decode_conversion_def Let_def pending_def decode_int_type_cases)

lemma decode_qualifier_conversion:
  "\<exists>j sp. i \<le> j \<and> decode_qualifier fmt i spec = decode_conversion (fmt_at fmt j) j sp"
proof -
  let ?c = "fmt_at fmt i"
  obtain j q where jq: "(if ?c \<in> set ''hlLZzt'' then
      (if fmt_at fmt (Suc i) = ?c \<and> ?c = CHR ''l'' then (i + 2, Some (CHR ''L''))
       else if fmt_at fmt (Suc i) = ?c \<and> ?c = CHR ''h'' then (i + 2, Some (CHR ''H''))
       else (Suc i, Some ?c)) else (i, None)) = (j, q)"
    by fastforce
  then have "i \<le> j" by (simp only: split: if_splits) auto
  moreover from jq have "decode_qualifier fmt i spec =
      decode_conversion (fmt_at fmt j) j (spec\<lparr>qualifier := q\<rparr>)"
    by (simp only: decode_qualifier_def Let_def prod.case)
  ultimately show ?thesis by blast
qed

lemma decode_qualifier_pos:
  "i \<le> fst (decode_qualifier fmt i spec)"
  "\<not> pending (snd (decode_qualifier fmt i spec))"
  using decode_qualifier_conversion [of i fmt spec] decode_conversion_pos order_trans by metis+

lemma skip_atoi_pos: "i \<le> snd (skip_atoi fmt i acc)"
proof (induction fmt i acc rule: skip_atoi.induct)
  case (1 fmt i acc)
  then show ?case by (subst skip_atoi.simps) auto
qed

lemma decode_precision_pos:
  "i \<le> fst (decode_precision fmt i spec)"
  "fst (decode_precision fmt i spec) = i \<Longrightarrow> \<not> pending (snd (decode_precision fmt i spec))"
proof -
  show "i \<le> fst (decode_precision fmt i spec)"
    using skip_atoi_pos [of "Suc i" fmt 0] decode_qualifier_pos(1) [of _ fmt]
    by (auto simp: decode_precision_def Let_def split: prod.splits)
      (meson Suc_leD order_trans)+
  show "fst (decode_precision fmt i spec) = i \<Longrightarrow> \<not> pending (snd (decode_precision fmt i spec))"
    using decode_qualifier_pos(2)
    by (auto simp: decode_precision_def Let_def split: prod.splits if_splits)
qed

lemma decode_flags_pos: "i < fst (decode_flags fmt i fl)"
proof (induction fmt i fl rule: decode_flags.induct)
  case (1 fmt i fl)
  then show ?case by (subst decode_flags.simps) (auto simp: Let_def)
qed

lemma format_decode_pending:
  assumes "pending spec"
  shows "\<exists>sp. format_decode fmt spec = decode_precision fmt 0 sp
    \<or> format_decode fmt spec = decode_qualifier fmt 0 sp"
  using assms by (auto simp: format_decode_def pending_def Let_def)

lemma format_decode_fresh:
  assumes "\<not> pending spec" and "fmt \<noteq> []"
  shows "\<exists>j sp. 0 < j \<and> (format_decode fmt spec = decode_precision fmt j sp
    \<or> format_decode fmt spec = (j, sp))"
proof (cases "takeWhile (\<lambda>c. c \<noteq> CHR ''%'') fmt = []")
  case True
  obtain i fl where fl: "decode_flags fmt 0 0 = (i, fl)" by fastforce
  then have i: "0 < i" using decode_flags_pos [of 0 fmt 0] by simp
  obtain v j where sk: "skip_atoi fmt i 0 = (v, j)" by fastforce
  then have "0 < j" using i skip_atoi_pos [of i fmt 0] by simp
  with i show ?thesis
    using assms True by (auto simp: format_decode_def pending_def Let_def fl sk)
next
  case False
  then have "format_decode fmt spec =
      (length (takeWhile (\<lambda>c. c \<noteq> CHR ''%'') fmt), spec\<lparr>ftype := FORMAT_TYPE_NONE\<rparr>)"
    using assms by (simp add: format_decode_def pending_def Let_def)
  with False show ?thesis by blast
qed

lemma format_decode_progress:
  assumes "fmt \<noteq> []" and "format_decode fmt spec = (rd, spec')"
  shows "0 < rd \<or> pending spec \<and> \<not> pending spec'"
proof (cases "pending spec")
  case True
  then obtain sp where "(rd, spec') = decode_precision fmt 0 sp \<or> (rd, spec') = decode_qualifier fmt 0 sp"
    using format_decode_pending assms(2) by metis
  then show ?thesis
    using True decode_precision_pos(2) decode_qualifier_pos(2) by (metis fst_conv gr0I snd_conv)
next
  case False
  then obtain j sp where "0 < j" and "(rd, spec') = decode_precision fmt j sp \<or> (rd, spec') = (j, sp)"
    using format_decode_fresh assms by metis
  then show ?thesis
    using decode_precision_pos(1) by (metis fst_conv order_less_le_trans)
qed

definition fmt_measure :: "string \<Rightarrow> printf_spec \<Rightarrow> nat" where
  "fmt_measure fmt spec = 2 * length fmt + (if pending spec then 1 else 0)"

lemma format_decode_measure:
  assumes "fmt \<noteq> []" and "(rd, spec') = format_decode fmt spec"
    and "ftype spec'' = ftype spec'"
  shows "fmt_measure (drop rd fmt) spec'' < fmt_measure fmt spec"
proof -
  have "0 < length fmt" using assms(1) by simp
  moreover have "pending spec'' = pending spec'" using assms(3) by (simp add: pending_def)
  moreover have "0 < rd \<or> pending spec \<and> \<not> pending spec'"
    using assms(1,2) by (intro format_decode_progress) simp_all
  ultimately show ?thesis
    unfolding fmt_measure_def length_drop by (cases "0 < rd"; simp; linarith)
qed

text \<open>\<open>while (--fw > 0) *str++ = ' '\<close> of a \<open>%c\<close> conversion.\<close>

definition char_pad :: "int \<Rightarrow> bytes" where
  "char_pad fw = replicate (nat (fw - 1)) (CHR '' '')"

text \<open>The loop of \<open>vsnprintf\<close>: the bytes produced for the rest \<open>fmt\<close> of the format.\<close>

function vsnprintf_loop :: "string \<Rightarrow> printf_spec \<Rightarrow> varg list \<Rightarrow> bytes res" where
  "vsnprintf_loop fmt spec0 args =
     (if fmt = [] then Ok [] else
      let (rd, spec) = format_decode fmt spec0
      in (case ftype spec of
            FORMAT_TYPE_NONE \<Rightarrow>
              bindR (vsnprintf_loop (drop rd fmt) spec args) (\<lambda>r. Ok (take rd fmt @ r))
          | FORMAT_TYPE_WIDTH \<Rightarrow>
              bindR (va_int args) (\<lambda>x.
                vsnprintf_loop (drop rd fmt) (spec\<lparr>field_width := sint (fst x)\<rparr>) (snd x))
          | FORMAT_TYPE_PRECISION \<Rightarrow>
              bindR (va_int args) (\<lambda>x.
                vsnprintf_loop (drop rd fmt) (spec\<lparr>precision := sint (fst x)\<rparr>) (snd x))
          | FORMAT_TYPE_CHAR \<Rightarrow>
              bindR (va_int args) (\<lambda>x.
                bindR (vsnprintf_loop (drop rd fmt) spec (snd x)) (\<lambda>r.
                  Ok ((if has_flag spec LEFT then [] else char_pad (field_width spec))
                      @ [char_of (unat (fst x))]
                      @ (if has_flag spec LEFT then char_pad (field_width spec) else []) @ r)))
          | FORMAT_TYPE_STR \<Rightarrow>
              bindR (va_str args) (\<lambda>x.
                bindR (string (fst x) spec) (\<lambda>str.
                  bindR (vsnprintf_loop (drop rd fmt) spec (snd x)) (\<lambda>r. Ok (str @ r))))
          | FORMAT_TYPE_PERCENT_CHAR \<Rightarrow>
              bindR (vsnprintf_loop (drop rd fmt) spec args) (\<lambda>r. Ok (CHR ''%'' # r))
          | FORMAT_TYPE_INVALID \<Rightarrow>
              bindR (vsnprintf_loop (drop rd fmt) spec args) (\<lambda>r. Ok (CHR ''%'' # r))
          | FORMAT_TYPE_PTR \<Rightarrow> Fault BadArgument
          | FORMAT_TYPE_NRCHARS \<Rightarrow> Fault BadArgument
          | _ \<Rightarrow>
              bindR (va_num (ftype spec) args) (\<lambda>x.
                bindR (vsnprintf_loop (drop rd fmt) spec (snd x)) (\<lambda>r.
                  Ok (number (fst x) spec @ r)))))"
  by pat_completeness auto
termination
  by (relation "measure (\<lambda>(fmt, spec, args). fmt_measure fmt spec)")
    (auto intro!: format_decode_measure)

declare vsnprintf_loop.simps [simp del]

text \<open>
  \<open>vsnprintf(buf, size, fmt, args)\<close>: the value returned and the buffer written.  A
  \<open>size\<close> that is negative as an \<open>int\<close> is rejected.
\<close>

definition vsnprintf :: "bytes \<Rightarrow> u32 \<Rightarrow> string \<Rightarrow> varg list \<Rightarrow> (nat \<times> bytes) res" where
  "vsnprintf buf sz fmt args =
     (if sint sz < 0 then Ok (0, buf) else
      bindR (vsnprintf_loop fmt spec_zero args) (\<lambda>out.
        let w = (if sz = 0 then [] else take (unat sz - 1) out @ [NUL])
        in if length w \<le> length buf then Ok (length out, w @ drop (length w) buf)
           else Fault OutOfBounds))"

definition INT_MAX :: u32 where
  "INT_MAX = 0x7fffffff"

definition sprintf :: "bytes \<Rightarrow> string \<Rightarrow> varg list \<Rightarrow> (nat \<times> bytes) res" where
  "sprintf buf fmt args = vsnprintf buf INT_MAX fmt args"

section \<open>The conversions of the message formats\<close>

text \<open>What \<open>%d\<close> prints, and the specifications \<open>%s\<close> and \<open>%d\<close> decode to.\<close>

definition print_int :: "u32 \<Rightarrow> string" where
  "print_int w = (if sint w < 0 then CHR ''-'' # decimal (nat (- sint w)) else decimal (unat w))"

definition str_spec :: printf_spec where
  "str_spec = \<lparr>ftype = FORMAT_TYPE_STR, flags = 0, field_width = - 1, fbase = 10,
     precision = - 1, qualifier = None\<rparr>"

definition int_spec :: printf_spec where
  "int_spec = \<lparr>ftype = FORMAT_TYPE_INT, flags = SIGN, field_width = - 1, fbase = 10,
     precision = - 1, qualifier = None\<rparr>"

lemma format_decode_str:
  assumes "\<not> pending spec"
  shows "format_decode (CHR ''%'' # CHR ''s'' # rest) spec = (2, str_spec)"
proof -
  have "decode_flags (CHR ''%'' # CHR ''s'' # rest) 0 0 = (1, 0)"
    by (subst decode_flags.simps) (simp add: fmt_at_def)
  then show ?thesis
    using assms
    by (cases spec) (simp add: format_decode_def pending_def Let_def fmt_at_def isdigit_def decode_precision_def
        decode_qualifier_def decode_conversion_def str_spec_def)
qed

lemma format_decode_int:
  assumes "\<not> pending spec"
  shows "format_decode (CHR ''%'' # CHR ''d'' # rest) spec = (2, int_spec)"
proof -
  have "decode_flags (CHR ''%'' # CHR ''d'' # rest) 0 0 = (1, 0)"
    by (subst decode_flags.simps) (simp add: fmt_at_def)
  then show ?thesis
    using assms
    by (cases spec) (simp add: format_decode_def pending_def Let_def fmt_at_def isdigit_def decode_precision_def
        decode_qualifier_def decode_conversion_def int_spec_def decode_int_type_def has_flag_def)
qed

lemma format_decode_literal:
  assumes "\<not> pending spec" and "c \<noteq> CHR ''%''" and "rest = [] \<or> hd rest = CHR ''%''"
  shows "format_decode (c # rest) spec = (1, spec\<lparr>ftype := FORMAT_TYPE_NONE\<rparr>)"
proof -
  have "takeWhile (\<lambda>c. c \<noteq> CHR ''%'') rest = []"
    using assms(3) by (cases rest) auto
  then show ?thesis
    using assms(1,2) by (simp add: format_decode_def pending_def Let_def)
qed

lemma strnlen_holds: "holds b s \<Longrightarrow> length s \<le> n \<Longrightarrow> strnlen b n = Ok (length s)"
proof (induction s arbitrary: b n)
  case Nil
  then show ?case by (cases b) (auto simp: holds_iff)
next
  case (Cons c s)
  then show ?case by (cases b) auto
qed

lemma string_str_spec:
  assumes "holds b s" and "length s < 2 ^ 32"
  shows "string (Some b) str_spec = Ok s"
proof -
  have "unat (- 1 :: u32) = 2 ^ 32 - 1"
    by (simp add: unsigned_minus_1_eq_mask mask_eq_exp_minus_1)
  then have "strnlen b (unat (- 1 :: u32)) = Ok (length s)"
    using assms by (intro strnlen_holds) simp_all
  moreover have "take (length s) b = s"
    using assms(1) by (auto simp: holds_iff)
  ultimately show ?thesis
    by (simp add: string_def str_spec_def has_flag_def Let_def)
qed

lemma sint_scast_u64: "sint (scast (w :: u32) :: u64) = sint w"
  using sint_range_size [of w]
  by (simp add: signed_scast_eq signed_take_bit_int_eq_self_iff word_size)

lemma sint_range_u32: "- (2 ^ 31) \<le> sint (w :: u32)" "sint (w :: u32) < 2 ^ 31"
  using sint_range_size [of w] by (simp_all add: word_size)

lemma uint_eq_sint: "0 \<le> sint (w :: 'a::len word) \<Longrightarrow> uint w = sint w"
proof -
  assume "0 \<le> sint w"
  have lt: "sint w < 2 ^ LENGTH('a)"
    using sint_range_size [of w]
    by (metis (no_types, opaque_lifting) diff_le_self dual_order.strict_trans1 order_less_le_trans
        one_le_numeral power_increasing word_size)
  have "uint w = uint (word_of_int (sint w) :: 'a word)"
    by simp
  also have "\<dots> = sint w"
    using lt \<open>0 \<le> sint w\<close> by (simp only: uint_word_of_int mod_pos_pos_trivial)
  finally show ?thesis .
qed

lemma unat_eq_sint: "0 \<le> sint (w :: 'a::len word) \<Longrightarrow> unat w = nat (sint w)"
  by (metis uint_eq_sint unat_eq_nat_uint)

lemma uint_minus_scast: "sint (w :: u32) < 0 \<Longrightarrow> unat (- scast w :: u64) = nat (- sint w)"
proof -
  assume "sint w < 0"
  have "(- scast w :: u64) = word_of_int (- sint w)"
    by (simp only: scast_eq wi_hom_neg)
  then have "uint (- scast w :: u64) = (- sint w) mod 2 ^ 64"
    by (simp only: uint_word_of_int) simp
  also have "\<dots> = - sint w"
    using sint_range_u32 [of w] \<open>sint w < 0\<close> by (intro mod_pos_pos_trivial) simp_all
  finally show ?thesis
    by (simp add: unat_eq_nat_uint)
qed

lemma decimal_0: "decimal 0 = ''0''"
  by code_simp

lemma pad_loop_neg: "fw \<le> 0 \<Longrightarrow> pad_loop c fw = ([], fw - 1)"
  by (simp add: pad_loop_def)

lemma number_int_spec: "number (scast w) int_spec = print_int w"
proof (cases "sint w < 0")
  case True
  then show ?thesis
    using uint_minus_scast [OF True]
    by (auto simp add: number_def int_spec_def has_flag_def sint_scast_u64 Let_def put_dec_decimal
        print_int_def pad_loop_neg)
next
  case False
  then have "unat (scast w :: u64) = unat w" 
    using unat_eq_sint [of w] unat_eq_sint [of "scast w :: u64"] by (simp add: sint_scast_u64)
  then show ?thesis
    using False
    by (auto simp add: number_def int_spec_def has_flag_def sint_scast_u64 Let_def put_dec_decimal
        print_int_def pad_loop_neg decimal_0)
qed

lemma not_pending [simp]:
  "\<not> pending str_spec" "\<not> pending int_spec" "\<not> pending spec_zero"
  "\<not> pending (spec\<lparr>ftype := FORMAT_TYPE_NONE\<rparr>)"
  by (simp_all add: pending_def str_spec_def int_spec_def spec_zero_def)

lemma vsnprintf_loop_Nil [simp]: "vsnprintf_loop [] spec args = Ok []"
  by (simp add: vsnprintf_loop.simps)

lemma vsnprintf_loop_str [simp]:
  assumes "\<not> pending spec" and "holds b s" and "length s < 2 ^ 32"
  shows "vsnprintf_loop (CHR ''%'' # CHR ''s'' # rest) spec (AStr (Some b) # args) =
    bindR (vsnprintf_loop rest str_spec args) (\<lambda>r. Ok (s @ r))"
proof -
  have "ftype str_spec = FORMAT_TYPE_STR"
    by (simp add: str_spec_def)
  then show ?thesis
    using assms(1)
    by (subst vsnprintf_loop.simps)
      (simp add: format_decode_str string_str_spec [OF assms(2,3)])
qed

lemma vsnprintf_loop_int [simp]:
  assumes "\<not> pending spec"
  shows "vsnprintf_loop (CHR ''%'' # CHR ''d'' # rest) spec (AInt w # args) =
    bindR (vsnprintf_loop rest int_spec args) (\<lambda>r. Ok (print_int w @ r))"
proof -
  have "ftype int_spec = FORMAT_TYPE_INT"
    by (simp add: int_spec_def)
  then show ?thesis
    using assms
    by (subst vsnprintf_loop.simps) (simp add: format_decode_int number_int_spec)
qed

lemma vsnprintf_loop_literal [simp]:
  assumes "\<not> pending spec" and "c \<noteq> CHR ''%''" and "rest = [] \<or> hd rest = CHR ''%''"
  shows "vsnprintf_loop (c # rest) spec args =
    bindR (vsnprintf_loop rest (spec\<lparr>ftype := FORMAT_TYPE_NONE\<rparr>) args) (\<lambda>r. Ok (c # r))"
  using assms by (subst vsnprintf_loop.simps) (simp add: format_decode_literal)

lemma INT_MAX_facts: "\<not> sint INT_MAX < 0" "INT_MAX \<noteq> 0" "unat INT_MAX = 2147483647"
  by (simp_all add: INT_MAX_def)

lemma sprintf_Ok:
  assumes "vsnprintf_loop fmt spec_zero args = Ok out" and "length out < length buf"
    and "length buf < 2147483648"
  shows "sprintf buf fmt args = Ok (length out, out @ [NUL] @ drop (Suc (length out)) buf)"
proof -
  have "take (unat INT_MAX - 1) out = out"
    using assms(2,3) unfolding INT_MAX_facts by (intro take_all) linarith
  then show ?thesis
    using assms(1,2) INT_MAX_facts(1,2) by (simp add: sprintf_def vsnprintf_def Let_def)
qed

lemma sprintf_overflow:
  assumes "vsnprintf_loop fmt spec_zero args = Ok out" and "length buf \<le> length out"
    and "length buf < 2147483647"
  shows "sprintf buf fmt args = Fault OutOfBounds"
proof -
  have "length buf < length (take (unat INT_MAX - 1) out @ [NUL])"
    using assms(2,3) unfolding INT_MAX_facts length_append length_take by simp
  then show ?thesis
    using assms(1) INT_MAX_facts(1,2) by (simp add: sprintf_def vsnprintf_def Let_def)
qed

lemma print_int_no_NUL: "NUL \<notin> set (print_int w)"
  by (simp add: print_int_def decimal_no_NUL)

lemma print_int_nonneg: "0 \<le> sint w \<Longrightarrow> print_int w = decimal (unat w)"
  by (simp add: print_int_def)

end
