(* ===== verification/Wire.thy ===== *)
theory Wire
  imports Vsprintf
begin

text \<open>
  The wire format of the four requests: \<open>CR\<close> (create), \<open>RM\<close> (remove), \<open>WR\<close> (write) and
  \<open>RD\<close> (read).  A client prints a request with \<open>sprintf\<close> into a buffer of 1024 bytes
  (\<open>wjfs_client_create\<close>, \<open>wjfs_client_remove\<close>, \<open>wjfs_client_write\<close>,
  \<open>wjfs_client_read\<close>); the server splits it into the rows of \<open>tmp_name\<close> and converts
  them (the first halves of \<open>rdma_create\<close>, \<open>rdma_remove\<close>, \<open>rdma_write\<close> and
  \<open>rdma_read\<close>).

  The rows of \<open>tmp_name\<close> and the arrays \<open>name\<close>, \<open>name_parent\<close> and \<open>message\<close> are
  uninitialised locals: their first content is an argument of the parsers.  A write past
  the end of a row is a fault even where another row follows it.  The lines given to
  \<open>printk\<close> are not modelled.  The lemmas show that a request whose fields fit is read
  back exactly, and what happens to one whose fields do not.
\<close>

section \<open>Printing a request\<close>

text \<open>A string literal of the source.\<close>

abbreviation lit :: "string \<Rightarrow> varg" where
  "lit s \<equiv> AStr (Some (s @ [NUL]))"

definition create_message ::
  "bytes \<Rightarrow> u32 \<Rightarrow> bytes \<Rightarrow> u32 \<Rightarrow> bytes \<Rightarrow> u32 \<Rightarrow> (nat \<times> bytes) res" where
  "create_message buf ino name ino_parent name_parent mode =
     bindR (memset buf NUL 1024) (\<lambda>buf.
       if mode \<noteq> 0
       then sprintf buf ''%s %d %s %d %s %s''
              [lit ''CR'', AInt ino, AStr (Some name), AInt ino_parent,
               AStr (Some name_parent), lit ''1111'']
       else sprintf buf ''%s %d %s %d %s %s''
              [lit ''CR'', AInt ino, AStr (Some name), AInt ino_parent,
               AStr (Some name_parent), lit ''0000''])"

definition remove_message ::
  "bytes \<Rightarrow> u32 \<Rightarrow> bytes \<Rightarrow> u32 \<Rightarrow> bytes \<Rightarrow> u32 \<Rightarrow> (nat \<times> bytes) res" where
  "remove_message buf ino name ino_parent name_parent mode =
     bindR (memset buf NUL 1024) (\<lambda>buf.
       if mode \<noteq> 0
       then sprintf buf ''%s %d %s %d %s %s''
              [lit ''RM'', AInt ino, AStr (Some name), AInt ino_parent,
               AStr (Some name_parent), lit ''1111'']
       else sprintf buf ''%s %d %s %d %s %s''
              [lit ''RM'', AInt ino, AStr (Some name), AInt ino_parent,
               AStr (Some name_parent), lit ''0000''])"

definition write_message ::
  "bytes \<Rightarrow> u32 \<Rightarrow> bytes \<Rightarrow> u32 \<Rightarrow> bytes \<Rightarrow> bytes \<Rightarrow> (nat \<times> bytes) res" where
  "write_message buf my_rdma_ino name my_rdma_parent_ino name_parent message =
     bindR (memset buf NUL 1024) (\<lambda>buf.
       sprintf buf ''%s %d %s %d %s %s''
         [lit ''WR'', AInt my_rdma_ino, AStr (Some name), AInt my_rdma_parent_ino,
          AStr (Some name_parent), AStr (Some message)])"

definition read_message ::
  "bytes \<Rightarrow> u32 \<Rightarrow> bytes \<Rightarrow> u32 \<Rightarrow> bytes \<Rightarrow> (nat \<times> bytes) res" where
  "read_message buf my_rdma_ino name my_rdma_parent_ino name_parent =
     bindR (memset buf NUL 1024) (\<lambda>buf.
       sprintf buf ''%s %d %s %d %s''
         [lit ''RD'', AInt my_rdma_ino, AStr (Some name), AInt my_rdma_parent_ino,
          AStr (Some name_parent)])"

section \<open>Splitting a request\<close>

definition newline :: "char \<Rightarrow> bool" where
  "newline c \<longleftrightarrow> (of_char c :: nat) = 13 \<or> (of_char c :: nat) = 10"

definition separator :: "char \<Rightarrow> bool" where
  "separator c \<longleftrightarrow> (of_char c :: nat) = 32 \<or> newline c"

text \<open>
  The inner \<open>while\<close>: copy \<open>tmp\<close> from \<open>i\<close> into the row from \<open>k\<close>, up to a byte for
  which \<open>sep\<close> holds or the end of the string.
\<close>

function tok_word ::
  "(char \<Rightarrow> bool) \<Rightarrow> bytes \<Rightarrow> nat \<Rightarrow> nat \<Rightarrow> bytes \<Rightarrow> (nat \<times> nat \<times> bytes) res" where
  "tok_word sep tmp i k row =
     bindR (aread tmp i) (\<lambda>c.
       if sep c then Ok (i, k, row)
       else bindR (strlen tmp) (\<lambda>n.
         if i < n
         then bindR (awrite row k c) (\<lambda>row. tok_word sep tmp (Suc i) (Suc k) row)
         else Ok (i, k, row)))"
  by pat_completeness auto
termination
  by (relation "measure (\<lambda>(sep, tmp, i, k, row). length tmp - i)") (auto simp: aread_eq_Ok)

declare tok_word.simps [simp del]

lemma tok_word_mono: "tok_word sep tmp i k row = Ok (i', k', row') \<Longrightarrow> i \<le> i'"
proof (induction sep tmp i k row rule: tok_word.induct)
  case (1 sep tmp i k row)
  then show ?case
    by (subst (asm) (2) tok_word.simps) (fastforce split: if_splits)
qed

text \<open>
  The outer \<open>for\<close> over the words, which counts the rows in \<open>j\<close>.  \<open>lim = Some 5\<close> is the
  test \<open>if(j == 5) { i++; break; }\<close> of \<open>rdma_write\<close>; the other three have none.
\<close>

function tok_loop ::
  "nat option \<Rightarrow> bytes \<Rightarrow> nat \<Rightarrow> nat \<Rightarrow> bytes list \<Rightarrow> (nat \<times> nat \<times> bytes list) res" where
  "tok_loop lim tmp i j tmp_name =
     bindR (strlen tmp) (\<lambda>n.
       if i < n then
         bindR (aread tmp_name j) (\<lambda>row.
         bindR (tok_word separator tmp i 0 row) (\<lambda>(i', k, row).
         bindR (awrite row k NUL) (\<lambda>row.
           if lim = Some (Suc j) then Ok (Suc i', Suc j, tmp_name[j := row])
           else tok_loop lim tmp (Suc i') (Suc j) (tmp_name[j := row]))))
       else Ok (i, j, tmp_name))"
  by pat_completeness auto
termination
  by (relation "measure (\<lambda>(lim, tmp, i, j, tmp_name). length tmp - i)")
    (auto simp: strlen_Ok dest!: tok_word_mono holds_length)

declare tok_loop.simps [simp del]

text \<open>
  The second loop of \<open>rdma_write\<close>: the rest of the request goes to the last row without
  its line breaks; \<open>k\<close> is not reset between the pieces.
\<close>

function tok_rest :: "bytes \<Rightarrow> nat \<Rightarrow> nat \<Rightarrow> nat \<Rightarrow> bytes list \<Rightarrow> bytes list res" where
  "tok_rest tmp i j k tmp_name =
     bindR (strlen tmp) (\<lambda>n.
       if i < n then
         bindR (aread tmp_name j) (\<lambda>row.
         bindR (tok_word newline tmp i k row) (\<lambda>(i', k, row).
         bindR (awrite row k NUL) (\<lambda>row.
           tok_rest tmp (Suc i') j k (tmp_name[j := row]))))
       else Ok tmp_name)"
  by pat_completeness auto
termination
  by (relation "measure (\<lambda>(tmp, i, j, k, tmp_name). length tmp - i)")
    (auto simp: strlen_Ok dest!: tok_word_mono holds_length)

declare tok_rest.simps [simp del]

section \<open>Reading a request\<close>

text \<open>The uninitialised locals of a handler, and the fields it reads from a request.\<close>

record frame =
  tmp_name0 :: "bytes list"
  name0 :: bytes
  name_parent0 :: bytes
  message0 :: bytes

record request =
  rq_ino :: u32
  rq_ino_parent :: u32
  rq_mode :: u32
  rq_name :: bytes
  rq_name_parent :: bytes
  rq_message :: bytes

text \<open>\<open>rdma_create\<close> and \<open>rdma_remove\<close> read six words; they have no message.\<close>

definition parse_entry :: "frame \<Rightarrow> bytes \<Rightarrow> request res" where
  "parse_entry fr buf =
     bindR (tok_loop None buf 0 0 (tmp_name0 fr)) (\<lambda>(i, j, tmp_name).
     bindR (aread tmp_name 1) (\<lambda>w1. bindR (string2int w1) (\<lambda>ino.
     bindR (aread tmp_name 3) (\<lambda>w3. bindR (string2int w3) (\<lambda>ino_parent.
     bindR (aread tmp_name 5) (\<lambda>w5. bindR (string2int w5) (\<lambda>mode.
     bindR (aread tmp_name 2) (\<lambda>w2. bindR (strcpy (name0 fr) w2) (\<lambda>name.
     bindR (aread tmp_name 4) (\<lambda>w4. bindR (strcpy (name_parent0 fr) w4) (\<lambda>name_parent.
       Ok \<lparr>rq_ino = ino, rq_ino_parent = ino_parent, rq_mode = mode, rq_name = name,
           rq_name_parent = name_parent, rq_message = message0 fr\<rparr>)))))))))))"

text \<open>\<open>rdma_read\<close> reads five words into five rows.\<close>

definition parse_read :: "frame \<Rightarrow> bytes \<Rightarrow> request res" where
  "parse_read fr buf =
     bindR (tok_loop None buf 0 0 (tmp_name0 fr)) (\<lambda>(i, j, tmp_name).
     bindR (aread tmp_name 1) (\<lambda>w1. bindR (string2int w1) (\<lambda>ino.
     bindR (aread tmp_name 3) (\<lambda>w3. bindR (string2int w3) (\<lambda>ino_parent.
     bindR (aread tmp_name 2) (\<lambda>w2. bindR (strcpy (name0 fr) w2) (\<lambda>name.
     bindR (aread tmp_name 4) (\<lambda>w4. bindR (strcpy (name_parent0 fr) w4) (\<lambda>name_parent.
       Ok \<lparr>rq_ino = ino, rq_ino_parent = ino_parent, rq_mode = 0, rq_name = name,
           rq_name_parent = name_parent, rq_message = message0 fr\<rparr>)))))))))"

text \<open>\<open>rdma_write\<close> reads five words, then the message up to the end of the request.\<close>

definition parse_write :: "frame \<Rightarrow> bytes \<Rightarrow> request res" where
  "parse_write fr buf =
     bindR (tok_loop (Some 5) buf 0 0 (tmp_name0 fr)) (\<lambda>(i, j, tmp_name).
     bindR (tok_rest buf i j 0 tmp_name) (\<lambda>tmp_name.
     bindR (aread tmp_name 1) (\<lambda>w1. bindR (string2int w1) (\<lambda>ino.
     bindR (aread tmp_name 3) (\<lambda>w3. bindR (string2int w3) (\<lambda>ino_parent.
     bindR (aread tmp_name 2) (\<lambda>w2. bindR (strcpy (name0 fr) w2) (\<lambda>name.
     bindR (aread tmp_name 4) (\<lambda>w4. bindR (strcpy (name_parent0 fr) w4) (\<lambda>name_parent.
     bindR (aread tmp_name 5) (\<lambda>w5. bindR (strcpy (message0 fr) w5) (\<lambda>message.
       Ok \<lparr>rq_ino = ino, rq_ino_parent = ino_parent, rq_mode = 0, rq_name = name,
           rq_name_parent = name_parent, rq_message = message\<rparr>))))))))))))"

text \<open>A frame with the sizes the handlers declare, \<open>rows\<close> rows of \<open>tmp_name\<close>.\<close>

definition frame_ok :: "nat \<Rightarrow> frame \<Rightarrow> bool" where
  "frame_ok rows fr \<longleftrightarrow> length (tmp_name0 fr) = rows \<and> (\<forall>r \<in> set (tmp_name0 fr). length r = 20) \<and>
     length (name0 fr) = 20 \<and> length (name_parent0 fr) = 20 \<and> length (message0 fr) = 1024"

section \<open>The tokeniser on a well-formed request\<close>

text \<open>Words, each followed by a blank.\<close>

fun blanks :: "string list \<Rightarrow> string" where
  "blanks [] = []"
| "blanks (w # ws) = w @ CHR '' '' # blanks ws"

definition word_ok :: "string \<Rightarrow> bool" where
  "word_ok w \<longleftrightarrow> (\<forall>c \<in> set w. \<not> separator c \<and> c \<noteq> NUL)"

definition put_row :: "bytes \<Rightarrow> string \<Rightarrow> bytes" where
  "put_row row w = w @ NUL # drop (Suc (length w)) row"

lemma separator_simps [simp]: "separator (CHR '' '')" "\<not> separator NUL" "\<not> newline NUL"
  by (simp_all add: separator_def newline_def)

lemma word_ok_no_NUL: "word_ok w \<Longrightarrow> NUL \<notin> set w"
  by (auto simp: word_ok_def)

lemma word_ok_simps [simp]: "word_ok []" "word_ok (c # w) \<longleftrightarrow> \<not> separator c \<and> c \<noteq> NUL \<and> word_ok w"
  by (auto simp: word_ok_def)

lemma put_row_holds: "NUL \<notin> set w \<Longrightarrow> holds (put_row row w) w"
  by (auto simp: put_row_def)

lemma put_row_length [simp]: "length w < length row \<Longrightarrow> length (put_row row w) = length row"
  by (simp add: put_row_def)

text \<open>One word, copied in place.\<close>

lemma tok_word_copy:
  assumes "\<forall>c \<in> set w. \<not> sep c \<and> c \<noteq> NUL" and "strlen (pre @ w @ d # post) = Ok n"
    and "length pre + length w \<le> n" and "sep d \<or> n = length pre + length w"
    and "k + length w \<le> length row"
  shows "tok_word sep (pre @ w @ d # post) (length pre) k row =
    Ok (length pre + length w, k + length w, take k row @ w @ drop (k + length w) row)"
  using assms
proof (induction w arbitrary: pre k row)
  case Nil
  then show ?case by (subst tok_word.simps) auto
next
  case (Cons c w)
  have IH: "tok_word sep ((pre @ [c]) @ w @ d # post) (length (pre @ [c])) (Suc k) (row[k := c]) =
      Ok (length (pre @ [c]) + length w, Suc k + length w,
          take (Suc k) (row[k := c]) @ w @ drop (Suc k + length w) (row[k := c]))"
    using Cons.prems by (intro Cons.IH) auto
  have "tok_word sep (pre @ (c # w) @ d # post) (length pre) k row =
      tok_word sep ((pre @ [c]) @ w @ d # post) (length (pre @ [c])) (Suc k) (row[k := c])"
    using Cons.prems by (subst tok_word.simps) simp
  with IH show ?case
    using Cons.prems by (simp add: list_update_take_drop_Suc)
qed

lemma tok_word_overflow:
  assumes "\<forall>c \<in> set w. \<not> sep c \<and> c \<noteq> NUL" and "strlen (pre @ w @ d # post) = Ok n"
    and "length pre + length w \<le> n" and "length row < k + length w" and "k \<le> length row"
  shows "tok_word sep (pre @ w @ d # post) (length pre) k row = Fault OutOfBounds"
  using assms
proof (induction w arbitrary: pre k row)
  case Nil
  then show ?case by simp
next
  case (Cons c w)
  show ?case
  proof (cases "k < length row")
    case True
    have "tok_word sep ((pre @ [c]) @ w @ d # post) (length (pre @ [c])) (Suc k) (row[k := c]) =
        Fault OutOfBounds"
      using Cons.prems True by (intro Cons.IH) auto
    then show ?thesis
      using Cons.prems True by (subst tok_word.simps) simp
  next
    case False
    then show ?thesis
      using Cons.prems by (subst tok_word.simps) simp
  qed
qed

text \<open>The rows after the words \<open>ws\<close> went to the rows from \<open>j\<close>.\<close>

fun place :: "nat \<Rightarrow> bytes list \<Rightarrow> string list \<Rightarrow> bytes list" where
  "place j rows [] = rows"
| "place j rows (w # ws) = place (Suc j) (rows[j := put_row (rows ! j) w]) ws"

lemma place_append: "place j rows (ws @ vs) = place (j + length ws) (place j rows ws) vs"
  by (induction ws arbitrary: j rows) simp_all

lemma place_length [simp]: "length (place j rows ws) = length rows"
  by (induction ws arbitrary: j rows) simp_all

definition rows_ok :: "bytes list \<Rightarrow> bool" where
  "rows_ok rows \<longleftrightarrow> (\<forall>r \<in> set rows. length r = 20)"

lemma rows_ok_nth: "rows_ok rows \<Longrightarrow> j < length rows \<Longrightarrow> length (rows ! j) = 20"
  by (simp add: rows_ok_def)

lemma rows_ok_update: "rows_ok rows \<Longrightarrow> length r = 20 \<Longrightarrow> rows_ok (rows[j := r])"
  using set_update_subset_insert [of rows j r] by (auto simp: rows_ok_def)

lemma place_rows_ok:
  "rows_ok rows \<Longrightarrow> \<forall>w \<in> set ws. length w < 20 \<Longrightarrow> j + length ws \<le> length rows \<Longrightarrow>
    rows_ok (place j rows ws)"
  by (induction ws arbitrary: j rows) (simp_all add: rows_ok_update rows_ok_nth)

lemma tok_loop_word:
  assumes "word_ok w" "length w < 20" and "strlen (pre @ w @ d # post) = Ok n"
    and "length pre < n" and "length pre + length w \<le> n" and "separator d \<or> n = length pre + length w"
    and "rows_ok rows" "j < length rows"
  shows "tok_loop lim (pre @ w @ d # post) (length pre) j rows =
    (let rows' = rows[j := put_row (rows ! j) w]; i = Suc (length pre + length w)
     in if lim = Some (Suc j) then Ok (i, Suc j, rows')
        else tok_loop lim (pre @ w @ d # post) i (Suc j) rows')"
proof -
  have len: "length (rows ! j) = 20"
    using assms(7,8) by (rule rows_ok_nth)
  have "tok_word separator (pre @ w @ d # post) (length pre) 0 (rows ! j) =
      Ok (length pre + length w, length w, w @ drop (length w) (rows ! j))"
    using assms len by (subst tok_word_copy [where n = n]) (auto simp: word_ok_def)
  moreover have "(w @ drop (length w) (rows ! j))[length w := NUL] = put_row (rows ! j) w"
    using assms(2) len by (simp add: put_row_def list_update_append Cons_nth_drop_Suc [symmetric])
  ultimately show ?thesis
    using assms(2-4,8) len by (subst tok_loop.simps) (simp add: Let_def)
qed

lemma tok_loop_blanks:
  assumes "\<forall>w \<in> set ws. word_ok w \<and> length w < 20" and "NUL \<notin> set pre" "NUL \<notin> set rest"
    and "rows_ok rows" "j + length ws \<le> length rows"
    and "\<And>m. lim = Some m \<Longrightarrow> m \<le> j \<or> j + length ws < m"
  shows "tok_loop lim (pre @ blanks ws @ rest @ NUL # post) (length pre) j rows =
    tok_loop lim (pre @ blanks ws @ rest @ NUL # post) (length pre + length (blanks ws))
      (j + length ws) (place j rows ws)"
  using assms
proof (induction ws arbitrary: pre j rows)
  case Nil
  then show ?case by simp
next
  case (Cons w ws)
  let ?pre = "pre @ w @ '' ''"
  let ?rows = "rows[j := put_row (rows ! j) w]"
  have w: "word_ok w" "length w < 20" and ws: "\<forall>w \<in> set ws. NUL \<notin> set w"
    using Cons.prems(1) word_ok_no_NUL by auto
  then have "NUL \<notin> set (blanks ws)"
    by (induction ws) auto
  then have "holds (pre @ w @ CHR '' '' # blanks ws @ rest @ NUL # post)
      (pre @ w @ CHR '' '' # blanks ws @ rest)"
    using Cons.prems(2,3) word_ok_no_NUL [OF w(1)] by (auto simp: holds_iff)
  then have "strlen (pre @ w @ CHR '' '' # blanks ws @ rest @ NUL # post) =
      Ok (length (pre @ w @ CHR '' '' # blanks ws @ rest))"
    by simp
  moreover have "lim \<noteq> Some (Suc j)"
    using Cons.prems(6) [of "Suc j"] by auto
  ultimately have "tok_loop lim (pre @ blanks (w # ws) @ rest @ NUL # post) (length pre) j rows =
      tok_loop lim (?pre @ blanks ws @ rest @ NUL # post) (length ?pre) (Suc j) ?rows"
    using w Cons.prems(4,5) by (simp add: tok_loop_word Let_def)
  moreover have "rows_ok ?rows"
    using Cons.prems w by (intro rows_ok_update) (auto simp: rows_ok_nth)
  moreover have "m \<le> Suc j \<or> Suc j + length ws < m" if "lim = Some m" for m
    using Cons.prems(6) [OF that] by auto
  ultimately show ?case
    using Cons.IH [of ?pre ?rows "Suc j"] Cons.prems w by (simp add: word_ok_no_NUL add.assoc)
qed

lemma blanks_no_NUL: "\<forall>w \<in> set ws. word_ok w \<Longrightarrow> NUL \<notin> set (blanks ws)"
  by (induction ws) (auto dest: word_ok_no_NUL)

lemma place_nth_before: "i < j \<Longrightarrow> place j rows ws ! i = rows ! i"
  by (induction ws arbitrary: j rows) simp_all

lemma place_nth:
  assumes "j \<le> i" "i < j + length ws" "j + length ws \<le> length rows"
  shows "place j rows ws ! i = put_row (rows ! i) (ws ! (i - j))"
  using assms
proof (induction ws arbitrary: j rows)
  case (Cons w ws)
  show ?case
  proof (cases "i = j")
    case True
    then show ?thesis using Cons.prems by (simp add: place_nth_before)
  next
    case False
    then have "Suc j \<le> i" using Cons.prems by simp
    then show ?thesis
      using Cons.prems Cons.IH [of "Suc j" "rows[j := put_row (rows ! j) w]"]
      by (simp add: nth_Cons' less_eq_Suc_le [symmetric])
  qed
qed simp

text \<open>A request of words only: every word gets its row.\<close>

lemma tok_loop_all:
  assumes "\<forall>w \<in> set ws. word_ok w \<and> length w < 20" and "word_ok v" "length v < 20" "v \<noteq> []"
    and "rows_ok rows" "Suc (length ws) \<le> length rows"
  shows "tok_loop None (blanks ws @ v @ NUL # post) 0 0 rows =
    Ok (Suc (length (blanks ws) + length v), Suc (length ws), place 0 rows (ws @ [v]))"
proof -
  let ?pre = "blanks ws"
  have pre: "NUL \<notin> set ?pre" and v: "NUL \<notin> set v"
    using assms(1,2) blanks_no_NUL word_ok_no_NUL by auto
  then have n: "strlen (?pre @ v @ NUL # post) = Ok (length ?pre + length v)"
    using strlen_holds [OF holdsI [of "?pre @ v"]] by simp
  have "tok_loop None (?pre @ v @ NUL # post) 0 0 rows =
      tok_loop None (?pre @ v @ NUL # post) (length ?pre) (length ws) (place 0 rows ws)"
    using assms v tok_loop_blanks [of ws "[]" v rows 0 None post] by simp
  also have "\<dots> = tok_loop None (?pre @ v @ NUL # post) (Suc (length ?pre + length v))
      (Suc (length ws)) (place 0 rows (ws @ [v]))"
    using assms n by (subst tok_loop_word [where n = "length ?pre + length v"])
      (simp_all add: place_rows_ok place_append)
  also have "\<dots> = Ok (Suc (length ?pre + length v), Suc (length ws), place 0 rows (ws @ [v]))"
    using n by (subst tok_loop.simps) simp
  finally show ?thesis .
qed

lemma strcpy_put_row: "holds src s \<Longrightarrow> length s < length dest \<Longrightarrow> strcpy dest src = Ok (put_row dest s)"
  by (simp add: strcpy_holds put_row_def)

lemma frame_okD:
  assumes "frame_ok n fr"
  shows "rows_ok (tmp_name0 fr)" "length (tmp_name0 fr) = n" "length (name0 fr) = 20"
    "length (name_parent0 fr) = 20" "length (message0 fr) = 1024"
  using assms by (auto simp: frame_ok_def rows_ok_def)

lemma string2int_row: "word_ok w \<Longrightarrow> string2int (put_row row w) = Ok (value_of 0 w)"
  by (simp add: string2int_holds put_row_holds word_ok_no_NUL)

lemma strcpy_row:
  "word_ok w \<Longrightarrow> length w < length dest \<Longrightarrow> strcpy dest (put_row row w) = Ok (put_row dest w)"
  by (simp add: strcpy_put_row put_row_holds word_ok_no_NUL)

lemmas row_lemmas = place_nth string2int_row strcpy_row

lemma parse_entry_words:
  assumes "frame_ok 6 fr" and "\<forall>w \<in> {w0, w1, w2, w3, w4, w5}. word_ok w \<and> length w < 20"
    and "w5 \<noteq> []"
  shows "parse_entry fr (blanks [w0, w1, w2, w3, w4] @ w5 @ NUL # post) =
    Ok \<lparr>rq_ino = value_of 0 w1, rq_ino_parent = value_of 0 w3, rq_mode = value_of 0 w5,
        rq_name = put_row (name0 fr) w2, rq_name_parent = put_row (name_parent0 fr) w4,
        rq_message = message0 fr\<rparr>"
proof -
  note fr = frame_okD [OF assms(1)]
  have "tok_loop None (blanks [w0, w1, w2, w3, w4] @ w5 @ NUL # post) 0 0 (tmp_name0 fr) =
      Ok (Suc (length (blanks [w0, w1, w2, w3, w4]) + length w5), 6,
          place 0 (tmp_name0 fr) [w0, w1, w2, w3, w4, w5])"
    using assms fr by (subst tok_loop_all) simp_all
  then show ?thesis
    using assms fr unfolding parse_entry_def by (simp add: row_lemmas del: place.simps blanks.simps)
qed

lemma parse_read_words:
  assumes "frame_ok 5 fr" and "\<forall>w \<in> {w0, w1, w2, w3, w4}. word_ok w \<and> length w < 20"
    and "w4 \<noteq> []"
  shows "parse_read fr (blanks [w0, w1, w2, w3] @ w4 @ NUL # post) =
    Ok \<lparr>rq_ino = value_of 0 w1, rq_ino_parent = value_of 0 w3, rq_mode = 0,
        rq_name = put_row (name0 fr) w2, rq_name_parent = put_row (name_parent0 fr) w4,
        rq_message = message0 fr\<rparr>"
proof -
  note fr = frame_okD [OF assms(1)]
  have "tok_loop None (blanks [w0, w1, w2, w3] @ w4 @ NUL # post) 0 0 (tmp_name0 fr) =
      Ok (Suc (length (blanks [w0, w1, w2, w3]) + length w4), 5,
          place 0 (tmp_name0 fr) [w0, w1, w2, w3, w4])"
    using assms fr by (subst tok_loop_all) simp_all
  then show ?thesis
    using assms fr unfolding parse_read_def by (simp add: row_lemmas del: place.simps blanks.simps)
qed

text \<open>
  The message of a write request loses its line breaks; 20 bytes or more overrun the row.
\<close>

definition visible :: "string \<Rightarrow> string" where
  "visible m = filter (\<lambda>c. \<not> newline c) m"

lemma visible_split:
  assumes "\<forall>c \<in> set w. \<not> newline c"
  shows "visible w = w" and "newline d \<Longrightarrow> visible (w @ d # m) = w @ visible m"
  using assms by (simp_all add: visible_def filter_empty_conv)

lemma tok_piece:
  assumes "\<forall>c \<in> set w. \<not> newline c" and "NUL \<notin> set (pre @ w)"
    and "strlen (pre @ w @ d # post) = Ok n" and "length pre + length w \<le> n"
    and "newline d \<or> n = length pre + length w" and "k < length row"
  shows "bindR (tok_word newline (pre @ w @ d # post) (length pre) k row)
      (\<lambda>(i', k', row). bindR (awrite row k' NUL) (\<lambda>row. f (i', k', row))) =
    (if k + length w < length row
     then f (length pre + length w, k + length w,
             take k row @ w @ NUL # drop (Suc (k + length w)) row)
     else Fault OutOfBounds)"
proof (cases "k + length w \<le> length row")
  case True
  then have "tok_word newline (pre @ w @ d # post) (length pre) k row =
      Ok (length pre + length w, k + length w, take k row @ w @ drop (k + length w) row)"
    using assms by (intro tok_word_copy) auto
  then show ?thesis
    using True
    by (auto simp: awrite_def list_update_append Cons_nth_drop_Suc [symmetric] min_def split: nat.splits)
next
  case False
  then have "tok_word newline (pre @ w @ d # post) (length pre) k row = Fault OutOfBounds"
    using assms by (intro tok_word_overflow) auto
  with False show ?thesis
    by simp
qed

lemma tok_rest_message:
  assumes "NUL \<notin> set pre" "NUL \<notin> set m" "m \<noteq> []"
    and "rows_ok rows" "j < length rows" "k < 20"
  shows "tok_rest (pre @ m @ NUL # post) (length pre) j k rows =
    (if k + length (visible m) < 20
     then Ok (rows[j := take k (rows ! j) @ visible m @ NUL # drop (Suc (k + length (visible m))) (rows ! j)])
     else Fault OutOfBounds)"
  using assms
proof (induction "length m" arbitrary: m pre k rows rule: less_induct)
  case less
  let ?tmp = "pre @ m @ NUL # post"
  define w where "w = takeWhile (\<lambda>c. \<not> newline c) m"
  have w: "\<forall>c \<in> set w. \<not> newline c"
    unfolding w_def by (auto dest: set_takeWhileD)
  have row: "length (rows ! j) = 20"
    using less.prems by (simp add: rows_ok_nth)
  have n: "strlen ?tmp = Ok (length pre + length m)"
    using less.prems strlen_holds [OF holdsI [of "pre @ m"]] by simp
  note step = tok_piece [where f = "\<lambda>(i', k, row). tok_rest ?tmp (Suc i') j k (rows[j := row])"]
  show ?case
  proof (cases "dropWhile (\<lambda>c. \<not> newline c) m")
    case Nil
    then have m: "m = w"
      by (metis append_Nil2 takeWhile_dropWhile_id w_def)
    then have "tok_rest ?tmp (length pre) j k rows =
        (if k + length w < 20
         then tok_rest ?tmp (Suc (length pre + length w)) j (k + length w)
           (rows[j := take k (rows ! j) @ w @ NUL # drop (Suc (k + length w)) (rows ! j)])
         else Fault OutOfBounds)"
      using step [of w pre NUL post "length pre + length m" k "rows ! j"] less.prems w n row
      by (subst tok_rest.simps) (simp add: split_def)
    moreover have "tok_rest ?tmp (Suc (length pre + length w)) j k' rows' = Ok rows'" for k' rows'
      using n m by (subst tok_rest.simps) simp
    ultimately show ?thesis
      using m w by (simp add: visible_split)
  next
    case (Cons d m')
    then have m: "m = w @ d # m'"
      using takeWhile_dropWhile_id [of "\<lambda>c. \<not> newline c" m] by (simp add: w_def)
    have d: "newline d"
      using Cons hd_dropWhile [of "\<lambda>c. \<not> newline c" m] by simp
    let ?row = "take k (rows ! j) @ w @ NUL # drop (Suc (k + length w)) (rows ! j)"
    have 1: "tok_rest ?tmp (length pre) j k rows =
        (if k + length w < 20
         then tok_rest ?tmp (Suc (length pre + length w)) j (k + length w) (rows[j := ?row])
         else Fault OutOfBounds)"
      using step [of w pre d "m' @ NUL # post" "length pre + length m" k "rows ! j"] less.prems w n row m d
      by (subst tok_rest.simps) (simp add: split_def)
    have vis: "visible m = w @ visible m'"
      using m w d by (simp add: visible_split)
    show ?thesis
    proof (cases "m' = [] \<or> \<not> k + length w < 20")
      case True
      have "tok_rest ?tmp (Suc (length pre + length w)) j (k + length w) (rows[j := ?row]) =
          Ok (rows[j := ?row])" if "m' = []"
        using n m that by (subst tok_rest.simps) simp
      then show ?thesis
        using True 1 vis by (auto simp: visible_def)
    next
      case False
      have "rows_ok (rows[j := ?row])"
        using less.prems row False by (intro rows_ok_update) auto
      moreover have "?tmp = (pre @ w @ [d]) @ m' @ NUL # post"
        using m by simp
      ultimately have "tok_rest ?tmp (length (pre @ w @ [d])) j (k + length w) (rows[j := ?row]) =
        (if k + length w + length (visible m') < 20
         then Ok (rows[j := ?row, j := take (k + length w) (rows[j := ?row] ! j) @ visible m' @
           NUL # drop (Suc (k + length w + length (visible m'))) (rows[j := ?row] ! j)])
         else Fault OutOfBounds)"
        using less.hyps [of m' "pre @ w @ [d]" "rows[j := ?row]" "k + length w"] less.prems m False
        by simp
      then show ?thesis
        using 1 False vis less.prems row by (simp add: drop_Cons' ac_simps)
    qed
  qed
qed

text \<open>The five words of a write request, up to the blank before the message.\<close>

lemma tok_loop_five:
  assumes "\<forall>w \<in> set ws. word_ok w \<and> length w < 20" and "length ws = 5" and "NUL \<notin> set rest"
    and "rows_ok rows" "5 \<le> length rows"
  shows "tok_loop (Some 5) (blanks ws @ rest @ NUL # post) 0 0 rows =
    Ok (length (blanks ws), 5, place 0 rows ws)"
proof -
  obtain vs v where ws: "ws = vs @ [v]" "length vs = 4"
    using assms(2) by (cases ws rule: rev_cases) auto
  have app: "blanks (xs @ ys) = blanks xs @ blanks ys" for xs ys
    by (induction xs) simp_all
  let ?tmp = "blanks vs @ v @ CHR '' '' # rest @ NUL # post"
  have nul: "NUL \<notin> set (blanks vs)" "NUL \<notin> set v"
    using assms(1) ws blanks_no_NUL [of vs] word_ok_no_NUL [of v] by auto
  have n: "strlen ?tmp = Ok (length (blanks vs) + length v + 1 + length rest)"
    using assms(3) nul strlen_holds [OF holdsI [of "blanks vs @ v @ CHR '' '' # rest"]] by simp
  have "tok_loop (Some 5) ?tmp 0 0 rows =
      tok_loop (Some 5) ?tmp (length (blanks vs)) 4 (place 0 rows vs)"
    using assms nul ws tok_loop_blanks [of vs "[]" "v @ CHR '' '' # rest" rows 0 "Some 5" post] by simp
  also have "\<dots> = Ok (Suc (length (blanks vs) + length v), 5, place 0 rows ws)"
    using assms ws n
    by (subst tok_loop_word [where n = "length (blanks vs) + length v + 1 + length rest"])
      (simp_all add: place_rows_ok place_append Let_def)
  finally show ?thesis
    using ws by (simp add: app)
qed

lemma parse_write_words:
  assumes "frame_ok 6 fr" and "\<forall>w \<in> {w0, w1, w2, w3, w4}. word_ok w \<and> length w < 20"
    and "NUL \<notin> set m" "m \<noteq> []"
  shows "parse_write fr (blanks [w0, w1, w2, w3, w4] @ m @ NUL # post) =
    (if length (visible m) < 20
     then Ok \<lparr>rq_ino = value_of 0 w1, rq_ino_parent = value_of 0 w3, rq_mode = 0,
        rq_name = put_row (name0 fr) w2, rq_name_parent = put_row (name_parent0 fr) w4,
        rq_message = put_row (message0 fr) (visible m)\<rparr>
     else Fault OutOfBounds)"
proof -
  note fr = frame_okD [OF assms(1)]
  let ?ws = "[w0, w1, w2, w3, w4]"
  let ?rows = "place 0 (tmp_name0 fr) ?ws"
  have 1: "tok_loop (Some 5) (blanks ?ws @ m @ NUL # post) 0 0 (tmp_name0 fr) =
      Ok (length (blanks ?ws), 5, ?rows)"
    using assms fr by (intro tok_loop_five) simp_all
  have 2: "tok_rest (blanks ?ws @ m @ NUL # post) (length (blanks ?ws)) 5 0 ?rows =
    (if length (visible m) < 20 then Ok (?rows[5 := put_row (?rows ! 5) (visible m)])
     else Fault OutOfBounds)"
    using assms fr blanks_no_NUL [of ?ws]
    by (subst tok_rest_message) (simp_all add: place_rows_ok put_row_def del: blanks.simps place.simps)
  have vis: "NUL \<notin> set (visible m)"
    using assms(3) by (auto simp: visible_def)
  show ?thesis
    using assms fr 1 2 vis unfolding parse_write_def
    by (simp add: row_lemmas strcpy_put_row put_row_holds del: place.simps blanks.simps)
qed

section \<open>Round trips\<close>

lemma digits_word_ok: "set s \<subseteq> digits \<Longrightarrow> word_ok s"
  by (auto simp: word_ok_def digits_def separator_def newline_def)

lemma print_int_word:
  assumes "0 \<le> sint w"
  shows "word_ok (print_int w)" "length (print_int w) < 20" "value_of 0 (print_int w) = w"
proof -
  have p: "print_int w = decimal (unat w)"
    using assms by (rule print_int_nonneg)
  show "word_ok (print_int w)"
    unfolding p by (intro digits_word_ok decimal_digits)
  show "length (print_int w) < 20"
    unfolding p using decimal_u32_length [of w] by simp
  show "value_of 0 (print_int w) = w"
    unfolding p by (simp add: value_of_decimal)
qed

text \<open>
  The buffer of the server after \<open>len\<close> bytes arrived: it cleared the 1024 bytes before.
\<close>

definition received :: "nat \<Rightarrow> bytes \<Rightarrow> bytes" where
  "received len out = take len out @ replicate (1024 - len) NUL"

lemma received_text:
  assumes "length t < 1024"
  shows "received (length t) (t @ r) = t @ NUL # replicate (1023 - length t) NUL"
proof -
  have "1024 - length t = Suc (1023 - length t)"
    using assms by linarith
  then show ?thesis
    by (simp add: received_def)
qed

text \<open>The bytes the clients print.\<close>

definition entry_words :: "string \<Rightarrow> u32 \<Rightarrow> string \<Rightarrow> u32 \<Rightarrow> string \<Rightarrow> string list" where
  "entry_words op ino s ino_parent p = [op, print_int ino, s, print_int ino_parent, p]"

definition mode_word :: "u32 \<Rightarrow> string" where
  "mode_word mode = (if mode \<noteq> 0 then ''1111'' else ''0000'')"

lemma print_int_length: "length (print_int w) \<le> 11"
proof (cases "sint w < 0")
  case True
  have "nat (- sint w) < 2 ^ 32"
    using sint_range_u32 [of w] by simp
  then have "nat (- sint w) = unat (of_nat (nat (- sint w)) :: u32)"
    by (simp add: unat_of_nat take_bit_nat_eq_self)
  then show ?thesis
    using True decimal_u32_length [of "of_nat (nat (- sint w)) :: u32"] by (simp add: print_int_def)
next
  case False
  then show ?thesis
    using decimal_u32_length [of w] by (simp add: print_int_def)
qed

lemma six_fields:
  assumes "holds name s" "holds name_parent p" "holds message m"
    and "length s < 256" "length p < 256" "length m < 2 ^ 31" and "NUL \<notin> set op" "length op < 8"
  shows "vsnprintf_loop ''%s %d %s %d %s %s'' spec_zero
      [lit op, AInt ino, AStr (Some name), AInt ino_parent, AStr (Some name_parent), AStr (Some message)] =
    Ok (blanks (entry_words op ino s ino_parent p) @ m)"
proof -
  have "holds (op @ [NUL]) op"
    using assms(7) by (rule holdsI)
  note str = vsnprintf_loop_str [OF _ this] vsnprintf_loop_str [OF _ assms(1)]
    vsnprintf_loop_str [OF _ assms(2)] vsnprintf_loop_str [OF _ assms(3)]
  show ?thesis
    using assms(4-8) by (simp add: entry_words_def str)
qed

lemma five_fields:
  assumes "holds name s" "holds name_parent p"
    and "length s < 256" "length p < 256" and "NUL \<notin> set op" "length op < 8"
  shows "vsnprintf_loop ''%s %d %s %d %s'' spec_zero
      [lit op, AInt ino, AStr (Some name), AInt ino_parent, AStr (Some name_parent)] =
    Ok (blanks [op, print_int ino, s, print_int ino_parent] @ p)"
proof -
  have "holds (op @ [NUL]) op"
    using assms(5) by (rule holdsI)
  note str = vsnprintf_loop_str [OF _ this] vsnprintf_loop_str [OF _ assms(1)]
    vsnprintf_loop_str [OF _ assms(2)]
  show ?thesis
    using assms(3-6) by (simp add: str)
qed

lemma entry_words_length:
  assumes "length s < 256" "length p < 256" "length op < 8"
  shows "length (blanks (entry_words op ino s ino_parent p)) < 560"
  using assms print_int_length [of ino] print_int_length [of ino_parent]
  by (simp add: entry_words_def)


definition sent :: "string \<Rightarrow> (nat \<times> bytes) res" where
  "sent t = Ok (length t, t @ NUL # replicate (1023 - length t) NUL)"

lemma sprintf_sent:
  assumes "vsnprintf_loop fmt spec_zero args = Ok t" "length t < 1024"
  shows "sprintf (replicate 1024 NUL) fmt args = sent t"
  using assms by (simp add: sprintf_Ok sent_def)

lemma sent_received: "sent t = Ok (len, out) \<Longrightarrow> length t < 1024 \<Longrightarrow>
    received len out = t @ NUL # replicate (1023 - length t) NUL"
  by (auto simp: sent_def received_text)

lemma mode_word: "holds (''1111'' @ [NUL]) ''1111''" "holds (''0000'' @ [NUL]) ''0000''"
  by (rule holdsI, simp)+

lemma create_message_text:
  assumes "length buf = 1024" "holds name s" "holds name_parent p" "length s < 256" "length p < 256"
  shows "create_message buf ino name ino_parent name_parent mode =
    sent (blanks (entry_words ''CR'' ino s ino_parent p) @ mode_word mode)"
  using assms(1) entry_words_length [OF assms(4,5), of "''CR''" ino ino_parent]
    six_fields [OF assms(2,3) mode_word(1) assms(4,5), of "''CR''" ino ino_parent]
    six_fields [OF assms(2,3) mode_word(2) assms(4,5), of "''CR''" ino ino_parent]
  by (simp add: create_message_def mode_word_def sprintf_sent)

lemma remove_message_text:
  assumes "length buf = 1024" "holds name s" "holds name_parent p" "length s < 256" "length p < 256"
  shows "remove_message buf ino name ino_parent name_parent mode =
    sent (blanks (entry_words ''RM'' ino s ino_parent p) @ mode_word mode)"
  using assms(1) entry_words_length [OF assms(4,5), of "''RM''" ino ino_parent]
    six_fields [OF assms(2,3) mode_word(1) assms(4,5), of "''RM''" ino ino_parent]
    six_fields [OF assms(2,3) mode_word(2) assms(4,5), of "''RM''" ino ino_parent]
  by (simp add: remove_message_def mode_word_def sprintf_sent)

lemma write_message_text:
  assumes "length buf = 1024" "holds name s" "holds name_parent p" "holds message m"
    and "length s < 256" "length p < 256" "length m < 2 ^ 31"
  shows "write_message buf ino name ino_parent name_parent message =
    (let t = blanks (entry_words ''WR'' ino s ino_parent p) @ m
     in if length t < 1024 then sent t else Fault OutOfBounds)"
  using assms six_fields [OF assms(2-7), of "''WR''" ino ino_parent]
  by (auto simp: write_message_def Let_def sprintf_sent intro: sprintf_overflow)

lemma read_message_text:
  assumes "length buf = 1024" "holds name s" "holds name_parent p" "length s < 256" "length p < 256"
  shows "read_message buf ino name ino_parent name_parent =
    sent (blanks [''RD'', print_int ino, s, print_int ino_parent] @ p)"
  using assms five_fields [OF assms(2-5), of "''RD''" ino ino_parent] print_int_length [of ino]
    print_int_length [of ino_parent]
  by (simp add: read_message_def sprintf_sent)


lemma mode_word_value: "value_of 0 (mode_word mode) = 0 \<longleftrightarrow> mode = 0"
  by (simp add: mode_word_def schar_def)

lemma mode_word_ok: "word_ok (mode_word mode)" "length (mode_word mode) = 4" "mode_word mode \<noteq> []"
  by (simp_all add: mode_word_def separator_def newline_def)

text \<open>
  C8.  A create request survives the wire: for non-negative inode numbers and names that
  hold no blank or line break and are shorter than a row of \<open>tmp_name\<close>, the server reads
  back exactly the inode number, the parent's, both names and the kind of the entry that
  the client printed, whatever the uninitialised locals hold.
\<close>

theorem create_request_roundtrip:
  assumes "frame_ok 6 fr" "length buf = 1024" "holds name s" "holds name_parent p"
    and "word_ok s" "word_ok p" "length s < 20" "length p < 20"
    and "0 \<le> sint ino" "0 \<le> sint ino_parent"
  shows "\<exists>len out rq. create_message buf ino name ino_parent name_parent mode = Ok (len, out) \<and>
    parse_entry fr (received len out) = Ok rq \<and> rq_ino rq = ino \<and> rq_ino_parent rq = ino_parent \<and>
    (rq_mode rq = 0 \<longleftrightarrow> mode = 0) \<and> holds (rq_name rq) s \<and> holds (rq_name_parent rq) p"
proof -
  let ?ws = "entry_words ''CR'' ino s ino_parent p"
  have msg: "create_message buf ino name ino_parent name_parent mode = sent (blanks ?ws @ mode_word mode)"
    using assms by (intro create_message_text) auto
  moreover obtain len out where s: "sent (blanks ?ws @ mode_word mode) = Ok (len, out)"
    by (simp add: sent_def)
  moreover have "length (blanks ?ws @ mode_word mode) < 1024"
    using assms entry_words_length [of s p "''CR''" ino ino_parent] by (simp add: mode_word_ok)
  moreover have ok: "\<forall>w \<in> {''CR'', print_int ino, s, print_int ino_parent, p, mode_word mode}.
      word_ok w \<and> length w < 20"
    using assms by (simp add: mode_word_ok print_int_word separator_def newline_def)
  ultimately show ?thesis
    using assms parse_entry_words [OF assms(1) ok] mode_word_value [of mode]
    by (simp add: sent_received mode_word_ok put_row_holds word_ok_no_NUL print_int_word entry_words_def
        del: blanks.simps)
qed

definition fr6 :: frame where
  "fr6 = \<lparr>tmp_name0 = replicate 6 (replicate 20 (CHR ''x'')), name0 = replicate 20 (CHR ''x''),
     name_parent0 = replicate 20 (CHR ''x''), message0 = replicate 1024 (CHR ''x'')\<rparr>"

lemma fr6_ok: "frame_ok 6 fr6"
  by (simp add: fr6_def frame_ok_def)

lemma word_examples: "word_ok ''a'' \<and> word_ok ''dir''"
  by (simp add: separator_def newline_def)

theorem create_request_roundtrip_witness:
  "\<exists>len out rq. create_message (replicate 1024 (CHR ''x'')) 7 (''a'' @ [NUL]) 3 (''dir'' @ [NUL]) 1 =
     Ok (len, out) \<and>
    parse_entry fr6 (received len out) = Ok rq \<and> rq_ino rq = 7 \<and> rq_ino_parent rq = 3 \<and>
    (rq_mode rq = 0 \<longleftrightarrow> (1 :: u32) = 0) \<and> holds (rq_name rq) ''a'' \<and> holds (rq_name_parent rq) ''dir''"
  using fr6_ok word_examples by (intro create_request_roundtrip) (simp_all add: holdsI)

text \<open>
  C16.  A remove request survives the wire in the same way.
\<close>

theorem remove_request_roundtrip:
  assumes "frame_ok 6 fr" "length buf = 1024" "holds name s" "holds name_parent p"
    and "word_ok s" "word_ok p" "length s < 20" "length p < 20"
    and "0 \<le> sint ino" "0 \<le> sint ino_parent"
  shows "\<exists>len out rq. remove_message buf ino name ino_parent name_parent mode = Ok (len, out) \<and>
    parse_entry fr (received len out) = Ok rq \<and> rq_ino rq = ino \<and> rq_ino_parent rq = ino_parent \<and>
    (rq_mode rq = 0 \<longleftrightarrow> mode = 0) \<and> holds (rq_name rq) s \<and> holds (rq_name_parent rq) p"
proof -
  let ?ws = "entry_words ''RM'' ino s ino_parent p"
  have msg: "remove_message buf ino name ino_parent name_parent mode = sent (blanks ?ws @ mode_word mode)"
    using assms by (intro remove_message_text) auto
  moreover obtain len out where s: "sent (blanks ?ws @ mode_word mode) = Ok (len, out)"
    by (simp add: sent_def)
  moreover have "length (blanks ?ws @ mode_word mode) < 1024"
    using assms entry_words_length [of s p "''RM''" ino ino_parent] by (simp add: mode_word_ok)
  moreover have ok: "\<forall>w \<in> {''RM'', print_int ino, s, print_int ino_parent, p, mode_word mode}.
      word_ok w \<and> length w < 20"
    using assms by (simp add: mode_word_ok print_int_word separator_def newline_def)
  ultimately show ?thesis
    using assms parse_entry_words [OF assms(1) ok] mode_word_value [of mode]
    by (simp add: sent_received mode_word_ok put_row_holds word_ok_no_NUL print_int_word entry_words_def
        del: blanks.simps)
qed

theorem remove_request_roundtrip_witness:
  "\<exists>len out rq. remove_message (replicate 1024 (CHR ''x'')) 7 (''a'' @ [NUL]) 3 (''dir'' @ [NUL]) 0 =
     Ok (len, out) \<and>
    parse_entry fr6 (received len out) = Ok rq \<and> rq_ino rq = 7 \<and> rq_ino_parent rq = 3 \<and>
    (rq_mode rq = 0 \<longleftrightarrow> (0 :: u32) = 0) \<and> holds (rq_name rq) ''a'' \<and> holds (rq_name_parent rq) ''dir''"
  using fr6_ok word_examples by (intro remove_request_roundtrip) (simp_all add: holdsI)

text \<open>
  C17.  A read request survives the wire; the parent's name is the last word and must not
  be empty.
\<close>

theorem read_request_roundtrip:
  assumes "frame_ok 5 fr" "length buf = 1024" "holds name s" "holds name_parent p"
    and "word_ok s" "word_ok p" "length s < 20" "length p < 20" "p \<noteq> []"
    and "0 \<le> sint ino" "0 \<le> sint ino_parent"
  shows "\<exists>len out rq. read_message buf ino name ino_parent name_parent = Ok (len, out) \<and>
    parse_read fr (received len out) = Ok rq \<and> rq_ino rq = ino \<and> rq_ino_parent rq = ino_parent \<and>
    holds (rq_name rq) s \<and> holds (rq_name_parent rq) p"
proof -
  let ?t = "blanks [''RD'', print_int ino, s, print_int ino_parent] @ p"
  have msg: "read_message buf ino name ino_parent name_parent = sent ?t"
    using assms by (intro read_message_text) auto
  moreover obtain len out where s: "sent ?t = Ok (len, out)"
    by (simp add: sent_def)
  moreover have "length ?t < 1024"
    using assms print_int_length [of ino] print_int_length [of ino_parent] by simp
  moreover have ok: "\<forall>w \<in> {''RD'', print_int ino, s, print_int ino_parent, p}.
      word_ok w \<and> length w < 20"
    using assms by (simp add: print_int_word separator_def newline_def)
  ultimately show ?thesis
    using assms parse_read_words [OF assms(1) ok]
    by (simp add: sent_received put_row_holds word_ok_no_NUL print_int_word del: blanks.simps)
qed

theorem read_request_roundtrip_witness:
  "\<exists>len out rq. read_message (replicate 1024 (CHR ''x'')) 7 (''a'' @ [NUL]) 3 (''dir'' @ [NUL]) =
     Ok (len, out) \<and>
    parse_read (fr6\<lparr>tmp_name0 := replicate 5 (replicate 20 (CHR ''y''))\<rparr>) (received len out) = Ok rq \<and>
    rq_ino rq = 7 \<and> rq_ino_parent rq = 3 \<and> holds (rq_name rq) ''a'' \<and> holds (rq_name_parent rq) ''dir''"
  using word_examples by (intro read_request_roundtrip) (simp_all add: holdsI frame_ok_def fr6_def)

text \<open>
  C18.  A write request that fits the client's buffer is read back with the message
  stripped of its line breaks when fewer than 20 bytes remain; with 20 or more the server
  writes past the end of \<open>tmp_name\<close>.
\<close>

theorem write_request_roundtrip:
  assumes "frame_ok 6 fr" "length buf = 1024" "holds name s" "holds name_parent p" "holds message m"
    and "word_ok s" "word_ok p" "length s < 20" "length p < 20"
    and "0 \<le> sint ino" "0 \<le> sint ino_parent" and "m \<noteq> []" "length m < 900"
  shows "\<exists>len out. write_message buf ino name ino_parent name_parent message = Ok (len, out) \<and>
    (if length (visible m) < 20
     then \<exists>rq. parse_write fr (received len out) = Ok rq \<and> rq_ino rq = ino \<and>
       rq_ino_parent rq = ino_parent \<and> holds (rq_name rq) s \<and> holds (rq_name_parent rq) p \<and>
       holds (rq_message rq) (visible m)
     else parse_write fr (received len out) = Fault OutOfBounds)"
proof -
  let ?ws = "entry_words ''WR'' ino s ino_parent p"
  let ?t = "blanks ?ws @ m"
  have lt: "length ?t < 1024"
    using assms print_int_length [of ino] print_int_length [of ino_parent] by (simp add: entry_words_def)
  then have msg: "write_message buf ino name ino_parent name_parent message = sent ?t"
    using assms write_message_text [OF assms(2-5), of ino ino_parent] by simp
  moreover obtain len out where s: "sent ?t = Ok (len, out)"
    by (simp add: sent_def)
  moreover have ok: "\<forall>w \<in> {''WR'', print_int ino, s, print_int ino_parent, p}.
      word_ok w \<and> length w < 20"
    using assms by (simp add: print_int_word separator_def newline_def)
  moreover have nul: "NUL \<notin> set m" "NUL \<notin> set (visible m)"
    using assms(5) by (auto simp: holds_def visible_def)
  ultimately show ?thesis
    using lt assms parse_write_words [OF assms(1) ok nul(1) assms(12)]
    by (simp add: sent_received put_row_holds word_ok_no_NUL print_int_word entry_words_def
        del: blanks.simps)
qed

theorem write_request_roundtrip_witness:
  "\<exists>len out. write_message (replicate 1024 (CHR ''x'')) 7 (''a'' @ [NUL]) 3 (''dir'' @ [NUL])
      (''hello'' @ [NUL]) = Ok (len, out) \<and>
    (if length (visible ''hello'') < 20
     then \<exists>rq. parse_write fr6 (received len out) = Ok rq \<and> rq_ino rq = 7 \<and>
       rq_ino_parent rq = 3 \<and> holds (rq_name rq) ''a'' \<and> holds (rq_name_parent rq) ''dir'' \<and>
       holds (rq_message rq) (visible ''hello'')
     else parse_write fr6 (received len out) = Fault OutOfBounds)"
  using fr6_ok word_examples by (intro write_request_roundtrip) (simp_all add: holdsI)
end
