(* ===== verification/Vsscanf.thy ===== *)
theory Vsscanf
  imports Vsprintf
begin

unbundle bit_operations_syntax

text \<open>
  Reading numbers and formats: \<open>simple_strtoul\<close> and its relatives, and \<open>vsscanf\<close>, of
  \<open>lib/vsprintf.c\<close>.  The input is a buffer that must be terminated: reading past its end
  is a fault.  The values \<open>vsscanf\<close> stores through its pointer arguments are returned as
  a list, in the order of the arguments.
\<close>

section \<open>Numbers\<close>

definition tolower :: "char \<Rightarrow> nat" where
  "tolower c = of_char c OR 0x20"

definition peek :: "bytes \<Rightarrow> nat \<Rightarrow> char res" where
  "peek s i = aread s i"

definition simple_guess_base :: "bytes \<Rightarrow> nat res" where
  "simple_guess_base cp =
     bindR (peek cp 0) (\<lambda>c0.
       if c0 = CHR ''0'' then
         bindR (peek cp 1) (\<lambda>c1.
           if tolower c1 = of_char (CHR ''x'') then
             bindR (peek cp 2) (\<lambda>c2. Ok (if isxdigit c2 then 16 else 8))
           else Ok 8)
       else Ok 10)"

definition digit_value :: "char \<Rightarrow> nat" where
  "digit_value c = (if isdigit c then of_char c - 48 else tolower c - 97 + 10)"

text \<open>The loop of \<open>simple_strtoul\<close> and \<open>simple_strtoull\<close>: the value and the rest.\<close>

fun strto_loop :: "nat \<Rightarrow> bytes \<Rightarrow> 'a::len word \<Rightarrow> ('a word \<times> bytes) res" where
  "strto_loop base [] result = Fault OutOfBounds"
| "strto_loop base (c # cp) result =
     (if isxdigit c \<and> digit_value c < base
      then strto_loop base cp (result * of_nat base + of_nat (digit_value c))
      else Ok (result, c # cp))"

definition simple_strto :: "bytes \<Rightarrow> nat \<Rightarrow> ('a::len word \<times> bytes) res" where
  "simple_strto cp base0 =
     bindR (if base0 = 0 then simple_guess_base cp else Ok base0) (\<lambda>base.
     bindR (if base = 16 then
              bindR (peek cp 0) (\<lambda>c0.
                if c0 = CHR ''0'' then
                  bindR (peek cp 1) (\<lambda>c1. Ok (if tolower c1 = of_char (CHR ''x'') then drop 2 cp else cp))
                else Ok cp)
            else Ok cp) (\<lambda>cp.
       strto_loop base cp 0))"

definition simple_strtoul :: "bytes \<Rightarrow> nat \<Rightarrow> (u32 \<times> bytes) res" where
  "simple_strtoul cp base = simple_strto cp base"

definition simple_strtoull :: "bytes \<Rightarrow> nat \<Rightarrow> (u64 \<times> bytes) res" where
  "simple_strtoull cp base = simple_strto cp base"

definition simple_strtol :: "bytes \<Rightarrow> nat \<Rightarrow> (u32 \<times> bytes) res" where
  "simple_strtol cp base =
     bindR (peek cp 0) (\<lambda>c.
       if c = CHR ''-'' then bindR (simple_strtoul (drop 1 cp) base) (\<lambda>(v, r). Ok (- v, r))
       else simple_strtoul cp base)"

definition simple_strtoll :: "bytes \<Rightarrow> nat \<Rightarrow> (u64 \<times> bytes) res" where
  "simple_strtoll cp base =
     bindR (peek cp 0) (\<lambda>c.
       if c = CHR ''-'' then bindR (simple_strtoull (drop 1 cp) base) (\<lambda>(v, r). Ok (- v, r))
       else simple_strtoull cp base)"

section \<open>Formats\<close>

text \<open>What is stored through the pointer of a conversion.\<close>

datatype scan_out =
    OChars bytes
  | OStr bytes
  | OByte u8
  | OShort u16
  | OLong u32
  | OLongLong u64
  | OInt u32
  | OCount nat

definition isspace :: "char \<Rightarrow> bool" where
  "isspace c \<longleftrightarrow> (of_char c :: nat) \<in> {9, 10, 11, 12, 13, 32, 160}"

fun skip_while :: "(char \<Rightarrow> bool) \<Rightarrow> bytes \<Rightarrow> bytes res" where
  "skip_while P [] = Fault OutOfBounds"
| "skip_while P (c # s) = (if P c then skip_while P s else Ok (c # s))"

text \<open>\<open>do { *s++ = *str++; } while (--field_width > 0 && *str);\<close>\<close>

fun scan_chars :: "nat \<Rightarrow> bytes \<Rightarrow> (bytes \<times> bytes) res" where
  "scan_chars w [] = Fault OutOfBounds"
| "scan_chars w [c] = (if w > 1 then Fault OutOfBounds else Ok ([c], []))"
| "scan_chars w (c # d # s) =
     (if w > 1 \<and> d \<noteq> NUL
      then bindR (scan_chars (w - 1) (d # s)) (\<lambda>(a, r). Ok (c # a, r))
      else Ok ([c], d # s))"

text \<open>\<open>while (*str && !isspace(*str) && field_width--) *s++ = *str++;\<close>\<close>

fun scan_word :: "nat \<Rightarrow> bytes \<Rightarrow> (bytes \<times> bytes) res" where
  "scan_word w [] = Fault OutOfBounds"
| "scan_word w (c # s) =
     (if c \<noteq> NUL \<and> \<not> isspace c \<and> w > 0
      then bindR (scan_word (w - 1) s) (\<lambda>(a, r). Ok (c # a, r))
      else Ok ([], c # s))"

datatype scan =
    SNext string bytes nat "scan_out list"
  | SBreak string bytes nat "scan_out list"
  | SReturn nat "scan_out list"

text \<open>The value of an integer conversion, of the width the qualifier asks for.\<close>

definition scan_value :: "char option \<Rightarrow> bool \<Rightarrow> nat \<Rightarrow> bytes \<Rightarrow> (scan_out \<times> bytes) res" where
  "scan_value q is_sign base str =
     (let ul = (if is_sign then simple_strtol str base else simple_strtoul str base);
          ull = (if is_sign then simple_strtoll str base else simple_strtoull str base)
      in if q = Some (CHR ''H'') then bindR ul (\<lambda>(v, r). Ok (OByte (ucast v), r))
         else if q = Some (CHR ''h'') then bindR ul (\<lambda>(v, r). Ok (OShort (ucast v), r))
         else if q = Some (CHR ''l'') then bindR ul (\<lambda>(v, r). Ok (OLong v, r))
         else if q = Some (CHR ''L'') then bindR ull (\<lambda>(v, r). Ok (OLongLong v, r))
         else if q = Some (CHR ''Z'') \<or> q = Some (CHR ''z'')
         then bindR (simple_strtoul str base) (\<lambda>(v, r). Ok (OLong v, r))
         else bindR ul (\<lambda>(v, r). Ok (OInt v, r)))"

definition scan_int ::
  "string \<Rightarrow> bytes \<Rightarrow> nat \<Rightarrow> scan_out list \<Rightarrow> char option \<Rightarrow> bool \<Rightarrow> nat \<Rightarrow> scan res" where
  "scan_int fmt str num outs q is_sign base =
     bindR (skip_while isspace str) (\<lambda>str.
     bindR (peek str 0) (\<lambda>d0.
     bindR (if is_sign \<and> d0 = CHR ''-'' then peek str 1 else Ok d0) (\<lambda>d.
       if d = NUL \<or> (base = 16 \<and> \<not> isxdigit d) \<or> (base = 10 \<and> \<not> isdigit d)
          \<or> (base = 8 \<and> (\<not> isdigit d \<or> (of_char d :: nat) > 55)) \<or> (base = 0 \<and> \<not> isdigit d)
       then Ok (SBreak fmt str num outs)
       else bindR (scan_value q is_sign base str) (\<lambda>(v, str).
         Ok (SNext fmt str (Suc num) (outs @ [v]))))))"

text \<open>
  The conversion character \<open>c\<close>; \<open>fmt\<close> is the format after it, \<open>n\<close> the length of the
  input buffer and \<open>w\<close> the field width, if one was given.
\<close>

definition scan_conv ::
  "nat \<Rightarrow> char \<Rightarrow> string \<Rightarrow> bytes \<Rightarrow> nat \<Rightarrow> scan_out list \<Rightarrow> int option \<Rightarrow> char option \<Rightarrow> scan res" where
  "scan_conv n c fmt str num outs w q =
     (if c = CHR ''c'' then
        bindR (scan_chars (case w of None \<Rightarrow> 1 | Some v \<Rightarrow> nat v) str) (\<lambda>(a, str).
          Ok (SNext fmt str (Suc num) (outs @ [OChars a])))
      else if c = CHR ''s'' then
        bindR (skip_while isspace str) (\<lambda>str.
        bindR (scan_word (case w of None \<Rightarrow> 2147483647 | Some v \<Rightarrow> nat (v mod 2 ^ 32)) str) (\<lambda>(a, str).
          Ok (SNext fmt str (Suc num) (outs @ [OStr (a @ [NUL])]))))
      else if c = CHR ''n'' then Ok (SNext fmt str num (outs @ [OCount (n - length str)]))
      else if c = CHR ''o'' then scan_int fmt str num outs q False 8
      else if c = CHR ''x'' \<or> c = CHR ''X'' then scan_int fmt str num outs q False 16
      else if c = CHR ''i'' then scan_int fmt str num outs q True 0
      else if c = CHR ''d'' then scan_int fmt str num outs q True 10
      else if c = CHR ''u'' then scan_int fmt str num outs q False 10
      else if c = CHR ''%'' then
        bindR (peek str 0) (\<lambda>d.
          if d \<noteq> CHR ''%'' then Ok (SReturn num outs) else Ok (SNext fmt (drop 1 str) num outs))
      else Ok (SReturn num outs))"

definition scan_qualifier :: "string \<Rightarrow> char option \<times> string" where
  "scan_qualifier fmt =
     (case fmt of
        [] \<Rightarrow> (None, fmt)
      | c # rest \<Rightarrow>
          if c \<notin> set ''hlLZz'' then (None, fmt)
          else (case rest of
                  [] \<Rightarrow> (Some c, rest)
                | d # rest' \<Rightarrow>
                    if d = c \<and> c = CHR ''h'' then (Some (CHR ''H''), rest')
                    else if d = c \<and> c = CHR ''l'' then (Some (CHR ''L''), rest')
                    else (Some c, rest)))"

text \<open>One round of the loop, entered with \<open>*fmt\<close> and \<open>*str\<close> not zero.\<close>

definition scan_step :: "nat \<Rightarrow> string \<Rightarrow> bytes \<Rightarrow> nat \<Rightarrow> scan_out list \<Rightarrow> scan res" where
  "scan_step n fmt str num outs =
     bindR (if isspace (hd fmt) then skip_while isspace str else Ok str) (\<lambda>str.
     let fmt = (if isspace (hd fmt) then dropWhile isspace fmt else fmt)
     in case fmt of
          [] \<Rightarrow> Ok (SBreak fmt str num outs)
        | f # fmt \<Rightarrow>
            if f \<noteq> CHR ''%'' then
              bindR (peek str 0) (\<lambda>c.
                if f \<noteq> c then Ok (SBreak fmt (drop 1 str) num outs)
                else Ok (SNext fmt (drop 1 str) num outs))
            else if fmt \<noteq> [] \<and> hd fmt = CHR ''*'' then
              bindR (skip_while (\<lambda>c. \<not> isspace c \<and> c \<noteq> NUL) str) (\<lambda>str.
                Ok (SNext (dropWhile (\<lambda>c. \<not> isspace c \<and> c \<noteq> CHR ''%'') fmt) str num outs))
            else
              let digits = takeWhile isdigit fmt;
                  w = (if digits = [] then None else Some (fst (skip_atoi fmt 0 0)));
                  (q, fmt) = scan_qualifier (drop (length digits) fmt)
              in case fmt of
                   [] \<Rightarrow> Ok (SBreak fmt str num outs)
                 | c # rest \<Rightarrow>
                     bindR (peek str 0) (\<lambda>d.
                       if d = NUL then Ok (SBreak fmt str num outs)
                       else scan_conv n c rest str num outs w q))"

lemma scan_conv_fmt: "scan_conv n c fmt str num outs w q = Ok (SNext fmt' str' num' outs') \<Longrightarrow> fmt' = fmt"
  by (auto simp: scan_conv_def scan_int_def Let_def split: if_splits)

lemma scan_qualifier_length: "scan_qualifier fmt = (q, fmt') \<Longrightarrow> length fmt' \<le> length fmt"
  by (auto simp: scan_qualifier_def split: list.splits if_splits)

lemma scan_step_fmt:
  assumes "scan_step n fmt str num outs = Ok (SNext fmt' str' num' outs')" "fmt \<noteq> []"
  shows "length fmt' < length fmt"
proof -
  define g where "g = (if isspace (hd fmt) then dropWhile isspace fmt else fmt)"
  have g: "length g \<le> length fmt"
    by (simp add: g_def length_dropWhile_le)
  obtain f rest where fr: "g = f # rest"
    using assms(1) by (cases g) (auto simp: scan_step_def g_def [symmetric])
  obtain q r where qr: "scan_qualifier (drop (length (takeWhile isdigit rest)) rest) = (q, r)"
    by force
  then have r: "length r \<le> length rest"
    using scan_qualifier_length [OF qr] by simp
  show ?thesis
  proof (cases "f = CHR ''%'' \<and> \<not> (rest \<noteq> [] \<and> hd rest = CHR ''*'')")
    case True
    then obtain c r' where "r = c # r'" "fmt' = r'"
      using assms(1) qr fr
      by (cases r) (auto simp: scan_step_def g_def [symmetric] Let_def dest: scan_conv_fmt split: if_splits)
    then show ?thesis
      using g r fr by simp
  next
    case False
    then have "length fmt' \<le> length rest"
      using assms(1) fr
      by (auto simp: scan_step_def g_def [symmetric] Let_def length_dropWhile_le split: if_splits)
    then show ?thesis
      using g fr by simp
  qed
qed

text \<open>After the loop: a \<open>%n\<close> at the end of the input is still filled.\<close>

definition scan_end :: "nat \<Rightarrow> string \<Rightarrow> bytes \<Rightarrow> nat \<Rightarrow> scan_out list \<Rightarrow> nat \<times> scan_out list" where
  "scan_end n fmt str num outs =
     (num, if take 2 fmt = ''%n'' then outs @ [OCount (n - length str)] else outs)"

function vsscanf_loop ::
  "nat \<Rightarrow> string \<Rightarrow> bytes \<Rightarrow> nat \<Rightarrow> scan_out list \<Rightarrow> (nat \<times> scan_out list) res" where
  "vsscanf_loop n fmt str num outs =
     (if fmt = [] then Ok (scan_end n fmt str num outs) else
      bindR (peek str 0) (\<lambda>c.
        if c = NUL then Ok (scan_end n fmt str num outs) else
        bindR (scan_step n fmt str num outs) (\<lambda>st.
          case st of
            SNext fmt str num outs \<Rightarrow> vsscanf_loop n fmt str num outs
          | SBreak fmt str num outs \<Rightarrow> Ok (scan_end n fmt str num outs)
          | SReturn num outs \<Rightarrow> Ok (num, outs))))"
  by pat_completeness auto
termination
  by (relation "measure (\<lambda>(n, fmt, str, num, outs). length fmt)") (auto dest: scan_step_fmt)

declare vsscanf_loop.simps [simp del]

definition vsscanf :: "bytes \<Rightarrow> string \<Rightarrow> (nat \<times> scan_out list) res" where
  "vsscanf buf fmt = vsscanf_loop (length buf) fmt buf 0 []"

definition sscanf :: "bytes \<Rightarrow> string \<Rightarrow> (nat \<times> scan_out list) res" where
  "sscanf buf fmt = vsscanf buf fmt"

end
