(* ===== verification/MapTable.thy ===== *)
theory MapTable
  imports CString "HOL-Library.Multiset"
begin

text \<open>
  The table \<open>reg_ino_mapp_table\<close> of \<open>wjfs/fs/wjfs.h\<close>, which pairs the inode number of
  a remote file's local link with the number the file has on its own machine, and the
  loops that work on it: the registration in \<open>rdma_create\<close>, the removal in
  \<open>rdma_remove\<close>, the lookup of \<open>wjfs_client_read\<close> and \<open>wjfs_client_write\<close>, the
  ownership test \<open>is_my_file\<close> and the reset in \<open>wjfs_fill_super\<close>.

  The abstract registry is the multiset of the registrations in use.  The locale
  \<open>registry\<close> states what a registry promises to the file system; its interpretation shows
  that the table keeps the promise as long as a slot is free.
\<close>

section \<open>The table\<close>

record entry =
  e_name :: bytes
  e_local_ino :: u32
  e_rdma_ino :: u32
  e_local_parent_ino :: u32
  e_rdma_parent_ino :: u32
  e_ip :: bytes
  e_used :: u32

text \<open>
  The loop that claims a free slot: the index it stops at, 1024 when there is none, and
  the table with the slot marked.
\<close>

fun table_claim :: "entry list \<Rightarrow> nat \<times> entry list" where
  "table_claim [] = (0, [])"
| "table_claim (e # t) =
     (if e_used e = 0 then (0, e\<lparr>e_used := 1\<rparr> # t)
      else (case table_claim t of (i, t) \<Rightarrow> (Suc i, e # t)))"

definition table_insert ::
  "entry list \<Rightarrow> bytes \<Rightarrow> u32 \<Rightarrow> u32 \<Rightarrow> u32 \<Rightarrow> u32 \<Rightarrow> bytes \<Rightarrow> entry list res" where
  "table_insert t name local_ino rdma_ino local_parent_ino rdma_parent_ino ip =
     (case table_claim t of
        (i, t) \<Rightarrow>
          bindR (aread t i) (\<lambda>e.
          bindR (strcpy (e_name e) name) (\<lambda>nm.
          bindR (strcpy (e_ip e) ip) (\<lambda>ipb.
            awrite t i
              (e\<lparr>e_name := nm, e_local_ino := local_ino, e_rdma_ino := rdma_ino,
                 e_local_parent_ino := local_parent_ino, e_rdma_parent_ino := rdma_parent_ino,
                 e_ip := ipb\<rparr>)))))"

text \<open>
  The search of \<open>rdma_remove\<close> by the remote numbers: the local numbers, 0 when nothing
  matches, and the table with the slot released.
\<close>

fun table_remove :: "entry list \<Rightarrow> u32 \<Rightarrow> u32 \<Rightarrow> u32 \<times> u32 \<times> entry list" where
  "table_remove [] ino ino_parent = (0, 0, [])"
| "table_remove (e # t) ino ino_parent =
     (if e_used e = 1 \<and> e_rdma_ino e = ino \<and> e_rdma_parent_ino e = ino_parent
      then (e_local_ino e, e_local_parent_ino e, e\<lparr>e_used := 0\<rparr> # t)
      else (case table_remove t ino ino_parent of (a, b, t) \<Rightarrow> (a, b, e # t)))"

text \<open>The search of the clients by the local numbers.\<close>

fun table_lookup :: "entry list \<Rightarrow> u32 \<Rightarrow> u32 \<Rightarrow> u32 \<times> u32" where
  "table_lookup [] ino ino_parent = (0, 0)"
| "table_lookup (e # t) ino ino_parent =
     (if e_used e = 1 \<and> e_local_ino e = ino \<and> e_local_parent_ino e = ino_parent
      then (e_rdma_ino e, e_rdma_parent_ino e)
      else table_lookup t ino ino_parent)"

text \<open>The loop of \<open>is_my_file\<close>: 1 unless a registration has the inode number.\<close>

fun table_mine :: "entry list \<Rightarrow> u32 \<Rightarrow> u32" where
  "table_mine [] ino = 1"
| "table_mine (e # t) ino = (if e_used e = 1 \<and> e_local_ino e = ino then 0 else table_mine t ino)"

definition table_reset :: "entry list \<Rightarrow> entry list" where
  "table_reset t = map (\<lambda>e. e\<lparr>e_used := 0\<rparr>) t"

section \<open>The registry it implements\<close>

record registration =
  r_name :: string
  r_local :: "u32 \<times> u32"
  r_remote :: "u32 \<times> u32"
  r_ip :: string

definition view :: "entry \<Rightarrow> registration" where
  "view e = \<lparr>r_name = cstring (e_name e), r_local = (e_local_ino e, e_local_parent_ino e),
     r_remote = (e_rdma_ino e, e_rdma_parent_ino e), r_ip = cstring (e_ip e)\<rparr>"

definition regs :: "entry list \<Rightarrow> registration multiset" where
  "regs t = mset (map view (filter (\<lambda>e. e_used e = 1) t))"

definition table_ok :: "entry list \<Rightarrow> bool" where
  "table_ok t \<longleftrightarrow> length t = 1024 \<and>
     (\<forall>e \<in> set t. (e_used e = 0 \<or> e_used e = 1) \<and> length (e_name e) = 16 \<and> length (e_ip e) = 16)"

lemma regs_simps [simp]:
  "regs [] = {#}"
  "regs (e # t) = (if e_used e = 1 then add_mset (view e) (regs t) else regs t)"
  by (simp_all add: regs_def)

locale registry =
  fixes inv :: "'t \<Rightarrow> bool"
    and abs :: "'t \<Rightarrow> registration multiset"
    and cap :: nat
    and reset :: "'t \<Rightarrow> 't"
    and insert :: "'t \<Rightarrow> bytes \<Rightarrow> u32 \<Rightarrow> u32 \<Rightarrow> u32 \<Rightarrow> u32 \<Rightarrow> bytes \<Rightarrow> 't res"
    and lookup :: "'t \<Rightarrow> u32 \<Rightarrow> u32 \<Rightarrow> u32 \<times> u32"
    and remove :: "'t \<Rightarrow> u32 \<Rightarrow> u32 \<Rightarrow> u32 \<times> u32 \<times> 't"
    and mine :: "'t \<Rightarrow> u32 \<Rightarrow> u32"
  assumes reset: "inv t \<Longrightarrow> inv (reset t) \<and> abs (reset t) = {#}"
    and insert: "inv t \<Longrightarrow> size (abs t) < cap \<Longrightarrow> holds name s \<Longrightarrow> length s < 16 \<Longrightarrow>
      holds ip a \<Longrightarrow> length a < 16 \<Longrightarrow>
      \<exists>t'. insert t name l r lp rp ip = Ok t' \<and> inv t' \<and>
        abs t' = add_mset \<lparr>r_name = s, r_local = (l, lp), r_remote = (r, rp), r_ip = a\<rparr> (abs t)"
    and lookup_in: "inv t \<Longrightarrow> g \<in># abs t \<Longrightarrow> r_local g = (l, lp) \<Longrightarrow>
      \<exists>h. h \<in># abs t \<and> r_local h = (l, lp) \<and> lookup t l lp = r_remote h"
    and lookup_out: "inv t \<Longrightarrow> (\<forall>g. g \<in># abs t \<longrightarrow> r_local g \<noteq> (l, lp)) \<Longrightarrow> lookup t l lp = (0, 0)"
    and remove_in: "inv t \<Longrightarrow> g \<in># abs t \<Longrightarrow> r_remote g = (r, rp) \<Longrightarrow>
      \<exists>h l lp t'. h \<in># abs t \<and> r_remote h = (r, rp) \<and> r_local h = (l, lp) \<and>
        remove t r rp = (l, lp, t') \<and> inv t' \<and> abs t' = abs t - {#h#}"
    and remove_out: "inv t \<Longrightarrow> (\<forall>g. g \<in># abs t \<longrightarrow> r_remote g \<noteq> (r, rp)) \<Longrightarrow>
      remove t r rp = (0, 0, t)"
    and mine: "inv t \<Longrightarrow> mine t l = (if \<exists>g. g \<in># abs t \<and> fst (r_local g) = l then 0 else 1)"
begin

text \<open>A registration is found again under its local numbers, when no other one has them.\<close>

lemma lookup_after_insert:
  assumes "inv t" "size (abs t) < cap" "holds name s" "length s < 16" "holds ip a" "length a < 16"
    and fresh: "\<forall>g. g \<in># abs t \<longrightarrow> r_local g \<noteq> (l, lp)"
  shows "\<exists>t'. insert t name l r lp rp ip = Ok t' \<and> inv t' \<and> lookup t' l lp = (r, rp) \<and>
    mine t' l = 0"
proof -
  obtain t' where t': "insert t name l r lp rp ip = Ok t'" "inv t'"
      "abs t' = add_mset \<lparr>r_name = s, r_local = (l, lp), r_remote = (r, rp), r_ip = a\<rparr> (abs t)"
    using insert [OF assms(1-6)] by blast
  let ?g = "\<lparr>r_name = s, r_local = (l, lp), r_remote = (r, rp), r_ip = a\<rparr>"
  have "?g \<in># abs t'"
    using t'(3) by simp
  then obtain h where h: "h \<in># abs t'" "r_local h = (l, lp)" "lookup t' l lp = r_remote h"
    using lookup_in [OF t'(2), of ?g l lp] by auto
  then have "h = ?g"
    using fresh t'(3) by auto
  moreover have "mine t' l = 0"
    using mine [OF t'(2)] \<open>?g \<in># abs t'\<close> by auto
  ultimately show ?thesis
    using t' h by auto
qed

text \<open>Removing a registration by its remote numbers undoes its insertion.\<close>

lemma remove_after_insert:
  assumes "inv t" "size (abs t) < cap" "holds name s" "length s < 16" "holds ip a" "length a < 16"
    and fresh: "\<forall>g. g \<in># abs t \<longrightarrow> r_remote g \<noteq> (r, rp)"
  shows "\<exists>t' t''. insert t name l r lp rp ip = Ok t' \<and> remove t' r rp = (l, lp, t'') \<and> inv t'' \<and>
    abs t'' = abs t"
proof -
  let ?g = "\<lparr>r_name = s, r_local = (l, lp), r_remote = (r, rp), r_ip = a\<rparr>"
  obtain t' where t': "insert t name l r lp rp ip = Ok t'" "inv t'" "abs t' = add_mset ?g (abs t)"
    using insert [OF assms(1-6)] by blast
  then obtain h l' lp' t'' where h: "h \<in># abs t'" "r_remote h = (r, rp)" "r_local h = (l', lp')"
      "remove t' r rp = (l', lp', t'')" "inv t''" "abs t'' = abs t' - {#h#}"
    using remove_in [OF t'(2), of ?g r rp] by auto
  then have "h = ?g"
    using fresh t'(3) by auto
  then show ?thesis
    using t' h by auto
qed

end

section \<open>The table keeps the promise\<close>

lemma table_claim_full: "\<forall>e \<in> set t. e_used e \<noteq> 0 \<Longrightarrow> table_claim t = (length t, t)"
  by (induction t) auto

lemma table_claim_free:
  assumes "\<exists>e \<in> set t. e_used e = 0"
  shows "\<exists>i < length t. table_claim t = (i, t[i := (t ! i)\<lparr>e_used := 1\<rparr>]) \<and> e_used (t ! i) = 0"
  using assms
proof (induction t)
  case (Cons e t)
  show ?case
  proof (cases "e_used e = 0")
    case True
    then show ?thesis by (intro exI [of _ 0]) simp
  next
    case False
    then obtain i where "i < length t" "table_claim t = (i, t[i := (t ! i)\<lparr>e_used := 1\<rparr>])"
        "e_used (t ! i) = 0"
      using Cons by auto
    then show ?thesis
      using False by (intro exI [of _ "Suc i"]) simp
  qed
qed simp

lemma regs_update:
  "i < length t \<Longrightarrow> e_used (t ! i) = 0 \<Longrightarrow> e_used e = 1 \<Longrightarrow>
    regs (t[i := e]) = add_mset (view e) (regs t)"
  by (induction t arbitrary: i) (auto split: nat.splits)

lemma regs_size: "size (regs t) = length (filter (\<lambda>e. e_used e = 1) t)"
  by (simp only: regs_def size_mset length_map)

lemma table_has_free:
  assumes "table_ok t" "size (regs t) < 1024"
  shows "\<exists>e \<in> set t. e_used e = 0"
proof (rule ccontr)
  assume "\<not> (\<exists>e \<in> set t. e_used e = 0)"
  then have "\<forall>e \<in> set t. e_used e = 1"
    using assms(1) by (auto simp: table_ok_def)
  then show False
    using assms by (simp add: regs_size table_ok_def)
qed

lemma table_ok_update:
  assumes "table_ok t" "e_used e \<in> {0, 1}" "length (e_name e) = 16" "length (e_ip e) = 16"
  shows "table_ok (t[i := e])"
  using assms set_update_subset_insert [of t i e] by (auto simp: table_ok_def)

lemma table_insert_ok:
  assumes "table_ok t" "size (regs t) < 1024" "holds name s" "length s < 16" "holds ip a" "length a < 16"
  shows "\<exists>t'. table_insert t name l r lp rp ip = Ok t' \<and> table_ok t' \<and>
    regs t' = add_mset \<lparr>r_name = s, r_local = (l, lp), r_remote = (r, rp), r_ip = a\<rparr> (regs t)"
proof -
  obtain i where i: "i < length t" "table_claim t = (i, t[i := (t ! i)\<lparr>e_used := 1\<rparr>])" "e_used (t ! i) = 0"
    using table_claim_free [OF table_has_free [OF assms(1,2)]] by blast
  have len: "length (e_name (t ! i)) = 16" "length (e_ip (t ! i)) = 16"
    using assms(1) i(1) by (auto simp: table_ok_def)
  let ?nm = "s @ NUL # drop (Suc (length s)) (e_name (t ! i))"
  let ?ip = "a @ NUL # drop (Suc (length a)) (e_ip (t ! i))"
  let ?e = "(t ! i)\<lparr>e_used := 1, e_name := ?nm, e_local_ino := l, e_rdma_ino := r,
      e_local_parent_ino := lp, e_rdma_parent_ino := rp, e_ip := ?ip\<rparr>"
  have "table_insert t name l r lp rp ip = Ok (t[i := ?e])"
    using i len assms(3-6) by (simp add: table_insert_def strcpy_holds)
  moreover have "table_ok (t[i := ?e])"
    using assms(1,4,6) len by (intro table_ok_update) auto
  moreover have "view ?e = \<lparr>r_name = s, r_local = (l, lp), r_remote = (r, rp), r_ip = a\<rparr>"
    using assms(3,5) by (simp add: view_def cstring_holds [OF holdsI] holds_def)
  ultimately show ?thesis
    using i by (simp add: regs_update)
qed

lemma regs_in: "g \<in># regs t \<longleftrightarrow> (\<exists>e \<in> set t. e_used e = 1 \<and> g = view e)"
  by (auto simp: regs_def)

lemma table_lookup_in:
  "e \<in> set t \<Longrightarrow> e_used e = 1 \<Longrightarrow> r_local (view e) = (l, lp) \<Longrightarrow>
    \<exists>h. h \<in># regs t \<and> r_local h = (l, lp) \<and> table_lookup t l lp = r_remote h"
  by (induction t) (fastforce simp: view_def)+

lemma table_lookup_out:
  "\<forall>g. g \<in># regs t \<longrightarrow> r_local g \<noteq> (l, lp) \<Longrightarrow> table_lookup t l lp = (0, 0)"
  by (induction t) (auto simp: view_def split: if_splits)

lemma table_remove_out:
  "\<forall>g. g \<in># regs t \<longrightarrow> r_remote g \<noteq> (r, rp) \<Longrightarrow> table_remove t r rp = (0, 0, t)"
  by (induction t) (auto simp: view_def split: if_splits)

lemma table_remove_in:
  assumes "e \<in> set t" "e_used e = 1" "r_remote (view e) = (r, rp)"
  shows "\<exists>i < length t. e_used (t ! i) = 1 \<and> r_remote (view (t ! i)) = (r, rp) \<and>
    table_remove t r rp = (e_local_ino (t ! i), e_local_parent_ino (t ! i), t[i := (t ! i)\<lparr>e_used := 0\<rparr>])"
  using assms
proof (induction t)
  case (Cons f t)
  show ?case
  proof (cases "e_used f = 1 \<and> r_remote (view f) = (r, rp)")
    case True
    then show ?thesis by (intro exI [of _ 0]) (simp add: view_def)
  next
    case False
    then have "e \<in> set t" using Cons.prems by auto
    then obtain i where "i < length t" "e_used (t ! i) = 1" "r_remote (view (t ! i)) = (r, rp)"
        "table_remove t r rp =
          (e_local_ino (t ! i), e_local_parent_ino (t ! i), t[i := (t ! i)\<lparr>e_used := 0\<rparr>])"
      using Cons by auto
    then show ?thesis
      using False by (intro exI [of _ "Suc i"]) (auto simp: view_def)
  qed
qed simp

lemma regs_release:
  "i < length t \<Longrightarrow> e_used (t ! i) = 1 \<Longrightarrow> regs (t[i := (t ! i)\<lparr>e_used := 0\<rparr>]) = regs t - {#view (t ! i)#}"
proof (induction t arbitrary: i)
  case (Cons f t)
  show ?case
  proof (cases i)
    case 0
    then show ?thesis using Cons.prems by simp
  next
    case (Suc j)
    then have "view (t ! j) \<in># regs t"
      using Cons.prems by (auto simp: regs_in)
    then show ?thesis
      using Cons.IH [of j] Cons.prems Suc by simp
  qed
qed simp

lemma table_mine_iff: "table_mine t l = (if \<exists>g. g \<in># regs t \<and> fst (r_local g) = l then 0 else 1)"
  by (induction t) (auto simp: view_def)

interpretation tab: registry table_ok regs 1024 table_reset table_insert table_lookup table_remove table_mine
proof unfold_locales
  fix t assume "table_ok t"
  then show "table_ok (table_reset t) \<and> regs (table_reset t) = {#}"
    by (auto simp: table_ok_def table_reset_def regs_def filter_empty_conv)
next
  fix t g l lp assume "table_ok t" "g \<in># regs t" "r_local g = (l, lp)"
  then show "\<exists>h. h \<in># regs t \<and> r_local h = (l, lp) \<and> table_lookup t l lp = r_remote h"
    by (metis regs_in table_lookup_in)
next
  fix t g r rp assume t: "table_ok t" "g \<in># regs t" "r_remote g = (r, rp)"
  then obtain i where i: "i < length t" "e_used (t ! i) = 1" "r_remote (view (t ! i)) = (r, rp)"
      "table_remove t r rp =
        (e_local_ino (t ! i), e_local_parent_ino (t ! i), t[i := (t ! i)\<lparr>e_used := 0\<rparr>])"
    using table_remove_in [of _ t r rp] by (auto simp: regs_in)
  have "table_ok (t[i := (t ! i)\<lparr>e_used := 0\<rparr>])"
    using t(1) i(1) by (intro table_ok_update) (auto simp: table_ok_def)
  then show "\<exists>h l lp t'. h \<in># regs t \<and> r_remote h = (r, rp) \<and> r_local h = (l, lp) \<and>
      table_remove t r rp = (l, lp, t') \<and> table_ok t' \<and> regs t' = regs t - {#h#}"
    using i by (intro exI [of _ "view (t ! i)"]) (auto simp: regs_in regs_release view_def)
qed (rule table_insert_ok table_lookup_out table_remove_out table_mine_iff; assumption?)+

section \<open>Properties\<close>

definition blank_entry :: entry where
  "blank_entry = \<lparr>e_name = replicate 16 NUL, e_local_ino = 0, e_rdma_ino = 0, e_local_parent_ino = 0,
     e_rdma_parent_ino = 0, e_ip = replicate 16 NUL, e_used = 0\<rparr>"

definition blank_table :: "entry list" where
  "blank_table = replicate 1024 blank_entry"

lemma blank_table_ok: "table_ok blank_table" "regs blank_table = {#}"
  by (simp_all add: table_ok_def blank_table_def blank_entry_def regs_def filter_replicate)

lemma table_holds_example: "holds (''a'' @ [NUL]) ''a''" "holds (''10.0.0.1'' @ [NUL]) ''10.0.0.1''"
  by (rule holdsI, simp)+

text \<open>
  C11.  Registering a remote file in a table with a free slot succeeds, and afterwards the
  clients' search by the local numbers gives the remote numbers and \<open>is_my_file\<close> says
  that the file is not local, provided no registration had the same local numbers.
\<close>

theorem registered_is_found:
  assumes "table_ok t" "size (regs t) < 1024" "holds name s" "length s < 16" "holds ip a" "length a < 16"
    and "\<forall>g. g \<in># regs t \<longrightarrow> r_local g \<noteq> (l, lp)"
  shows "\<exists>t'. table_insert t name l r lp rp ip = Ok t' \<and> table_ok t' \<and> table_lookup t' l lp = (r, rp) \<and>
    table_mine t' l = 0"
  using assms by (rule tab.lookup_after_insert)

theorem registered_is_found_witness:
  "\<exists>t'. table_insert blank_table (''a'' @ [NUL]) 5 9 1 2 (''10.0.0.1'' @ [NUL]) = Ok t' \<and> table_ok t' \<and>
    table_lookup t' 5 1 = (9, 2) \<and> table_mine t' 5 = 0"
  by (rule registered_is_found [OF blank_table_ok(1) _ table_holds_example(1) _ table_holds_example(2)])
    (simp_all add: blank_table_ok)

text \<open>
  C20.  Removing a registration by its remote numbers, as \<open>rdma_remove\<close> does, gives back the
  local numbers it was registered with and restores the set of registrations.
\<close>

theorem removal_undoes_registration:
  assumes "table_ok t" "size (regs t) < 1024" "holds name s" "length s < 16" "holds ip a" "length a < 16"
    and "\<forall>g. g \<in># regs t \<longrightarrow> r_remote g \<noteq> (r, rp)"
  shows "\<exists>t' t''. table_insert t name l r lp rp ip = Ok t' \<and> table_remove t' r rp = (l, lp, t'') \<and>
    table_ok t'' \<and> regs t'' = regs t"
  using assms by (rule tab.remove_after_insert)

theorem removal_undoes_registration_witness:
  "\<exists>t' t''. table_insert blank_table (''a'' @ [NUL]) 5 9 1 2 (''10.0.0.1'' @ [NUL]) = Ok t' \<and>
    table_remove t' 9 2 = (5, 1, t'') \<and> table_ok t'' \<and> regs t'' = regs blank_table"
  by (rule removal_undoes_registration [OF blank_table_ok(1) _ table_holds_example(1) _ table_holds_example(2)])
    (simp_all add: blank_table_ok)



end
