(* ===== verification/Kernel.thy ===== *)
theory Kernel
  imports MapTable
begin

unbundle bit_operations_syntax

text \<open>
  The state of one machine: the VFS objects wjfs works on, the globals of the module and
  its sockets.

  Inodes, dentries and sockets live in stores.  An address is an index of its store; a
  freed object leaves \<open>None\<close> behind and its address is not reused, so that a use after
  free is the fault \<open>BadPointer\<close>.  Allocations ask the oracle \<open>mem\<close>, which may refuse
  any of them; \<open>stale n\<close> is what the page of allocation number \<open>n\<close> contains at first.

  Of a dentry the model keeps the reference count, the name, the inode, the parent, the
  children (in the order of the list \<open>d_subdirs\<close>: \<open>list_add\<close> puts a new child first)
  and whether \<open>d_op->d_delete\<close> is set.  \<open>d_alias\<close> is non-empty exactly while \<open>d_inode\<close>
  is set, so it has no field.  The hash chains are one list, \<open>dhash\<close>, newest first: two
  dentries with the same parent and name are on the same chain, so their order is kept; a
  dentry is unhashed when it is not in the list.  Locks, the LRU list (which holds only
  unused dentries without \<open>d_delete\<close>), statistics and notifications are not modelled.

  The network stack below the socket layer is not modelled: \<open>net_ret n\<close> is the value its
  call number \<open>n\<close> returns, \<open>net_in n\<close> and \<open>net_peer n\<close> the bytes and the address it
  delivers, and \<open>net_log\<close> the calls made so far, the last one first.
\<close>

section \<open>Objects\<close>

type_synonym addr = nat

text \<open>A page of the page cache: its 4096 bytes and two of its flags.\<close>

record page =
  p_data :: bytes
  p_uptodate :: bool
  p_dirty :: bool

text \<open>The operation tables an inode can get.\<close>

datatype inode_ops = NoOps | FileOps | DirOps | SymlinkOps | SpecialOps

record inode =
  i_ino :: u32
  i_mode :: u16
  i_nlink :: u32
  i_uid :: u32
  i_gid :: u32
  i_rdev :: u32
  i_size :: u64
  i_atime :: nat
  i_mtime :: nat
  i_ctime :: nat
  i_count :: u32
  i_ops :: inode_ops
  i_dead :: bool
  i_sb :: nat
  i_pages :: "nat \<Rightarrow> page option"

record dentry =
  d_count :: u32
  d_name :: bytes
  d_len :: nat
  d_inode :: "addr option"
  d_parent :: addr
  d_subdirs :: "addr list"
  d_op_delete :: bool

text \<open>The calls into the socket layer, with the socket and what is passed down.\<close>

datatype net_call =
    NCreate
  | NBind addr u32 u16
  | NListen addr u32
  | NConnect addr u32 u16
  | NAccept addr addr
  | NGetname addr
  | NSend addr bytes
  | NRecv addr nat
  | NShutdown addr u32
  | NRelease addr
  | NRecvfrom addr nat u32
  | NSendto addr bytes u32 "u32 \<times> u32"
  | NName addr nat
  | NSetsockopt addr bool u32 u32 bytes

text \<open>
  The state: the stores and the hash, the counter \<open>last_ino\<close> of \<open>new_inode\<close>, the clock,
  the credentials of the current task and the mount's read-only flag, the allocator, the
  globals of \<open>wjfs.c\<close> with the static \<open>k\<close> of \<open>wjfs_read\<close>, and the network.
\<close>

record kernel =
  inodes :: "inode option list"
  dents :: "dentry option list"
  dhash :: "addr list"
  last_ino :: u32
  clock :: nat
  fsuid :: u32
  fsgid :: u32
  groups :: "u32 list"
  cap_dac_override :: bool
  cap_dac_read_search :: bool
  cap_fowner :: bool
  sb_rdonly :: bool
  mem :: "nat \<Rightarrow> bool"
  mem_no :: nat
  stale :: "nat \<Rightarrow> nat \<Rightarrow> char"
  rroot_sb :: "nat option"
  rroot_dentry :: "addr option"
  rroot_inode :: "addr option"
  a_dentry :: "addr option"
  reg_ino_mapp_table :: "entry list"
  read_k :: u32
  socks :: "unit option list"
  net_ret :: "nat \<Rightarrow> int"
  net_in :: "nat \<Rightarrow> bytes"
  net_peer :: "nat \<Rightarrow> u32"
  net_no :: nat
  net_log :: "net_call list"

section \<open>Access to the stores\<close>

definition obj :: "'a option list \<Rightarrow> addr \<Rightarrow> 'a option" where
  "obj s a = (if a < length s then s ! a else None)"

definition sget :: "'a option list \<Rightarrow> addr \<Rightarrow> 'a res" where
  "sget s a = deref BadPointer (obj s a)"

definition inode_at :: "kernel \<Rightarrow> addr \<Rightarrow> inode res" where
  "inode_at k i = sget (inodes k) i"

definition dentry_at :: "kernel \<Rightarrow> addr \<Rightarrow> dentry res" where
  "dentry_at k d = sget (dents k) d"

definition set_inode :: "addr \<Rightarrow> inode \<Rightarrow> kernel \<Rightarrow> kernel" where
  "set_inode i x k = k\<lparr>inodes := (inodes k)[i := Some x]\<rparr>"

definition set_dentry :: "addr \<Rightarrow> dentry \<Rightarrow> kernel \<Rightarrow> kernel" where
  "set_dentry d x k = k\<lparr>dents := (dents k)[d := Some x]\<rparr>"

definition upd_inode :: "addr \<Rightarrow> (inode \<Rightarrow> inode) \<Rightarrow> kernel \<Rightarrow> kernel res" where
  "upd_inode i f k = bindR (inode_at k i) (\<lambda>x. Ok (set_inode i (f x) k))"

definition upd_dentry :: "addr \<Rightarrow> (dentry \<Rightarrow> dentry) \<Rightarrow> kernel \<Rightarrow> kernel res" where
  "upd_dentry d f k = bindR (dentry_at k d) (\<lambda>x. Ok (set_dentry d (f x) k))"

text \<open>\<open>dentry->d_inode->...\<close> of a dentry, which faults on a negative one.\<close>

definition d_inode_of :: "kernel \<Rightarrow> addr \<Rightarrow> addr res" where
  "d_inode_of k d = bindR (dentry_at k d) (\<lambda>x. deref NullDeref (d_inode x))"

definition d_unhashed :: "kernel \<Rightarrow> addr \<Rightarrow> bool" where
  "d_unhashed k d \<longleftrightarrow> d \<notin> set (dhash k)"

definition kmem_alloc :: "kernel \<Rightarrow> bool \<times> kernel" where
  "kmem_alloc k = (mem k (mem_no k), k\<lparr>mem_no := Suc (mem_no k)\<rparr>)"

section \<open>Modes\<close>

definition S_IFMT :: u16 where "S_IFMT = 0xF000"
definition S_IFDIR :: u16 where "S_IFDIR = 0x4000"
definition S_IFREG :: u16 where "S_IFREG = 0x8000"
definition S_IFLNK :: u16 where "S_IFLNK = 0xA000"
definition S_ISGID :: u16 where "S_ISGID = 0x400"
definition S_ISVTX :: u16 where "S_ISVTX = 0x200"

definition S_ISDIR :: "u16 \<Rightarrow> bool" where
  "S_ISDIR m \<longleftrightarrow> m AND S_IFMT = S_IFDIR"

section \<open>Lemmas on the stores\<close>

abbreviation dobj :: "kernel \<Rightarrow> addr \<Rightarrow> dentry option" where
  "dobj k \<equiv> obj (dents k)"

abbreviation iobj :: "kernel \<Rightarrow> addr \<Rightarrow> inode option" where
  "iobj k \<equiv> obj (inodes k)"

lemma obj_update [simp]: "obj (s[a := v]) b = (if a = b \<and> a < length s then v else obj s b)"
  by (simp add: obj_def)

lemma obj_append [simp]: "obj (s @ [v]) a = (if a = length s then v else obj s a)"
  by (simp add: obj_def nth_append)

lemma obj_Some_length: "obj s a = Some x \<Longrightarrow> a < length s"
  by (simp add: obj_def split: if_splits)

lemma obj_length [simp]: "obj s (length s) = None"
  by (simp add: obj_def)

lemma sget_eq_Ok [simp]: "sget s a = Ok x \<longleftrightarrow> obj s a = Some x"
  by (simp add: sget_def)

lemma dentry_at_eq_Ok [simp]: "dentry_at k d = Ok x \<longleftrightarrow> dobj k d = Some x"
  by (simp add: dentry_at_def)

lemma inode_at_eq_Ok [simp]: "inode_at k i = Ok x \<longleftrightarrow> iobj k i = Some x"
  by (simp add: inode_at_def)

lemma dentry_at_Some: "dobj k d = Some x \<Longrightarrow> dentry_at k d = Ok x"
  by simp

lemma inode_at_Some: "iobj k i = Some x \<Longrightarrow> inode_at k i = Ok x"
  by simp

lemma set_dentry_simps [simp]:
  "inodes (set_dentry d x k) = inodes k" "dhash (set_dentry d x k) = dhash k"
  "dents (set_dentry d x k) = (dents k)[d := Some x]"
  by (simp_all add: set_dentry_def)

lemma set_inode_simps [simp]:
  "dents (set_inode i x k) = dents k" "dhash (set_inode i x k) = dhash k"
  "inodes (set_inode i x k) = (inodes k)[i := Some x]"
  by (simp_all add: set_inode_def)

lemma set_dentry_twice [simp]: "set_dentry d x (set_dentry d y k) = set_dentry d x k"
  by (simp add: set_dentry_def)

lemma set_inode_same: "iobj k i = Some z \<Longrightarrow> set_inode i z k = k"
  by (cases k) (auto simp: set_inode_def obj_def list_update_same_conv split: if_splits)

lemma upd_dentry_eq_Ok: "upd_dentry d f k = Ok k' \<longleftrightarrow> (\<exists>x. dobj k d = Some x \<and> k' = set_dentry d (f x) k)"
  by (auto simp: upd_dentry_def)

lemma upd_inode_eq_Ok: "upd_inode i f k = Ok k' \<longleftrightarrow> (\<exists>x. iobj k i = Some x \<and> k' = set_inode i (f x) k)"
  by (auto simp: upd_inode_def)

lemmas upd_eq_Ok = upd_dentry_eq_Ok upd_inode_eq_Ok

lemma d_inode_of_eq_Ok [simp]:
  "d_inode_of k d = Ok i \<longleftrightarrow> (\<exists>x. dobj k d = Some x \<and> d_inode x = Some i)"
  by (auto simp: d_inode_of_def)

text \<open>The number of objects of a store: every dentry that \<open>dput\<close> kills makes it smaller.\<close>

definition live :: "'a option list \<Rightarrow> nat" where
  "live s = length (filter (\<lambda>x. x \<noteq> None) s)"

lemma live_update:
  assumes "obj s a = Some x"
  shows "live (s[a := Some y]) = live s" and "live (s[a := None]) < live s"
proof -
  have a: "a < length s" and "s ! a = Some x"
    using assms by (auto simp: obj_def split: if_splits)
  then have "s = take a s @ Some x # drop (Suc a) s"
    by (metis id_take_nth_drop)
  then obtain u v where "s = u @ Some x # v" "length u = a"
    using a by (metis length_take min.absorb4)
  then show "live (s[a := Some y]) = live s" and "live (s[a := None]) < live s"
    by (auto simp: live_def list_update_append)
qed

section \<open>A machine with nothing on it\<close>

text \<open>The state after boot, with an allocator and a network that never fail.\<close>

definition kernel0 :: kernel where
  "kernel0 = \<lparr>inodes = [], dents = [], dhash = [], last_ino = 0, clock = 0, fsuid = 0, fsgid = 0,
     groups = [], cap_dac_override = True, cap_dac_read_search = True, cap_fowner = True,
     sb_rdonly = False, mem = (\<lambda>_. True), mem_no = 0, stale = (\<lambda>_ _. NUL), rroot_sb = None, rroot_dentry = None,
     rroot_inode = None, a_dentry = None, reg_ino_mapp_table = blank_table, read_k = 1, socks = [],
     net_ret = (\<lambda>_. 0), net_in = (\<lambda>_. []), net_peer = (\<lambda>_. 0), net_no = 0, net_log = []\<rparr>"

end
