(* ===== verification/Dcache.thy ===== *)
theory Dcache
  imports Kernel
begin

unbundle bit_operations_syntax

text \<open>
  The inode and dentry services of \<open>fs/inode.c\<close>, \<open>fs/dcache.c\<close>, \<open>include/linux/fs.h\<close>
  and \<open>include/linux/dcache.h\<close> that wjfs calls.  Functions that can fault return
  \<open>res\<close>; a function that returns a pointer and changes the state returns both.
\<close>

section \<open>Inodes\<close>

definition inc_nlink :: "addr \<Rightarrow> kernel \<Rightarrow> kernel res" where
  "inc_nlink i = upd_inode i (\<lambda>x. x\<lparr>i_nlink := i_nlink x + 1\<rparr>)"

definition drop_nlink :: "addr \<Rightarrow> kernel \<Rightarrow> kernel res" where
  "drop_nlink i = upd_inode i (\<lambda>x. x\<lparr>i_nlink := i_nlink x - 1\<rparr>)"

text \<open>
  What \<open>inode_init_always\<close> writes.  It leaves \<open>i_mode\<close> and the times as the slab had
  them; \<open>wjfs_get_inode\<close>, the only caller here, sets them at once.
\<close>

definition inode_init_always :: "nat \<Rightarrow> inode" where
  "inode_init_always sb =
     \<lparr>i_ino = 0, i_mode = 0, i_nlink = 1, i_uid = 0, i_gid = 0, i_rdev = 0, i_size = 0,
      i_atime = 0, i_mtime = 0, i_ctime = 0, i_count = 1, i_ops = NoOps, i_dead = False,
      i_sb = sb, i_pages = (\<lambda>_. None)\<rparr>"

definition new_inode :: "nat \<Rightarrow> kernel \<Rightarrow> addr option \<times> kernel" where
  "new_inode sb k =
     (case kmem_alloc k of
        (False, k) \<Rightarrow> (None, k)
      | (True, k) \<Rightarrow>
          let ino = last_ino k + 1
          in (Some (length (inodes k)),
              k\<lparr>last_ino := ino,
                inodes := inodes k @ [Some ((inode_init_always sb)\<lparr>i_ino := ino\<rparr>)]\<rparr>))"

text \<open>
  The last reference destroys the inode with its pages: \<open>wjfs_ops.drop_inode\<close> is
  \<open>generic_delete_inode\<close>.
\<close>

definition generic_delete_inode :: "addr \<Rightarrow> kernel \<Rightarrow> kernel" where
  "generic_delete_inode i k = k\<lparr>inodes := (inodes k)[i := None]\<rparr>"

definition iput :: "addr option \<Rightarrow> kernel \<Rightarrow> kernel res" where
  "iput p k =
     (case p of
        None \<Rightarrow> Ok k
      | Some i \<Rightarrow>
          bindR (inode_at k i) (\<lambda>x.
            if i_count x - 1 = 0 then Ok (generic_delete_inode i k)
            else Ok (set_inode i (x\<lparr>i_count := i_count x - 1\<rparr>) k)))"

section \<open>Dentries\<close>

definition dget :: "addr \<Rightarrow> kernel \<Rightarrow> kernel res" where
  "dget d k =
     bindR (dentry_at k d) (\<lambda>x.
     bindR (bug_on (d_count x = 0)) (\<lambda>_.
       Ok (set_dentry d (x\<lparr>d_count := d_count x + 1\<rparr>) k)))"

definition d_drop :: "addr \<Rightarrow> kernel \<Rightarrow> kernel" where
  "d_drop d k = k\<lparr>dhash := filter (\<lambda>e. e \<noteq> d) (dhash k)\<rparr>"

definition d_rehash :: "addr \<Rightarrow> kernel \<Rightarrow> kernel res" where
  "d_rehash d k = bindR (dentry_at k d) (\<lambda>_. Ok (k\<lparr>dhash := d # dhash k\<rparr>))"

text \<open>
  \<open>d_alloc(parent, name)\<close>.  A name of 40 bytes or more (\<open>DNAME_INLINE_LEN\<close>) takes a
  second allocation; \<open>d_init\<close> is what follows the allocations.  The dentry of a root has
  no parent yet; the model writes its own address, as \<open>d_alloc_root\<close> does next.
\<close>

definition DNAME_INLINE_LEN :: nat where
  "DNAME_INLINE_LEN = 40"

definition d_init :: "addr option \<Rightarrow> bytes \<Rightarrow> nat \<Rightarrow> kernel \<Rightarrow> (addr option \<times> kernel) res" where
  "d_init parent name len k =
     bindR (memcpy (replicate (Suc len) NUL) name len) (\<lambda>dname.
       let d = length (dents k);
           new = \<lparr>d_count = 1, d_name = dname, d_len = len, d_inode = None, d_parent = d,
                  d_subdirs = [], d_op_delete = False\<rparr>
       in (case parent of
             None \<Rightarrow> Ok (Some d, k\<lparr>dents := dents k @ [Some new]\<rparr>)
           | Some p \<Rightarrow>
               bindR (dget p k) (\<lambda>k.
               bindR (upd_dentry p (\<lambda>x. x\<lparr>d_subdirs := d # d_subdirs x\<rparr>) k) (\<lambda>k.
                 Ok (Some d, k\<lparr>dents := dents k @ [Some (new\<lparr>d_parent := p\<rparr>)]\<rparr>)))))"

definition d_alloc :: "addr option \<Rightarrow> bytes \<Rightarrow> nat \<Rightarrow> kernel \<Rightarrow> (addr option \<times> kernel) res" where
  "d_alloc parent name len k =
     (case kmem_alloc k of
        (False, k) \<Rightarrow> Ok (None, k)
      | (True, k) \<Rightarrow>
          (case (if len > DNAME_INLINE_LEN - 1 then kmem_alloc k else (True, k)) of
             (False, k) \<Rightarrow> Ok (None, k)
           | (True, k) \<Rightarrow> d_init parent name len k))"

definition d_instantiate :: "addr \<Rightarrow> addr option \<Rightarrow> kernel \<Rightarrow> kernel res" where
  "d_instantiate d i k =
     bindR (dentry_at k d) (\<lambda>x.
     bindR (bug_on (d_inode x \<noteq> None)) (\<lambda>_.
       Ok (set_dentry d (x\<lparr>d_inode := i\<rparr>) k)))"

definition d_add :: "addr \<Rightarrow> addr option \<Rightarrow> kernel \<Rightarrow> kernel res" where
  "d_add d i k = bindR (d_instantiate d i k) (d_rehash d)"

definition d_alloc_root :: "addr option \<Rightarrow> kernel \<Rightarrow> (addr option \<times> kernel) res" where
  "d_alloc_root root_inode k =
     (case root_inode of
        None \<Rightarrow> Ok (None, k)
      | Some i \<Rightarrow>
          bindR (d_alloc None (''/'' @ [NUL]) 1 k) (\<lambda>(res, k).
            case res of
              None \<Rightarrow> Ok (None, k)
            | Some d \<Rightarrow> bindR (d_instantiate d (Some i) k) (\<lambda>k. Ok (Some d, k))))"

definition dentry_iput :: "addr \<Rightarrow> kernel \<Rightarrow> kernel res" where
  "dentry_iput d k =
     bindR (dentry_at k d) (\<lambda>x.
       case d_inode x of
         None \<Rightarrow> Ok k
       | Some i \<Rightarrow> iput (Some i) (set_dentry d (x\<lparr>d_inode := None\<rparr>) k))"

text \<open>\<open>d_kill\<close> takes the dentry off its parent's list, releases its inode and frees it.\<close>

definition list_del_child :: "addr \<Rightarrow> kernel \<Rightarrow> kernel res" where
  "list_del_child d k =
     bindR (dentry_at k d) (\<lambda>x.
       if d_parent x = d then Ok k
       else upd_dentry (d_parent x) (\<lambda>p. p\<lparr>d_subdirs := filter (\<lambda>c. c \<noteq> d) (d_subdirs p)\<rparr>) k)"

definition d_kill :: "addr \<Rightarrow> kernel \<Rightarrow> (addr option \<times> kernel) res" where
  "d_kill d k =
     bindR (list_del_child d k) (\<lambda>k.
     bindR (dentry_iput d k) (\<lambda>k.
     bindR (dentry_at k d) (\<lambda>x.
       Ok (if d_parent x = d then None else Some (d_parent x),
           k\<lparr>dents := (dents k)[d := None]\<rparr>))))"

section \<open>Releasing a dentry\<close>

lemma list_del_child_live: "list_del_child d k = Ok k' \<Longrightarrow> live (dents k') = live (dents k)"
  by (auto simp: list_del_child_def upd_eq_Ok live_update split: if_splits)

lemma iput_dents: "iput p k = Ok k' \<Longrightarrow> dents k' = dents k \<and> dhash k' = dhash k"
  by (auto simp: iput_def generic_delete_inode_def split: option.splits if_splits)

lemma dentry_iput_live: "dentry_iput d k = Ok k' \<Longrightarrow> live (dents k') = live (dents k)"
  by (auto simp: dentry_iput_def live_update dest!: iput_dents split: option.splits)

lemma d_kill_live: "d_kill d k = Ok (p, k') \<Longrightarrow> live (dents k') < live (dents k)"
  by (auto simp: d_kill_def dest!: list_del_child_live dentry_iput_live)
    (metis live_update(2))+

function dput :: "addr option \<Rightarrow> kernel \<Rightarrow> kernel res" where
  "dput p k =
     (case p of
        None \<Rightarrow> Ok k
      | Some d \<Rightarrow>
          bindR (dentry_at k d) (\<lambda>x.
          let k = set_dentry d (x\<lparr>d_count := d_count x - 1\<rparr>) k
          in if d_count x - 1 \<noteq> 0 then Ok k
             else if d_op_delete x
             then bindR (d_kill d (d_drop d k)) (\<lambda>(parent, k). dput parent k)
             else if d_unhashed k d
             then bindR (d_kill d k) (\<lambda>(parent, k). dput parent k)
             else Ok k))"
  by pat_completeness auto
termination
  by (relation "measure (\<lambda>(p, k). live (dents k))")
    (auto dest!: d_kill_live simp: live_update d_drop_def)

declare dput.simps [simp del]

section \<open>Deleting, finding and moving a dentry\<close>

definition d_delete :: "addr \<Rightarrow> kernel \<Rightarrow> kernel res" where
  "d_delete d k =
     bindR (dentry_at k d) (\<lambda>x.
     bindR (deref NullDeref (d_inode x)) (\<lambda>i.
     bindR (inode_at k i) (\<lambda>_.
       if d_count x = 1 then dentry_iput d k
       else if d_unhashed k d then Ok k else Ok (d_drop d k))))"

text \<open>
  \<open>__d_lookup\<close>: the first dentry of the chain with the parent and the name.  The hash
  values it compares first are equal when the names are.
\<close>

fun d_lookup_chain :: "kernel \<Rightarrow> addr list \<Rightarrow> addr \<Rightarrow> bytes \<Rightarrow> nat \<Rightarrow> addr option res" where
  "d_lookup_chain k [] parent name len = Ok None"
| "d_lookup_chain k (d # ds) parent name len =
     bindR (dentry_at k d) (\<lambda>x.
       if d_parent x \<noteq> parent \<or> d_len x \<noteq> len then d_lookup_chain k ds parent name len
       else bindR (memcmp (d_name x) name len) (\<lambda>r.
         if r \<noteq> 0 then d_lookup_chain k ds parent name len else Ok (Some d)))"

definition d_lookup :: "addr \<Rightarrow> bytes \<Rightarrow> nat \<Rightarrow> kernel \<Rightarrow> (addr option \<times> kernel) res" where
  "d_lookup parent name len k =
     bindR (d_lookup_chain k (dhash k) parent name len) (\<lambda>found.
       case found of
         None \<Rightarrow> Ok (None, k)
       | Some d \<Rightarrow> bindR (upd_dentry d (\<lambda>x. x\<lparr>d_count := d_count x + 1\<rparr>) k) (\<lambda>k. Ok (Some d, k)))"

text \<open>
  \<open>switch_names\<close>: the moved dentry takes the name of the target.  The target takes the
  old name unless both names are stored inside their dentries.
\<close>

definition dname_external :: "dentry \<Rightarrow> bool" where
  "dname_external x \<longleftrightarrow> d_len x > DNAME_INLINE_LEN - 1"

definition switch_names :: "dentry \<Rightarrow> dentry \<Rightarrow> dentry \<times> dentry" where
  "switch_names x t =
     (x\<lparr>d_name := d_name t, d_len := d_len t\<rparr>,
      if dname_external x \<or> dname_external t then t\<lparr>d_name := d_name x, d_len := d_len x\<rparr> else t)"

definition list_add_child :: "addr \<Rightarrow> addr \<Rightarrow> kernel \<Rightarrow> kernel res" where
  "list_add_child c p = upd_dentry p (\<lambda>x. x\<lparr>d_subdirs := c # d_subdirs x\<rparr>)"

definition d_move :: "addr \<Rightarrow> addr \<Rightarrow> kernel \<Rightarrow> kernel res" where
  "d_move d t k =
     (let k = (if d_unhashed k d then k else k\<lparr>dhash := filter (\<lambda>e. e \<noteq> d) (dhash k)\<rparr>);
          k = d_drop t (k\<lparr>dhash := d # dhash k\<rparr>)
      in bindR (list_del_child d k) (\<lambda>k.
         bindR (list_del_child t k) (\<lambda>k.
         bindR (dentry_at k d) (\<lambda>x.
         bindR (dentry_at k t) (\<lambda>y.
           case switch_names x y of
             (x', y') \<Rightarrow>
               if d_parent x = d
               then bindR (upd_dentry d (\<lambda>_. x'\<lparr>d_parent := d_parent y\<rparr>) k) (\<lambda>k.
                    bindR (upd_dentry t (\<lambda>_. y'\<lparr>d_parent := t\<rparr>) k) (\<lambda>k.
                      list_add_child d (d_parent y) k))
               else bindR (upd_dentry d (\<lambda>_. x'\<lparr>d_parent := d_parent y\<rparr>) k) (\<lambda>k.
                    bindR (upd_dentry t (\<lambda>_. y'\<lparr>d_parent := d_parent x\<rparr>) k) (\<lambda>k.
                    bindR (list_add_child t (d_parent x) k) (\<lambda>k.
                      list_add_child d (d_parent y) k))))))))"
end
