(* ===== verification/Ksocket.thy ===== *)
theory Ksocket
  imports Vsscanf Dcache
begin

unbundle bit_operations_syntax

text \<open>
  The socket library \<open>ksocket\<close> (\<open>ksocket-0.0.2/src/ksocket.c\<close>), which gives kernel code
  the socket calls of user space.

  Below it is the socket layer of the kernel, which is not modelled: a call into it takes
  its result from the oracles of the state and is added to \<open>net_log\<close>.  A socket is an
  object of the store \<open>socks\<close> from \<open>sock_create\<close> until \<open>sock_release\<close>; calls on a
  released socket, or on \<open>NULL\<close>, are faults.
\<close>

section \<open>Calls into the socket layer\<close>

definition net_enter :: "net_call \<Rightarrow> kernel \<Rightarrow> nat \<times> kernel" where
  "net_enter c k = (net_no k, k\<lparr>net_no := Suc (net_no k), net_log := c # net_log k\<rparr>)"

definition sock_at :: "kernel \<Rightarrow> addr option \<Rightarrow> addr res" where
  "sock_at k p = bindR (deref NullDeref p) (\<lambda>s. bindR (sget (socks k) s) (\<lambda>_. Ok s))"

text \<open>A call that only returns a number.\<close>

definition net_call_ret :: "net_call \<Rightarrow> kernel \<Rightarrow> int \<times> kernel" where
  "net_call_ret c k = (case net_enter c k of (n, k) \<Rightarrow> (net_ret k n, k))"

definition sock_create :: "kernel \<Rightarrow> int \<times> addr option \<times> kernel" where
  "sock_create k =
     (case net_call_ret NCreate k of
        (ret, k) \<Rightarrow>
          if ret < 0 then (ret, None, k)
          else (ret, Some (length (socks k)), k\<lparr>socks := socks k @ [Some ()]\<rparr>))"

definition sock_release :: "addr \<Rightarrow> kernel \<Rightarrow> kernel" where
  "sock_release s k = k\<lparr>socks := (socks k)[s := None]\<rparr>"

section \<open>The library\<close>

definition SOMAXCONN :: u32 where
  "SOMAXCONN = 128"

definition ksocket :: "kernel \<Rightarrow> addr option \<times> kernel" where
  "ksocket k = (case sock_create k of (ret, sk, k) \<Rightarrow> (if ret < 0 then None else sk, k))"

definition kbind :: "addr option \<Rightarrow> u32 \<Rightarrow> u16 \<Rightarrow> kernel \<Rightarrow> (int \<times> kernel) res" where
  "kbind socket ad port k = bindR (sock_at k socket) (\<lambda>sk. Ok (net_call_ret (NBind sk ad port) k))"

definition klisten :: "addr option \<Rightarrow> u32 \<Rightarrow> kernel \<Rightarrow> (int \<times> kernel) res" where
  "klisten socket backlog k =
     bindR (sock_at k socket) (\<lambda>sk.
       Ok (net_call_ret (NListen sk (if backlog > SOMAXCONN then SOMAXCONN else backlog)) k))"

definition kconnect :: "addr option \<Rightarrow> u32 \<Rightarrow> u16 \<Rightarrow> kernel \<Rightarrow> (int \<times> kernel) res" where
  "kconnect socket ad port k =
     bindR (sock_at k socket) (\<lambda>sk. Ok (net_call_ret (NConnect sk ad port) k))"

text \<open>
  \<open>kaccept\<close> returns the new socket and the peer's address, which it asks for because the
  callers pass an address buffer.  The new socket is released when a call fails.
\<close>

definition kaccept :: "addr option \<Rightarrow> kernel \<Rightarrow> (addr option \<times> u32 \<times> kernel) res" where
  "kaccept socket k =
     bindR (sock_at k socket) (\<lambda>sk.
       case sock_create k of
         (ret, new, k) \<Rightarrow>
           (case (if ret < 0 then None else new) of
              None \<Rightarrow> Ok (None, 0, k)
            | Some new_sk \<Rightarrow>
                (case net_call_ret (NAccept sk new_sk) k of
                   (ret, k) \<Rightarrow>
                     if ret < 0 then Ok (None, 0, sock_release new_sk k)
                     else
                       (case net_enter (NGetname new_sk) k of
                          (n, k) \<Rightarrow>
                            if net_ret k n < 0 then Ok (None, 0, sock_release new_sk k)
                            else Ok (Some new_sk, net_peer k n, k)))))"

text \<open>
  \<open>krecv\<close> stores the bytes that arrived, at most \<open>len\<close> of them, at the start of the
  buffer.  What the stack delivers is cut to the number it returns.
\<close>

definition krecv :: "addr option \<Rightarrow> bytes \<Rightarrow> nat \<Rightarrow> kernel \<Rightarrow> (int \<times> bytes \<times> kernel) res" where
  "krecv socket buffer len k =
     bindR (sock_at k socket) (\<lambda>sk.
       case net_enter (NRecv sk len) k of
         (n, k) \<Rightarrow>
           let got = take (min len (nat (net_ret k n))) (net_in k n)
           in if length got \<le> length buffer
              then Ok (net_ret k n, got @ drop (length got) buffer, k)
              else Fault OutOfBounds)"

definition ksend :: "addr option \<Rightarrow> bytes \<Rightarrow> nat \<Rightarrow> kernel \<Rightarrow> (int \<times> kernel) res" where
  "ksend socket buffer len k =
     bindR (sock_at k socket) (\<lambda>sk.
       if len \<le> length buffer then Ok (net_call_ret (NSend sk (take len buffer)) k)
       else Fault OutOfBounds)"

definition kshutdown :: "addr option \<Rightarrow> u32 \<Rightarrow> kernel \<Rightarrow> (int \<times> kernel) res" where
  "kshutdown socket how k =
     (case socket of
        None \<Rightarrow> Ok (0, k)
      | Some _ \<Rightarrow> bindR (sock_at k socket) (\<lambda>sk. Ok (net_call_ret (NShutdown sk how) k)))"

text \<open>\<open>kclose\<close> uses the socket before it tests it for \<open>NULL\<close>.\<close>

definition kclose :: "addr option \<Rightarrow> kernel \<Rightarrow> (int \<times> kernel) res" where
  "kclose socket k =
     bindR (sock_at k socket) (\<lambda>sk.
       case net_call_ret (NRelease sk) k of (ret, k) \<Rightarrow> Ok (ret, sock_release sk k))"

text \<open>
  The rest of the library, which wjfs does not call.  \<open>krecvfrom\<close> also gives the sender's
  address when it is asked for; an address and the length stored beside it are the one value
  \<open>net_peer\<close>.  \<open>ksendto\<close> without a destination passes down the name and
  the length \<open>garbage\<close> that happen to be on its stack.  A destination is a pointer and a
  length.
\<close>

definition krecvfrom ::
  "addr option \<Rightarrow> bytes \<Rightarrow> nat \<Rightarrow> u32 \<Rightarrow> bool \<Rightarrow> kernel \<Rightarrow> (int \<times> bytes \<times> u32 option \<times> kernel) res" where
  "krecvfrom socket buffer len fl want k =
     bindR (sock_at k socket) (\<lambda>sk.
       case net_enter (NRecvfrom sk len fl) k of
         (n, k) \<Rightarrow>
           let got = take (min len (nat (net_ret k n))) (net_in k n)
           in if length got \<le> length buffer
              then Ok (net_ret k n, got @ drop (length got) buffer, if want then Some (net_peer k n) else None, k)
              else Fault OutOfBounds)"

definition ksendto ::
  "u32 \<times> u32 \<Rightarrow> addr option \<Rightarrow> bytes \<Rightarrow> nat \<Rightarrow> u32 \<Rightarrow> (u32 \<times> u32) option \<Rightarrow> kernel \<Rightarrow> (int \<times> kernel) res" where
  "ksendto garbage socket message len fl dest k =
     bindR (sock_at k socket) (\<lambda>sk.
       if len \<le> length message
       then Ok (net_call_ret (NSendto sk (take len message) fl (case dest of None \<Rightarrow> garbage | Some d \<Rightarrow> d)) k)
       else Fault OutOfBounds)"

definition kgetname :: "nat \<Rightarrow> addr option \<Rightarrow> kernel \<Rightarrow> (int \<times> u32 \<times> kernel) res" where
  "kgetname peer socket k =
     bindR (sock_at k socket) (\<lambda>sk. case net_enter (NName sk peer) k of (n, k) \<Rightarrow> Ok (net_ret k n, net_peer k n, k))"

definition kgetsockname :: "addr option \<Rightarrow> kernel \<Rightarrow> (int \<times> u32 \<times> kernel) res" where
  "kgetsockname = kgetname 0"

definition kgetpeername :: "addr option \<Rightarrow> kernel \<Rightarrow> (int \<times> u32 \<times> kernel) res" where
  "kgetpeername = kgetname 1"

text \<open>The options of the socket itself (\<open>SOL_SOCKET\<close>) go another way than those of the protocol.\<close>

definition SOL_SOCKET :: u32 where
  "SOL_SOCKET = 1"

definition ksetsockopt :: "addr option \<Rightarrow> u32 \<Rightarrow> u32 \<Rightarrow> bytes \<Rightarrow> kernel \<Rightarrow> (int \<times> kernel) res" where
  "ksetsockopt socket level optname optval k =
     bindR (sock_at k socket) (\<lambda>sk. Ok (net_call_ret (NSetsockopt sk (level = SOL_SOCKET) level optname optval) k))"

definition ENOSYS :: int where
  "ENOSYS = 38"

definition kgetsockopt :: "addr option \<Rightarrow> u32 \<Rightarrow> u32 \<Rightarrow> kernel \<Rightarrow> (int \<times> kernel) res" where
  "kgetsockopt socket level optname k = Ok (- ENOSYS, k)"

section \<open>Addresses\<close>

text \<open>
  \<open>inet_addr\<close>: the four numbers \<open>a\<close>, \<open>b\<close>, \<open>c\<close>, \<open>d\<close> keep their uninitialised values
  \<open>garbage\<close> where \<open>sscanf\<close> stores nothing; the address is the four bytes in memory order.
\<close>

fun out_int :: "scan_out \<Rightarrow> u32" where
  "out_int (OInt v) = v"
| "out_int _ = 0"

fun bytes_le :: "u32 list \<Rightarrow> u32" where
  "bytes_le [] = 0"
| "bytes_le (v # vs) = (v AND 0xFF) OR push_bit 8 (bytes_le vs)"

definition inet_addr :: "u32 list \<Rightarrow> bytes \<Rightarrow> u32 res" where
  "inet_addr garbage ip =
     bindR (sscanf ip ''%d.%d.%d.%d'') (\<lambda>(num, outs).
       Ok (bytes_le (map out_int outs @ drop (length outs) garbage)))"

definition inet_ntoa :: "u32 \<Rightarrow> bytes \<Rightarrow> kernel \<Rightarrow> (bytes option \<times> kernel) res" where
  "inet_ntoa int_ip str_ip k =
     (case kmem_alloc k of
        (False, k) \<Rightarrow> Ok (None, k)
      | (True, k) \<Rightarrow>
          bindR (memset str_ip NUL 16) (\<lambda>str_ip.
          bindR (sprintf str_ip ''%d.%d.%d.%d''
                   [AInt (int_ip AND 0xFF), AInt (drop_bit 8 int_ip AND 0xFF),
                    AInt (drop_bit 16 int_ip AND 0xFF), AInt (drop_bit 24 int_ip AND 0xFF)]) (\<lambda>(n, str_ip).
            Ok (Some str_ip, k))))"

section \<open>Reading a dotted address\<close>

lemma digits_digit: "c \<in> digits \<Longrightarrow> \<exists>d < 10. c = digit d"
proof -
  assume c: "c \<in> digits"
  then have "c = digit (of_char c - 48)"
    by (simp add: digits_def digit_def)
  moreover have "of_char c - 48 < (10 :: nat)"
    using c unfolding digits_def mem_Collect_eq by linarith
  ultimately have "c = digit (of_char c - 48)" "of_char c - 48 < (10 :: nat)" .
  then show ?thesis
    by blast
qed

lemma digits_facts:
  assumes "c \<in> digits"
  shows "isdigit c" "isxdigit c" "digit_value c < 10" "of_nat (digit_value c) = schar c - 48"
    "\<not> isspace c" "c \<noteq> CHR ''-''" "c \<noteq> NUL"
proof -
  obtain d where d: "d < 10" "c = digit d"
    using digits_digit [OF assms] by blast
  show 1: "isdigit c" and "isxdigit c"
    using assms by (simp_all add: digits_def isdigit_def isxdigit_def)
  have v: "digit_value c = d"
    using 1 d by (simp add: digit_value_def of_char_digit)
  then show "digit_value c < 10" "of_nat (digit_value c) = schar c - 48"
    using d schar_digit by simp_all
  show "\<not> isspace c"
    using assms by (simp add: digits_def isspace_def)
  show "c \<noteq> CHR ''-''" "c \<noteq> NUL"
    using assms by (auto simp: digits_def)
qed

lemma strto_digits:
  assumes "set ds \<subseteq> digits" "\<not> isdigit c"
  shows "strto_loop 10 (ds @ c # r) a = Ok (value_of a ds, c # r)"
  using assms(1)
proof (induction ds arbitrary: a)
  case Nil
  then show ?case
    using assms(2) by (simp add: digit_value_def)
next
  case (Cons d ds)
  then show ?case
    by (simp add: digits_facts)
qed

lemma scan_decimal:
  assumes "\<not> isdigit c"
  shows "scan_step n (CHR ''%'' # CHR ''d'' # rest) (decimal v @ c # r) num outs =
    Ok (SNext rest (c # r) (Suc num) (outs @ [OInt (of_nat v)]))"
proof -
  obtain d ds where dec: "decimal v = d # ds" "d \<in> digits"
    using decimal_digits [of v] decimal_not_Nil [of v] by (cases "decimal v") auto
  note d = digits_facts [OF dec(2)]
  have num: "strto_loop 10 (d # ds @ c # r) (0 :: u32) = Ok (of_nat v, c # r)"
    using strto_digits [OF decimal_digits [of v] assms, of r 0] value_of_decimal [of v]
    unfolding dec(1) append_Cons by (simp only:)
  have "\<not> isspace (CHR ''%'')" "\<not> isdigit (CHR ''d'')"
    by (simp_all add: isspace_def isdigit_def)
  then show ?thesis
    using num d
    by (simp add: scan_step_def dec scan_qualifier_def peek_def scan_conv_def scan_int_def scan_value_def
        simple_strtol_def simple_strtoul_def simple_strto_def Let_def)
qed

lemma vsscanf_decimal:
  assumes "\<not> isdigit c"
  shows "vsscanf_loop n (CHR ''%'' # CHR ''d'' # rest) (decimal v @ c # r) num outs =
    vsscanf_loop n rest (c # r) (Suc num) (outs @ [OInt (of_nat v)])"
proof -
  obtain d ds where "decimal v = d # ds" "d \<noteq> NUL"
    using decimal_digits [of v] decimal_not_Nil [of v] digits_facts(7) by (cases "decimal v") auto
  then have "peek (decimal v @ c # r) 0 = Ok d" "d \<noteq> NUL"
    by (simp_all add: peek_def)
  then show ?thesis
    by (subst vsscanf_loop.simps) (simp add: scan_decimal [OF assms])
qed

lemma vsscanf_literal:
  assumes "f \<noteq> CHR ''%''" "\<not> isspace f" "f \<noteq> NUL"
  shows "vsscanf_loop n (f # rest) (f # r) num outs = vsscanf_loop n rest r num outs"
  using assms by (subst vsscanf_loop.simps) (simp add: scan_step_def peek_def)

lemma vsscanf_Nil: "vsscanf_loop n [] r num outs = Ok (num, outs)"
  by (subst vsscanf_loop.simps) (simp add: scan_end_def)

definition dotted :: "nat \<Rightarrow> nat \<Rightarrow> nat \<Rightarrow> nat \<Rightarrow> string" where
  "dotted a b c d = decimal a @ CHR ''.'' # decimal b @ CHR ''.'' # decimal c @ CHR ''.'' # decimal d"

lemma sscanf_dotted:
  "sscanf (dotted a b c d @ NUL # r) ''%d.%d.%d.%d'' =
    Ok (4, [OInt (of_nat a), OInt (of_nat b), OInt (of_nat c), OInt (of_nat d)])"
proof -
  have "\<not> isdigit (CHR ''.'')" "\<not> isdigit NUL" "\<not> isspace (CHR ''.'')"
    by (simp_all add: isdigit_def isspace_def)
  then show ?thesis
    by (simp add: sscanf_def vsscanf_def dotted_def vsscanf_decimal vsscanf_literal vsscanf_Nil)
qed

lemma and_FF: "(w :: u32) AND 0xFF = take_bit 8 w"
  by (simp add: take_bit_eq_mask mask_eq_exp_minus_1)

lemma byte_and: "unat (w AND 0xFF :: u32) < 256"
  using take_bit_nat_less_exp [of 8 "unat w"] by (simp add: and_FF unsigned_take_bit_eq)

lemma sint_small: "unat (w :: u32) < 2 ^ 31 \<Longrightarrow> 0 \<le> sint w"
proof -
  assume "unat w < 2 ^ 31"
  then have "int (unat w) < int (2 ^ 31)"
    by (simp only: of_nat_less_iff)
  then have "uint w < 2 ^ 31"
    by simp
  moreover have "- (2 ^ 31) \<le> uint w"
    by (rule order_trans [OF _ uint_nonnegative]) simp
  ultimately have "sint w = uint w"
    by (simp add: sint_uint signed_take_bit_int_eq_self_iff)
  then show ?thesis
    by simp
qed

lemma print_int_byte: "print_int (w AND 0xFF) = decimal (unat (w AND 0xFF))"
  using byte_and [of w] by (intro print_int_nonneg sint_small) simp

lemma bytes_le_parts:
  "bytes_le [w AND 0xFF, drop_bit 8 w AND 0xFF, drop_bit 16 w AND 0xFF, drop_bit 24 w AND 0xFF] = w"
  unfolding bytes_le.simps and_FF
proof (rule bit_word_eqI)
  fix n assume "n < LENGTH(32)"
  then have "n < 8 \<or> (\<exists>m < 8. n = 8 + m) \<or> (\<exists>m < 8. n = 16 + m) \<or> (\<exists>m < 8. n = 24 + m)"
    by simp presburger
  then show "bit (take_bit 8 (take_bit 8 w) OR push_bit 8 (take_bit 8 (take_bit 8 (drop_bit 8 w)) OR
      push_bit 8 (take_bit 8 (take_bit 8 (drop_bit 16 w)) OR
      push_bit 8 (take_bit 8 (take_bit 8 (drop_bit 24 w)) OR push_bit 8 0)))) n = bit w n"
    by (elim disjE exE) (auto simp: bit_or_iff bit_push_bit_iff bit_take_bit_iff bit_drop_bit_eq)
qed

lemma inet_addr_dotted:
  assumes "length g = 4"
  shows "inet_addr g (dotted a b c d @ NUL # r) = Ok (bytes_le [of_nat a, of_nat b, of_nat c, of_nat d])"
  using assms by (simp add: inet_addr_def sscanf_dotted)


definition ip_text :: "u32 \<Rightarrow> string" where
  "ip_text x = dotted (unat (x AND 0xFF)) (unat (drop_bit 8 x AND 0xFF)) (unat (drop_bit 16 x AND 0xFF))
     (unat (drop_bit 24 x AND 0xFF))"

lemma decimal_byte: "length (decimal (unat (w AND 0xFF :: u32))) \<le> 3"
  using decimal_length [of "unat (w AND 0xFF)" 2] byte_and [of w] by simp

lemma ip_text_length: "length (ip_text x) < 16"
  using decimal_byte [of x] decimal_byte [of "drop_bit 8 x"] decimal_byte [of "drop_bit 16 x"]
    decimal_byte [of "drop_bit 24 x"]
  by (simp add: ip_text_def dotted_def)

lemma ip_text_printed:
  "vsnprintf_loop ''%d.%d.%d.%d'' spec_zero
     [AInt (x AND 0xFF), AInt (drop_bit 8 x AND 0xFF), AInt (drop_bit 16 x AND 0xFF),
      AInt (drop_bit 24 x AND 0xFF)] = Ok (ip_text x)"
  by (simp add: ip_text_def dotted_def print_int_byte)

lemma inet_ntoa_eq:
  assumes "mem k (mem_no k)" "length str = 16"
  shows "inet_ntoa x str k =
    Ok (Some (ip_text x @ NUL # replicate (15 - length (ip_text x)) NUL), k\<lparr>mem_no := Suc (mem_no k)\<rparr>)"
  using assms ip_text_length [of x] sprintf_Ok [OF ip_text_printed [of x], of "replicate 16 NUL"]
  by (simp add: inet_ntoa_def kmem_alloc_def)

text \<open>
  C22.  \<open>inet_addr\<close> reads back exactly the address that \<open>inet_ntoa\<close> printed, for all
  addresses, and the text always fits the 16 bytes allocated for it.
\<close>

theorem inet_roundtrip:
  assumes "mem k (mem_no k)" "length str = 16" "length g = 4"
  shows "\<exists>s k'. inet_ntoa x str k = Ok (Some s, k') \<and> inet_addr g s = Ok x"
  using inet_ntoa_eq [OF assms(1,2)] bytes_le_parts [of x]
  by (simp add: ip_text_def inet_addr_dotted [OF assms(3)])

theorem inet_roundtrip_witness:
  "\<exists>s k'. inet_ntoa 0x867CA8C0 (replicate 16 NUL) kernel0 = Ok (Some s, k') \<and>
    inet_addr [1, 2, 3, 4] s = Ok 0x867CA8C0"
  by (rule inet_roundtrip) (simp_all add: kernel0_def)

end
