(* ===== verification/Clients.thy ===== *)
theory Clients
  imports Wire Ksocket
begin

unbundle bit_operations_syntax

text \<open>
  The four clients of wjfs: \<open>wjfs_client_create\<close>, \<open>wjfs_client_remove\<close>,
  \<open>wjfs_client_write\<close> and \<open>wjfs_client_read\<close>.  Each opens a connection to the peer,
  prints a request, sends it and closes the connection; the reading one waits for the
  answer before it closes.

  The uninitialised locals of a client are an argument: its buffer of 1024 bytes, and the
  four numbers of \<open>inet_addr\<close>.  The text that \<open>inet_ntoa\<close> makes is only printed; it is
  allocated and freed.
\<close>

section \<open>Opening the connection\<close>

record client_frame =
  cl_buf :: bytes
  cl_abcd :: "u32 list"

definition client_frame_ok :: "client_frame \<Rightarrow> bool" where
  "client_frame_ok cf \<longleftrightarrow> length (cl_buf cf) = 1024 \<and> length (cl_abcd cf) = 4"

definition htons :: "u16 \<Rightarrow> u16" where
  "htons x = push_bit 8 x OR drop_bit 8 x"

definition test_port :: u16 where
  "test_port = 8078"

definition test_ip :: bytes where
  "test_ip = ''192.168.124.134'' @ [NUL]"

text \<open>
  The part that all clients share: the socket, or the value -1 that the client returns.  A
  socket whose connection fails is not closed.
\<close>

definition client_open :: "client_frame \<Rightarrow> bytes \<Rightarrow> u16 \<Rightarrow> kernel \<Rightarrow> ((int + addr) \<times> kernel) res" where
  "client_open cf ip port k =
     bindR (inet_addr (cl_abcd cf) ip) (\<lambda>s_addr.
       case ksocket k of
         (None, k) \<Rightarrow> Ok (Inl (- 1), k)
       | (Some s, k) \<Rightarrow>
           bindR (kconnect (Some s) s_addr (htons port) k) (\<lambda>(ret, k).
             if ret < 0 then Ok (Inl (- 1), k)
             else bindR (inet_ntoa s_addr (replicate 16 NUL) k) (\<lambda>(tmp, k). Ok (Inr s, k))))"

section \<open>The clients\<close>

definition wjfs_client_create ::
  "client_frame \<Rightarrow> bytes \<Rightarrow> u16 \<Rightarrow> u32 \<Rightarrow> bytes \<Rightarrow> u32 \<Rightarrow> bytes \<Rightarrow> u32 \<Rightarrow> kernel \<Rightarrow> (int \<times> kernel) res" where
  "wjfs_client_create cf ip port ino name ino_parent name_parent mode k =
     bindR (client_open cf ip port k) (\<lambda>(conn, k).
       case conn of
         Inl e \<Rightarrow> Ok (e, k)
       | Inr s \<Rightarrow>
           bindR (create_message (cl_buf cf) ino name ino_parent name_parent mode) (\<lambda>(len, buf).
           bindR (ksend (Some s) buf len k) (\<lambda>(_, k).
           bindR (kclose (Some s) k) (\<lambda>(_, k). Ok (0, k)))))"

definition wjfs_client_remove ::
  "client_frame \<Rightarrow> bytes \<Rightarrow> u16 \<Rightarrow> u32 \<Rightarrow> bytes \<Rightarrow> u32 \<Rightarrow> bytes \<Rightarrow> u32 \<Rightarrow> kernel \<Rightarrow> (int \<times> kernel) res" where
  "wjfs_client_remove cf ip port ino name ino_parent name_parent mode k =
     bindR (client_open cf ip port k) (\<lambda>(conn, k).
       case conn of
         Inl e \<Rightarrow> Ok (e, k)
       | Inr s \<Rightarrow>
           bindR (remove_message (cl_buf cf) ino name ino_parent name_parent mode) (\<lambda>(len, buf).
           bindR (ksend (Some s) buf len k) (\<lambda>(_, k).
           bindR (kclose (Some s) k) (\<lambda>(_, k). Ok (0, k)))))"

text \<open>The writing and the reading client translate the local inode numbers first.\<close>

definition wjfs_client_write ::
  "client_frame \<Rightarrow> bytes \<Rightarrow> u16 \<Rightarrow> u32 \<Rightarrow> bytes \<Rightarrow> u32 \<Rightarrow> bytes \<Rightarrow> bytes \<Rightarrow> kernel \<Rightarrow> (int \<times> kernel) res" where
  "wjfs_client_write cf ip port ino name ino_parent name_parent message k =
     bindR (client_open cf ip port k) (\<lambda>(conn, k).
       case conn of
         Inl e \<Rightarrow> Ok (e, k)
       | Inr s \<Rightarrow>
           (case table_lookup (reg_ino_mapp_table k) ino ino_parent of
              (my_rdma_ino, my_rdma_parent_ino) \<Rightarrow>
                bindR (write_message (cl_buf cf) my_rdma_ino name my_rdma_parent_ino name_parent message)
                  (\<lambda>(len, buf).
                bindR (ksend (Some s) buf len k) (\<lambda>(_, k).
                bindR (kclose (Some s) k) (\<lambda>(_, k). Ok (0, k))))))"

definition wjfs_client_read ::
  "client_frame \<Rightarrow> bytes \<Rightarrow> u16 \<Rightarrow> u32 \<Rightarrow> bytes \<Rightarrow> u32 \<Rightarrow> bytes \<Rightarrow> bytes \<Rightarrow> kernel \<Rightarrow>
   (int \<times> bytes \<times> kernel) res" where
  "wjfs_client_read cf ip port ino name ino_parent name_parent message k =
     bindR (client_open cf ip port k) (\<lambda>(conn, k).
       case conn of
         Inl e \<Rightarrow> Ok (e, message, k)
       | Inr s \<Rightarrow>
           (case table_lookup (reg_ino_mapp_table k) ino ino_parent of
              (my_rdma_ino, my_rdma_parent_ino) \<Rightarrow>
                bindR (read_message (cl_buf cf) my_rdma_ino name my_rdma_parent_ino name_parent) (\<lambda>(len, buf).
                bindR (ksend (Some s) buf len k) (\<lambda>(_, k).
                bindR (memset message NUL 1024) (\<lambda>message.
                bindR (krecv (Some s) message 1024 k) (\<lambda>(_, message, k).
                bindR (kclose (Some s) k) (\<lambda>(_, k). Ok (0, message, k))))))))"

section \<open>What a client does to the machine\<close>

definition test_addr :: u32 where
  "test_addr = 0x867CA8C0"

lemma inet_addr_test_ip: "length g = 4 \<Longrightarrow> inet_addr g test_ip = Ok test_addr"
proof -
  assume "length g = 4"
  have "test_ip = dotted 192 168 124 134 @ NUL # []"
    unfolding test_ip_def dotted_def by code_simp
  moreover have "bytes_le [of_nat 192, of_nat 168, of_nat 124, of_nat 134] = test_addr"
    by (simp add: test_addr_def)
  ultimately show ?thesis
    using inet_addr_dotted [OF \<open>length g = 4\<close>, of 192 168 124 134 "[]"] by simp
qed

text \<open>
  The exchange that carries the text \<open>t\<close> to the peer: the value returned and the state
  left behind.  When no socket can be made nothing is sent; when the connection fails
  nothing is sent and the socket stays allocated; otherwise the text is sent whole and the
  socket is released.
\<close>

definition exchange :: "string \<Rightarrow> kernel \<Rightarrow> int \<times> kernel" where
  "exchange t k =
     (let n = net_no k; s = length (socks k); conn = NConnect s test_addr (htons test_port)
      in if net_ret k n < 0
         then (- 1, k\<lparr>net_no := Suc n, net_log := NCreate # net_log k\<rparr>)
         else if net_ret k (Suc n) < 0
         then (- 1, k\<lparr>net_no := n + 2, net_log := conn # NCreate # net_log k, socks := socks k @ [Some ()]\<rparr>)
         else (0, k\<lparr>net_no := n + 4, net_log := NRelease s # NSend s t # conn # NCreate # net_log k,
                    socks := socks k @ [None], mem_no := Suc (mem_no k)\<rparr>))"

lemma inet_ntoa_any:
  "\<exists>r. inet_ntoa x (replicate 16 NUL) k = Ok (r, k\<lparr>mem_no := Suc (mem_no k)\<rparr>)"
  using inet_ntoa_eq [of k "replicate 16 NUL" x]
  by (cases "mem k (mem_no k)") (auto simp: inet_ntoa_def kmem_alloc_def)

lemma client_open_eq:
  assumes "client_frame_ok cf"
  shows "client_open cf test_ip test_port k =
    (let n = net_no k; s = length (socks k); conn = NConnect s test_addr (htons test_port)
     in if net_ret k n < 0
        then Ok (Inl (- 1), k\<lparr>net_no := Suc n, net_log := NCreate # net_log k\<rparr>)
        else if net_ret k (Suc n) < 0
        then Ok (Inl (- 1), k\<lparr>net_no := n + 2, net_log := conn # NCreate # net_log k,
                              socks := socks k @ [Some ()]\<rparr>)
        else Ok (Inr s, k\<lparr>net_no := n + 2, net_log := conn # NCreate # net_log k,
                          socks := socks k @ [Some ()], mem_no := Suc (mem_no k)\<rparr>))"
proof -
  let ?s = "length (socks k)"
  let ?k = "k\<lparr>socks := socks k @ [Some ()], net_no := net_no k + 2,
    net_log := NConnect ?s test_addr (htons test_port) # NCreate # net_log k\<rparr>"
  obtain r where "inet_ntoa test_addr (replicate 16 NUL) ?k = Ok (r, ?k\<lparr>mem_no := Suc (mem_no ?k)\<rparr>)"
    using inet_ntoa_any by blast
  then show ?thesis
    using assms inet_addr_test_ip [of "cl_abcd cf"]
    by (simp add: client_open_def client_frame_ok_def ksocket_def sock_create_def net_call_ret_def
        net_enter_def kconnect_def sock_at_def sget_def Let_def)
qed

text \<open>Sending a whole text and closing, on the socket just opened.\<close>

lemma send_close_eq:
  assumes "sent t = Ok (len, buf)" "socks k = ss @ [Some ()]" "s = length ss"
  shows "bindR (ksend (Some s) buf len k) (\<lambda>(_, k). bindR (kclose (Some s) k) (\<lambda>(_, k). Ok (0, k))) =
    Ok (0, k\<lparr>net_no := net_no k + 2, net_log := NRelease s # NSend s t # net_log k, socks := ss @ [None]\<rparr>)"
  using assms
  by (auto simp: sent_def ksend_def kclose_def sock_at_def sget_def net_call_ret_def net_enter_def
      sock_release_def Let_def)

lemma client_create_eq:
  assumes "client_frame_ok cf" "holds name s" "holds name_parent p" "length s < 256" "length p < 256"
  shows "wjfs_client_create cf test_ip test_port ino name ino_parent name_parent mode k =
    Ok (exchange (blanks (entry_words ''CR'' ino s ino_parent p) @ mode_word mode) k)"
proof -
  let ?t = "blanks (entry_words ''CR'' ino s ino_parent p) @ mode_word mode"
  obtain len buf where sent: "sent ?t = Ok (len, buf)"
    by (simp add: sent_def)
  then have msg: "create_message (cl_buf cf) ino name ino_parent name_parent mode = Ok (len, buf)"
    using assms create_message_text [OF _ assms(2-5)] by (simp add: client_frame_ok_def)
  show ?thesis
    unfolding wjfs_client_create_def client_open_eq [OF assms(1)] exchange_def
    by (auto simp: Let_def msg send_close_eq [OF sent])
qed

lemma client_remove_eq:
  assumes "client_frame_ok cf" "holds name s" "holds name_parent p" "length s < 256" "length p < 256"
  shows "wjfs_client_remove cf test_ip test_port ino name ino_parent name_parent mode k =
    Ok (exchange (blanks (entry_words ''RM'' ino s ino_parent p) @ mode_word mode) k)"
proof -
  let ?t = "blanks (entry_words ''RM'' ino s ino_parent p) @ mode_word mode"
  obtain len buf where sent: "sent ?t = Ok (len, buf)"
    by (simp add: sent_def)
  then have msg: "remove_message (cl_buf cf) ino name ino_parent name_parent mode = Ok (len, buf)"
    using assms remove_message_text [OF _ assms(2-5)] by (simp add: client_frame_ok_def)
  show ?thesis
    unfolding wjfs_client_remove_def client_open_eq [OF assms(1)] exchange_def
    by (auto simp: Let_def msg send_close_eq [OF sent])
qed

lemma client_write_eq:
  assumes "client_frame_ok cf" "holds name s" "holds name_parent p" "holds message m"
    and "length s < 256" "length p < 256" "length m < 2 ^ 31"
    and "table_lookup (reg_ino_mapp_table k) ino ino_parent = (r, rp)"
    and "length (blanks (entry_words ''WR'' r s rp p) @ m) < 1024"
  shows "wjfs_client_write cf test_ip test_port ino name ino_parent name_parent message k =
    Ok (exchange (blanks (entry_words ''WR'' r s rp p) @ m) k)"
proof -
  let ?t = "blanks (entry_words ''WR'' r s rp p) @ m"
  obtain len buf where sent: "sent ?t = Ok (len, buf)"
    by (simp add: sent_def)
  then have msg: "write_message (cl_buf cf) r name rp name_parent message = Ok (len, buf)"
    using assms write_message_text [OF _ assms(2-7), of "cl_buf cf" r rp]
    by (simp add: client_frame_ok_def Let_def)
  show ?thesis
    unfolding wjfs_client_write_def client_open_eq [OF assms(1)] exchange_def
    by (auto simp: Let_def msg send_close_eq [OF sent] assms(8))
qed

text \<open>
  The reading client also receives: on success \<open>message\<close> holds what the peer answered, cut
  at 1024 bytes and followed by zeros.
\<close>

definition answer :: "kernel \<Rightarrow> bytes" where
  "answer k = (let n = net_no k + 3; got = take (min 1024 (nat (net_ret k n))) (net_in k n)
     in got @ replicate (1024 - length got) NUL)"

definition ask :: "string \<Rightarrow> bytes \<Rightarrow> kernel \<Rightarrow> int \<times> bytes \<times> kernel" where
  "ask t message k =
     (let n = net_no k; s = length (socks k); conn = NConnect s test_addr (htons test_port)
      in if net_ret k n < 0
         then (- 1, message, k\<lparr>net_no := Suc n, net_log := NCreate # net_log k\<rparr>)
         else if net_ret k (Suc n) < 0
         then (- 1, message, k\<lparr>net_no := n + 2, net_log := conn # NCreate # net_log k,
                               socks := socks k @ [Some ()]\<rparr>)
         else (0, answer k,
               k\<lparr>net_no := n + 5,
                 net_log := NRelease s # NRecv s 1024 # NSend s t # conn # NCreate # net_log k,
                 socks := socks k @ [None], mem_no := Suc (mem_no k)\<rparr>))"

lemma send_recv_close_eq:
  assumes "sent t = Ok (len, buf)" "socks k = ss @ [Some ()]" "s = length ss" "length message = 1024"
  shows "bindR (ksend (Some s) buf len k) (\<lambda>(_, k). bindR (memset message NUL 1024) (\<lambda>message.
      bindR (krecv (Some s) message 1024 k) (\<lambda>(_, message, k).
      bindR (kclose (Some s) k) (\<lambda>(_, k). Ok (0, message, k))))) =
    (let n = Suc (net_no k); got = take (min 1024 (nat (net_ret k n))) (net_in k n)
     in Ok (0, got @ replicate (1024 - length got) NUL,
        k\<lparr>net_no := net_no k + 3, net_log := NRelease s # NRecv s 1024 # NSend s t # net_log k,
          socks := ss @ [None]\<rparr>))"
proof -
  have "memset message NUL 1024 = Ok (replicate 1024 NUL)"
    using assms(4) by simp
  moreover have "length (take (min 1024 (nat v)) b) \<le> length (replicate 1024 NUL)" for v and b :: bytes
    by simp
  ultimately show ?thesis
    using assms(1-3)
    by (auto simp: sent_def ksend_def kclose_def krecv_def sock_at_def sget_def net_call_ret_def net_enter_def
        sock_release_def Let_def drop_replicate simp del: length_take)
qed

lemma client_read_eq:
  assumes "client_frame_ok cf" "holds name s" "holds name_parent p" "length s < 256" "length p < 256"
    and "table_lookup (reg_ino_mapp_table k) ino ino_parent = (r, rp)" "length message = 1024"
  shows "wjfs_client_read cf test_ip test_port ino name ino_parent name_parent message k =
    Ok (ask (blanks [''RD'', print_int r, s, print_int rp] @ p) message k)"
proof -
  let ?t = "blanks [''RD'', print_int r, s, print_int rp] @ p"
  obtain len buf where sent: "sent ?t = Ok (len, buf)"
    by (simp add: sent_def)
  then have msg: "read_message (cl_buf cf) r name rp name_parent = Ok (len, buf)"
    using assms read_message_text [OF _ assms(2-5), of "cl_buf cf" r rp] by (simp add: client_frame_ok_def)
  show ?thesis
    unfolding wjfs_client_read_def client_open_eq [OF assms(1)] ask_def answer_def
    by (auto simp: Let_def msg send_recv_close_eq [OF sent _ _ assms(7)] assms(6) numeral_3_eq_3)
qed


section \<open>Properties\<close>

text \<open>Everything but the sockets, the network and the allocator's counter stays as it is.\<close>

definition same_fs :: "kernel \<Rightarrow> kernel \<Rightarrow> bool" where
  "same_fs k k' \<longleftrightarrow> k' = k\<lparr>mem_no := mem_no k', socks := socks k', net_no := net_no k', net_log := net_log k'\<rparr>"

lemma same_fs_exchange: "same_fs k (snd (exchange t k))"
  by (simp add: same_fs_def exchange_def Let_def)

lemma same_fs_fields:
  assumes "same_fs k k'"
  shows "inodes k' = inodes k" "dents k' = dents k" "dhash k' = dhash k" "last_ino k' = last_ino k"
    "clock k' = clock k" "reg_ino_mapp_table k' = reg_ino_mapp_table k" "rroot_dentry k' = rroot_dentry k"
  by (subst assms [unfolded same_fs_def], simp)+

definition cf0 :: client_frame where
  "cf0 = \<lparr>cl_buf = replicate 1024 (CHR ''x''), cl_abcd = [1, 2, 3, 4]\<rparr>"

lemma cf0_ok: "client_frame_ok cf0"
  by (simp add: cf0_def client_frame_ok_def)

text \<open>
  C24.  \<open>wjfs_client_create\<close> always returns and leaves the file system alone.  If it returns
  0 it has sent exactly one message, the create request, and released its socket.  If the
  connection fails it returns -1, has sent nothing, and its socket stays allocated.
\<close>

theorem client_create_outcome:
  assumes "client_frame_ok cf" "holds name s" "holds name_parent p" "length s < 256" "length p < 256"
  shows "\<exists>r k'. wjfs_client_create cf test_ip test_port ino name ino_parent name_parent mode k = Ok (r, k') \<and>
    same_fs k k' \<and>
    (let n = net_no k; sk = length (socks k); conn = NConnect sk test_addr (htons test_port);
         text = blanks (entry_words ''CR'' ino s ino_parent p) @ mode_word mode
     in if net_ret k n < 0 then r = - 1 \<and> net_log k' = NCreate # net_log k \<and> socks k' = socks k
        else if net_ret k (Suc n) < 0
        then r = - 1 \<and> net_log k' = conn # NCreate # net_log k \<and> socks k' = socks k @ [Some ()]
        else r = 0 \<and> net_log k' = NRelease sk # NSend sk text # conn # NCreate # net_log k \<and>
          socks k' = socks k @ [None])"
proof -
  let ?text = "blanks (entry_words ''CR'' ino s ino_parent p) @ mode_word mode"
  have "wjfs_client_create cf test_ip test_port ino name ino_parent name_parent mode k =
      Ok (fst (exchange ?text k), snd (exchange ?text k))"
    using client_create_eq [OF assms] by simp
  then show ?thesis
    using same_fs_exchange [of k ?text] by (auto simp: exchange_def Let_def)
qed

theorem client_create_outcome_witness:
  "\<exists>r k'. wjfs_client_create cf0 test_ip test_port 7 (''a'' @ [NUL]) 3 (''dir'' @ [NUL]) 1 kernel0 = Ok (r, k') \<and>
    same_fs kernel0 k' \<and>
    (let n = net_no kernel0; sk = length (socks kernel0); conn = NConnect sk test_addr (htons test_port);
         text = blanks (entry_words ''CR'' 7 ''a'' 3 ''dir'') @ mode_word 1
     in if net_ret kernel0 n < 0
        then r = - 1 \<and> net_log k' = NCreate # net_log kernel0 \<and> socks k' = socks kernel0
        else if net_ret kernel0 (Suc n) < 0
        then r = - 1 \<and> net_log k' = conn # NCreate # net_log kernel0 \<and> socks k' = socks kernel0 @ [Some ()]
        else r = 0 \<and> net_log k' = NRelease sk # NSend sk text # conn # NCreate # net_log kernel0 \<and>
          socks k' = socks kernel0 @ [None])"
  by (rule client_create_outcome) (simp_all add: cf0_ok holdsI)

end
