(* ===== verification/Namei.thy ===== *)
theory Namei
  imports Dcache
begin

unbundle bit_operations_syntax

text \<open>
  Permissions and lookup of \<open>fs/namei.c\<close>, with the lookup method of wjfs.  Errors are the
  negative numbers of \<open>errno.h\<close>; a pointer that may be an \<open>ERR_PTR\<close> is a sum, the error
  on the left.  The hooks of security modules and of the device cgroup, which let
  everything pass when they are not configured, are not modelled, nor are ACLs, which wjfs
  does not have.
\<close>

section \<open>Error numbers\<close>

definition EPERM :: int where "EPERM = 1"
definition ENOENT :: int where "ENOENT = 2"
definition ENOMEM :: int where "ENOMEM = 12"
definition EACCES :: int where "EACCES = 13"
definition EBUSY :: int where "EBUSY = 16"
definition EEXIST :: int where "EEXIST = 17"
definition ENOTDIR :: int where "ENOTDIR = 20"
definition EISDIR :: int where "EISDIR = 21"
definition EINVAL :: int where "EINVAL = 22"
definition ENOSPC :: int where "ENOSPC = 28"
definition EROFS :: int where "EROFS = 30"
definition ENAMETOOLONG :: int where "ENAMETOOLONG = 36"
definition ENOTEMPTY :: int where "ENOTEMPTY = 39"

lemmas errno_defs = EPERM_def ENOENT_def ENOMEM_def EACCES_def EBUSY_def EEXIST_def ENOTDIR_def
  EISDIR_def EINVAL_def ENOSPC_def EROFS_def ENAMETOOLONG_def ENOTEMPTY_def

definition NAME_MAX :: nat where
  "NAME_MAX = 255"

section \<open>Permissions\<close>

definition MAY_EXEC :: u16 where "MAY_EXEC = 1"
definition MAY_WRITE :: u16 where "MAY_WRITE = 2"
definition MAY_READ :: u16 where "MAY_READ = 4"

definition acl_permission_check :: "kernel \<Rightarrow> inode \<Rightarrow> u16 \<Rightarrow> int" where
  "acl_permission_check k x msk =
     (let msk = msk AND (MAY_READ OR MAY_WRITE OR MAY_EXEC);
          mode = (if fsuid k = i_uid x then drop_bit 6 (i_mode x)
                  else if i_gid x = fsgid k \<or> i_gid x \<in> set (groups k) then drop_bit 3 (i_mode x)
                  else i_mode x)
      in if msk AND NOT mode = 0 then 0 else - EACCES)"

definition execute_ok :: "inode \<Rightarrow> bool" where
  "execute_ok x \<longleftrightarrow> i_mode x AND 0x49 \<noteq> 0 \<or> S_ISDIR (i_mode x)"

definition generic_permission :: "kernel \<Rightarrow> inode \<Rightarrow> u16 \<Rightarrow> int" where
  "generic_permission k x msk =
     (let ret = acl_permission_check k x msk
      in if ret \<noteq> - EACCES then ret
         else if (msk AND MAY_EXEC = 0 \<or> execute_ok x) \<and> cap_dac_override k then 0
         else
           let msk = msk AND (MAY_READ OR MAY_WRITE OR MAY_EXEC)
           in if (msk = MAY_READ \<or> (S_ISDIR (i_mode x) \<and> msk AND MAY_WRITE = 0)) \<and> cap_dac_read_search k
              then 0 else - EACCES)"

definition inode_permission :: "kernel \<Rightarrow> addr \<Rightarrow> u16 \<Rightarrow> int res" where
  "inode_permission k i msk =
     bindR (inode_at k i) (\<lambda>x.
       if msk AND MAY_WRITE \<noteq> 0 \<and> sb_rdonly k \<and>
          (i_mode x AND S_IFMT = S_IFREG \<or> S_ISDIR (i_mode x) \<or> i_mode x AND S_IFMT = S_IFLNK)
       then Ok (- EROFS)
       else Ok (generic_permission k x msk))"

section \<open>Lookup\<close>

text \<open>\<open>wjfs_lookup\<close> never finds anything: it makes the new dentry negative and hashes it.\<close>

definition wjfs_lookup :: "addr \<Rightarrow> addr \<Rightarrow> kernel \<Rightarrow> (int option \<times> kernel) res" where
  "wjfs_lookup dir d k =
     bindR (dentry_at k d) (\<lambda>x.
     bindR (strcmp (d_name x) (''a'' @ [NUL])) (\<lambda>c.
       let k = (if c = 0 then k\<lparr>a_dentry := Some d\<rparr> else k)
       in if d_len x > NAME_MAX then Ok (Some (- ENAMETOOLONG), k)
          else bindR (upd_dentry d (\<lambda>x. x\<lparr>d_op_delete := True\<rparr>) k) (\<lambda>k.
               bindR (d_add d None k) (\<lambda>k. Ok (None, k)))))"

text \<open>\<open>inode->i_op->lookup(...)\<close>: only the directories of wjfs have the method.\<close>

definition i_op_lookup :: "addr \<Rightarrow> addr \<Rightarrow> kernel \<Rightarrow> (int option \<times> kernel) res" where
  "i_op_lookup dir d k =
     bindR (inode_at k dir) (\<lambda>x. if i_ops x = DirOps then wjfs_lookup dir d k else Fault NullDeref)"

definition lookup_hash :: "bytes \<Rightarrow> nat \<Rightarrow> addr \<Rightarrow> kernel \<Rightarrow> ((int + addr) \<times> kernel) res" where
  "lookup_hash name len base k =
     bindR (d_inode_of k base) (\<lambda>dir.
     bindR (d_lookup base name len k) (\<lambda>(found, k).
       case found of
         Some d \<Rightarrow> Ok (Inr d, k)
       | None \<Rightarrow>
           bindR (inode_at k dir) (\<lambda>x.
             if i_dead x then Ok (Inl (- ENOENT), k)
             else bindR (d_alloc (Some base) name len k) (\<lambda>(new, k).
               case new of
                 None \<Rightarrow> Ok (Inl (- ENOMEM), k)
               | Some d \<Rightarrow>
                   bindR (i_op_lookup dir d k) (\<lambda>(err, k).
                     case err of
                       None \<Rightarrow> Ok (Inr d, k)
                     | Some e \<Rightarrow> bindR (dput (Some d) k) (\<lambda>k. Ok (Inl e, k)))))))"

text \<open>The check of the characters in \<open>__lookup_one_len\<close>; the hash it computes is not used.\<close>

fun name_chars_ok :: "bytes \<Rightarrow> nat \<Rightarrow> bool res" where
  "name_chars_ok name 0 = Ok True"
| "name_chars_ok [] (Suc n) = Fault OutOfBounds"
| "name_chars_ok (c # name) (Suc n) =
     (if c = CHR ''/'' \<or> c = NUL then Ok False else name_chars_ok name n)"

definition lookup_one_len :: "bytes \<Rightarrow> addr \<Rightarrow> nat \<Rightarrow> kernel \<Rightarrow> ((int + addr) \<times> kernel) res" where
  "lookup_one_len name base len k =
     (if len = 0 then Ok (Inl (- EACCES), k)
      else bindR (name_chars_ok name len) (\<lambda>good.
        if \<not> good then Ok (Inl (- EACCES), k)
        else bindR (d_inode_of k base) (\<lambda>dir.
             bindR (inode_permission k dir MAY_EXEC) (\<lambda>err.
               if err \<noteq> 0 then Ok (Inl err, k) else lookup_hash name len base k))))"

end
