(* ===== verification/DentryTree.thy ===== *)
theory DentryTree
  imports Dcache
begin

text \<open>
  The shape of the dentry cache: the invariant \<open>tree_ok\<close>, which says that parents and
  lists of children agree and that the parent pointers lead to a root, and what follows
  from it for walks that go down the tree.
\<close>

section \<open>The invariant\<close>

definition children_ok :: "kernel \<Rightarrow> bool" where
  "children_ok k \<longleftrightarrow> (\<forall>p x. dobj k p = Some x \<longrightarrow> distinct (d_subdirs x) \<and>
     (\<forall>c \<in> set (d_subdirs x). c \<noteq> p \<and> map_option d_parent (dobj k c) = Some p))"

definition parents_ok :: "kernel \<Rightarrow> bool" where
  "parents_ok k \<longleftrightarrow> (\<forall>c y. dobj k c = Some y \<longrightarrow>
     (\<exists>x. dobj k (d_parent y) = Some x \<and> (d_parent y \<noteq> c \<longrightarrow> c \<in> set (d_subdirs x))))"

definition ranked :: "(addr \<Rightarrow> nat) \<Rightarrow> kernel \<Rightarrow> bool" where
  "ranked h k \<longleftrightarrow> (\<forall>c y. dobj k c = Some y \<and> d_parent y \<noteq> c \<longrightarrow> h (d_parent y) < h c)"

definition inodes_ok :: "kernel \<Rightarrow> bool" where
  "inodes_ok k \<longleftrightarrow> (\<forall>d x i. dobj k d = Some x \<and> d_inode x = Some i \<longrightarrow> iobj k i \<noteq> None)"

definition names_ok :: "kernel \<Rightarrow> bool" where
  "names_ok k \<longleftrightarrow> (\<forall>d x. dobj k d = Some x \<longrightarrow> holds (d_name x) (cstring (d_name x)) \<and>
     d_len x = length (cstring (d_name x)))"

definition hash_ok :: "kernel \<Rightarrow> bool" where
  "hash_ok k \<longleftrightarrow> distinct (dhash k) \<and> (\<forall>d \<in> set (dhash k). dobj k d \<noteq> None)"

definition tree_ok :: "kernel \<Rightarrow> bool" where
  "tree_ok k \<longleftrightarrow> children_ok k \<and> parents_ok k \<and> (\<exists>h. ranked h k) \<and> inodes_ok k \<and> names_ok k \<and>
     hash_ok k"

lemma tree_okD:
  assumes "tree_ok k"
  shows "children_ok k" "parents_ok k" "\<exists>h. ranked h k" "inodes_ok k" "names_ok k" "hash_ok k"
  using assms by (auto simp: tree_ok_def)

lemma inodes_okD:
  "inodes_ok k \<Longrightarrow> dobj k d = Some x \<Longrightarrow> d_inode x = Some i \<Longrightarrow> \<exists>z. iobj k i = Some z"
  by (auto simp: inodes_ok_def)

lemma names_okD:
  "names_ok k \<Longrightarrow> dobj k d = Some x \<Longrightarrow> holds (d_name x) (cstring (d_name x)) \<and>
    d_len x = length (cstring (d_name x))"
  by (auto simp: names_ok_def)

lemma children_okD:
  assumes "children_ok k" "dobj k p = Some x"
  shows "distinct (d_subdirs x)"
    and "c \<in> set (d_subdirs x) \<Longrightarrow> c \<noteq> p \<and> (\<exists>y. dobj k c = Some y \<and> d_parent y = p)"
  using assms by (fastforce simp: children_ok_def)+

lemma parents_okD:
  assumes "parents_ok k" "dobj k c = Some y"
  shows "\<exists>x. dobj k (d_parent y) = Some x \<and> (d_parent y \<noteq> c \<longrightarrow> c \<in> set (d_subdirs x))"
  using assms by (auto simp: parents_ok_def)

section \<open>Descendants\<close>

definition child_rel :: "kernel \<Rightarrow> (addr \<times> addr) set" where
  "child_rel k = {(p, c). \<exists>x. dobj k p = Some x \<and> c \<in> set (d_subdirs x)}"

definition desc :: "kernel \<Rightarrow> addr \<Rightarrow> addr set" where
  "desc k d = {c. (d, c) \<in> (child_rel k)\<^sup>+}"

lemma child_rank:
  "children_ok k \<Longrightarrow> ranked h k \<Longrightarrow> (p, c) \<in> child_rel k \<Longrightarrow> h p < h c"
  by (fastforce simp: child_rel_def children_ok_def ranked_def)

lemma desc_rank:
  assumes "children_ok k" "ranked h k" "c \<in> desc k d"
  shows "h d < h c"
proof -
  have "(d, c) \<in> (child_rel k)\<^sup>+"
    using assms(3) by (simp add: desc_def)
  then show ?thesis
    by induction (use child_rank [OF assms(1,2)] less_trans in blast)+
qed

lemma desc_dom: "children_ok k \<Longrightarrow> desc k d \<subseteq> {..< length (dents k)}"
proof
  fix c assume k: "children_ok k" and "c \<in> desc k d"
  then have "(d, c) \<in> (child_rel k)\<^sup>+"
    by (simp add: desc_def)
  then obtain p where "(p, c) \<in> child_rel k"
    by (meson tranclE)
  then show "c \<in> {..< length (dents k)}"
    using k obj_Some_length [of "dents k" c] by (fastforce simp: child_rel_def children_ok_def)
qed

lemma desc_finite: "children_ok k \<Longrightarrow> finite (desc k d)"
  using desc_dom finite_subset by blast

lemma desc_card_le: "children_ok k \<Longrightarrow> card (desc k d) \<le> length (dents k)"
  using card_mono [OF _ desc_dom] by fastforce

lemma desc_child:
  assumes "children_ok k" "\<exists>h. ranked h k" "dobj k d = Some x" "c \<in> set (d_subdirs x)"
  shows "card (desc k c) < card (desc k d)"
proof (intro psubset_card_mono desc_finite assms(1) psubsetI)
  have dc: "(d, c) \<in> child_rel k"
    using assms(3,4) by (auto simp: child_rel_def)
  then show "desc k c \<subseteq> desc k d"
    by (auto simp: desc_def intro: trancl_into_trancl2)
  have "c \<in> desc k d"
    using dc by (auto simp: desc_def)
  moreover have "c \<notin> desc k c"
    using assms(1,2) desc_rank by (metis less_irrefl)
  ultimately show "desc k c \<noteq> desc k d"
    by blast
qed

section \<open>Reference counts\<close>

text \<open>
  Every child holds a reference to its parent and every positive dentry one to its inode;
  the counts are at least that high.
\<close>

definition refs_ok :: "kernel \<Rightarrow> bool" where
  "refs_ok k \<longleftrightarrow> (\<forall>d x. dobj k d = Some x \<longrightarrow> length (d_subdirs x) \<le> unat (d_count x))"

definition users :: "kernel \<Rightarrow> addr \<Rightarrow> addr set" where
  "users k i = {d. Option.bind (dobj k d) d_inode = Some i}"

definition irefs_ok :: "kernel \<Rightarrow> bool" where
  "irefs_ok k \<longleftrightarrow> (\<forall>i z. iobj k i = Some z \<longrightarrow> card (users k i) \<le> unat (i_count z))"

definition fs_ok :: "kernel \<Rightarrow> bool" where
  "fs_ok k \<longleftrightarrow> tree_ok k \<and> refs_ok k \<and> irefs_ok k"

lemma users_finite: "finite (users k i)"
proof (rule finite_subset)
  show "users k i \<subseteq> {..< length (dents k)}"
    by (auto simp: users_def bind_eq_Some_conv dest: obj_Some_length)
qed simp

lemma usersI: "dobj k d = Some x \<Longrightarrow> d_inode x = Some i \<Longrightarrow> d \<in> users k i"
  by (simp add: users_def)

section \<open>Updates that keep the tree\<close>

text \<open>A dentry whose place in the tree and name stay as they are.\<close>

definition same_place :: "dentry \<Rightarrow> dentry \<Rightarrow> bool" where
  "same_place x x' \<longleftrightarrow> d_parent x' = d_parent x \<and> d_subdirs x' = d_subdirs x \<and> d_name x' = d_name x \<and>
     d_len x' = d_len x"

lemma obj_fun_upd: "obj s d = Some x \<Longrightarrow> obj (s[d := v]) = (obj s)(d := v)"
  by (auto simp: fun_eq_iff dest: obj_Some_length)

lemma child_parent:
  "tree_ok k \<Longrightarrow> dobj k p = Some y \<Longrightarrow> c \<in> set (d_subdirs y) \<Longrightarrow> dobj k c = Some x \<Longrightarrow> d_parent x = p"
  by (fastforce simp: tree_ok_def children_ok_def)

lemma parent_child:
  "tree_ok k \<Longrightarrow> dobj k c = Some y \<Longrightarrow> d_parent y = p \<Longrightarrow> dobj k p = Some x \<Longrightarrow> p \<noteq> c \<Longrightarrow>
    c \<in> set (d_subdirs x)"
  by (fastforce simp: tree_ok_def parents_ok_def)

lemma tree_ok_set_dentry:
  assumes "tree_ok k" "dobj k d = Some x" "same_place x x'"
    and "\<And>i. d_inode x' = Some i \<Longrightarrow> iobj k i \<noteq> None"
  shows "tree_ok (set_dentry d x' k)"
proof -
  note place = assms(3) [unfolded same_place_def]
  have D: "dobj (set_dentry d x' k) = (dobj k)(d := Some x')"
    using assms(2) by (simp add: obj_fun_upd)
  obtain px where px: "dobj k (d_parent x) = Some px" "d_parent x \<noteq> d \<Longrightarrow> d \<in> set (d_subdirs px)"
    using parents_okD [OF tree_okD(2) [OF assms(1)] assms(2)] by blast
  have "children_ok (set_dentry d x' k)"
    using tree_okD(1) [OF assms(1)] assms(2) place unfolding children_ok_def D
    by (auto dest: child_parent [OF assms(1)])
  moreover have "parents_ok (set_dentry d x' k)"
    using tree_okD(2) [OF assms(1)] px assms(2) place
    unfolding parents_ok_def D
    by (auto intro: parent_child [OF assms(1)])
  moreover have "\<exists>h. ranked h (set_dentry d x' k)"
    using tree_okD(3) [OF assms(1)] assms(2) place unfolding ranked_def D by auto
  moreover have "inodes_ok (set_dentry d x' k)"
    using tree_okD(4) [OF assms(1)] assms(4) unfolding inodes_ok_def D by auto
  moreover have "names_ok (set_dentry d x' k)"
    using tree_okD(5) [OF assms(1)] assms(2) place unfolding names_ok_def D by auto
  moreover have "hash_ok (set_dentry d x' k)"
    using tree_okD(6) [OF assms(1)] unfolding hash_ok_def D by auto
  ultimately show ?thesis
    by (simp add: tree_ok_def)
qed

text \<open>A new child, as \<open>d_alloc\<close> makes it.\<close>

definition link_child :: "addr \<Rightarrow> dentry \<Rightarrow> dentry \<Rightarrow> kernel \<Rightarrow> kernel" where
  "link_child p x new k =
     (let k = set_dentry p x k in k\<lparr>dents := dents k @ [Some new]\<rparr>)"

lemma tree_ok_link_child:
  assumes "tree_ok k" "dobj k p = Some x"
    and "x' = x\<lparr>d_count := n, d_subdirs := length (dents k) # d_subdirs x\<rparr>"
    and "d_parent new = p" "d_subdirs new = []" "d_inode new = None"
    and "holds (d_name new) s" "d_len new = length s"
  shows "tree_ok (link_child p x' new k)"
proof -
  let ?c = "length (dents k)" and ?k = "link_child p x' new k"
  have D: "dobj ?k = (dobj k)(p := Some x', ?c := Some new)"
    using obj_Some_length [OF assms(2)]
    by (auto simp: link_child_def Let_def obj_append obj_fun_upd [OF assms(2)] fun_eq_iff)
  have I: "inodes ?k = inodes k" and H: "dhash ?k = dhash k"
    by (simp_all add: link_child_def Let_def)
  have new: "dobj k ?c = None" and p: "p \<noteq> ?c"
    using obj_Some_length [OF assms(2)] by auto
  have out: "?c \<notin> set (d_subdirs y)" "d_parent y \<noteq> ?c" if "dobj k e = Some y" for e y
    using that children_okD(2) [OF tree_okD(1) [OF assms(1)] that, of ?c]
      parents_okD [OF tree_okD(2) [OF assms(1)] that] new by auto
  obtain px where px: "dobj k (d_parent x) = Some px" "d_parent x \<noteq> p \<Longrightarrow> p \<in> set (d_subdirs px)"
    using parents_okD [OF tree_okD(2) [OF assms(1)] assms(2)] by blast
  have "children_ok ?k"
    using tree_okD(1) [OF assms(1)] assms(2-5) p out unfolding children_ok_def D
    by (auto simp: new dest: child_parent [OF assms(1)])
  moreover have "parents_ok ?k"
    using tree_okD(2) [OF assms(1)] px assms(2-4) p out
    unfolding parents_ok_def D
    by (auto simp: new intro: parent_child [OF assms(1)])
  moreover have "\<exists>h. ranked h ?k"
  proof -
    obtain h where "ranked h k"
      using tree_okD(3) [OF assms(1)] by blast
    then have "ranked (h(?c := Suc (h p))) ?k"
      using assms(2-4) p out unfolding ranked_def D by (auto simp: new)
    then show ?thesis by blast
  qed
  moreover have "inodes_ok ?k"
    using tree_okD(4) [OF assms(1)] assms(2,3,6) unfolding inodes_ok_def D I by auto
  moreover have "names_ok ?k"
    using tree_okD(5) [OF assms(1)] assms(2,3,7,8) unfolding names_ok_def D
    by (auto simp: cstring_holds)
  moreover have "hash_ok ?k"
    using tree_okD(6) [OF assms(1)] unfolding hash_ok_def D H by auto
  ultimately show ?thesis
    by (simp add: tree_ok_def)
qed

text \<open>A dentry without children that goes away.\<close>

definition unlinked :: "addr \<Rightarrow> dentry \<Rightarrow> (addr \<Rightarrow> dentry option) \<Rightarrow> addr \<Rightarrow> dentry option" where
  "unlinked d x D =
     (\<lambda>e. if e = d then None
          else if e = d_parent x
          then map_option (\<lambda>p. p\<lparr>d_subdirs := filter (\<lambda>c. c \<noteq> d) (d_subdirs p)\<rparr>) (D e)
          else D e)"

lemma unlinked_eq_Some:
  "unlinked d x D e = Some y' \<longleftrightarrow> e \<noteq> d \<and> (\<exists>y. D e = Some y \<and>
     y' = (if e = d_parent x then y\<lparr>d_subdirs := filter (\<lambda>c. c \<noteq> d) (d_subdirs y)\<rparr> else y))"
  by (auto simp: unlinked_def)

lemma unlinked_inode:
  "Option.bind (unlinked d x D e) d_inode = (if e = d then None else Option.bind (D e) d_inode)"
  by (cases "D e") (auto simp: unlinked_def)

lemma tree_ok_unlinked:
  assumes "tree_ok k" "dobj k d = Some x" "d_subdirs x = []" "d \<notin> set (dhash k)"
    and D: "dobj k' = unlinked d x (dobj k)" and H: "dhash k' = dhash k"
    and I: "\<And>e y i. e \<noteq> d \<Longrightarrow> dobj k e = Some y \<Longrightarrow> d_inode y = Some i \<Longrightarrow> iobj k' i \<noteq> None"
  shows "tree_ok k'"
proof -
  have noparent: "d_parent y \<noteq> d" if "dobj k e = Some y" "e \<noteq> d" for e y
    using parent_child [OF assms(1) that(1) _ assms(2)] that assms(3) by auto
  have nochild: "d \<notin> set (d_subdirs y)" if "dobj k e = Some y" "e \<noteq> d_parent x" for e y
    using child_parent [OF assms(1) that(1) _ assms(2)] that by auto
  have "children_ok k'"
    unfolding children_ok_def D
  proof (intro allI impI conjI ballI)
    fix p y' assume "unlinked d x (dobj k) p = Some y'"
    then obtain y where y: "p \<noteq> d" "dobj k p = Some y"
        "y' = (if p = d_parent x then y\<lparr>d_subdirs := filter (\<lambda>c. c \<noteq> d) (d_subdirs y)\<rparr> else y)"
      by (auto simp: unlinked_eq_Some)
    then show "distinct (d_subdirs y')"
      using children_okD(1) [OF tree_okD(1) [OF assms(1)]] by simp
    fix c assume "c \<in> set (d_subdirs y')"
    then have c: "c \<in> set (d_subdirs y)" "c \<noteq> d"
      using y nochild [OF y(2)] by (auto split: if_splits)
    then obtain z where "c \<noteq> p" "dobj k c = Some z" "d_parent z = p"
      using children_okD(2) [OF tree_okD(1) [OF assms(1)] y(2)] by blast
    then show "c \<noteq> p" "map_option d_parent (unlinked d x (dobj k) c) = Some p"
      using c by (auto simp: unlinked_def)
  qed
  moreover have "parents_ok k'"
    unfolding parents_ok_def D unlinked_eq_Some
  proof (intro allI impI, elim conjE exE)
    fix c y' y assume c: "c \<noteq> d" "dobj k c = Some y"
      and y': "y' = (if c = d_parent x then y\<lparr>d_subdirs := filter (\<lambda>c. c \<noteq> d) (d_subdirs y)\<rparr> else y)"
    obtain z where z: "dobj k (d_parent y) = Some z" "d_parent y \<noteq> c \<Longrightarrow> c \<in> set (d_subdirs z)"
      using parents_okD [OF tree_okD(2) [OF assms(1)] c(2)] by blast
    show "\<exists>xa. (d_parent y' \<noteq> d \<and> (\<exists>y. dobj k (d_parent y') = Some y \<and> xa = (if d_parent y' = d_parent x
        then y\<lparr>d_subdirs := filter (\<lambda>c. c \<noteq> d) (d_subdirs y)\<rparr> else y))) \<and>
        (d_parent y' \<noteq> c \<longrightarrow> c \<in> set (d_subdirs xa))"
      using z noparent [OF c(2,1)] c(1) y' by auto
  qed
  moreover have "\<exists>h. ranked h k'"
  proof -
    obtain h where "ranked h k"
      using tree_okD(3) [OF assms(1)] by blast
    then have "ranked h k'"
      unfolding ranked_def D unlinked_eq_Some by auto
    then show ?thesis by blast
  qed
  moreover have "inodes_ok k'"
    unfolding inodes_ok_def D unlinked_eq_Some
  proof (intro allI impI, elim conjE exE)
    fix e y' y i assume "e \<noteq> d" "dobj k e = Some y" "d_inode y' = Some i"
      "y' = (if e = d_parent x then y\<lparr>d_subdirs := filter (\<lambda>c. c \<noteq> d) (d_subdirs y)\<rparr> else y)"
    then show "iobj k' i \<noteq> None"
      using I [of e y i] by (auto split: if_splits)
  qed
  moreover have "names_ok k'"
    using tree_okD(5) [OF assms(1)] unfolding names_ok_def D unlinked_eq_Some by auto
  moreover have "hash_ok k'"
    using tree_okD(6) [OF assms(1)] assms(4) unfolding hash_ok_def D H
    by (auto simp: unlinked_def)
  ultimately show ?thesis
    by (simp add: tree_ok_def)
qed


section \<open>Releasing a dentry keeps the invariant\<close>

lemma fs_okD:
  assumes "fs_ok k"
  shows "tree_ok k" "refs_ok k" "irefs_ok k"
  using assms by (auto simp: fs_ok_def)

text \<open>What \<open>iput\<close> leaves: no inode but the one released changes.\<close>

lemma iput_cases:
  assumes "iobj k i = Some z"
  shows "\<exists>k'. iput (Some i) k = Ok k' \<and> dents k' = dents k \<and> dhash k' = dhash k \<and>
    iobj k' = (iobj k)(i := if i_count z = 1 then None else Some (z\<lparr>i_count := i_count z - 1\<rparr>))"
  using assms by (auto simp: iput_def inode_at_Some generic_delete_inode_def obj_fun_upd)

definition released :: "addr option \<Rightarrow> (addr \<Rightarrow> inode option) \<Rightarrow> addr \<Rightarrow> inode option" where
  "released p I =
     (case p of None \<Rightarrow> I
      | Some i \<Rightarrow> I(i := case I i of None \<Rightarrow> None | Some z \<Rightarrow>
          if i_count z = 1 then None else Some (z\<lparr>i_count := i_count z - 1\<rparr>)))"

lemma dentry_iput_eq:
  assumes "dobj k d = Some x" "inodes_ok k"
  shows "\<exists>k'. dentry_iput d k = Ok k' \<and> dobj k' = (dobj k)(d := Some (x\<lparr>d_inode := None\<rparr>)) \<and>
    dhash k' = dhash k \<and> iobj k' = released (d_inode x) (iobj k)"
proof (cases "d_inode x")
  case None
  then have "x\<lparr>d_inode := None\<rparr> = x"
    by (cases x) simp
  then show ?thesis
    using assms(1) None
    by (intro exI [of _ k]) (simp add: dentry_iput_def dentry_at_Some released_def fun_upd_idem)
next
  case (Some i)
  then obtain z where z: "iobj k i = Some z"
    using inodes_okD [OF assms(2,1)] by blast
  let ?k = "set_dentry d (x\<lparr>d_inode := None\<rparr>) k"
  have "iobj ?k i = Some z"
    using z by simp
  from iput_cases [OF this] show ?thesis
    using Some assms(1) z by (auto simp: dentry_iput_def dentry_at_Some obj_fun_upd released_def)
qed

lemma d_kill_eq:
  assumes ok: "tree_ok k" and x: "dobj k d = Some x"
  shows "\<exists>k'. d_kill d k = Ok (if d_parent x = d then None else Some (d_parent x), k') \<and>
    dobj k' = unlinked d x (dobj k) \<and> dhash k' = dhash k \<and> iobj k' = released (d_inode x) (iobj k)"
proof -
  let ?f = "\<lambda>p. p\<lparr>d_subdirs := filter (\<lambda>c. c \<noteq> d) (d_subdirs p)\<rparr>"
  obtain px where px: "dobj k (d_parent x) = Some px"
    using parents_okD [OF tree_okD(2) [OF ok] x] by blast
  obtain k1 where k1: "list_del_child d k = Ok k1" "inodes k1 = inodes k" "dhash k1 = dhash k"
      "dobj k1 = (if d_parent x = d then dobj k else (dobj k)(d_parent x := Some (?f px)))"
    using x px by (cases "d_parent x = d")
      (simp_all add: list_del_child_def dentry_at_Some upd_dentry_def obj_fun_upd)
  have x1: "dobj k1 d = Some x"
    using k1(4) x by auto
  have "inodes_ok k1"
    using tree_okD(4) [OF ok] px unfolding inodes_ok_def k1(2,4) by auto
  from dentry_iput_eq [OF x1 this] obtain k2 where k2: "dentry_iput d k1 = Ok k2"
      "dobj k2 = (dobj k1)(d := Some (x\<lparr>d_inode := None\<rparr>))" "dhash k2 = dhash k1"
      "iobj k2 = released (d_inode x) (iobj k1)"
    by blast
  define k3 where "k3 = k2\<lparr>dents := (dents k2)[d := None]\<rparr>"
  have x2: "dobj k2 d = Some (x\<lparr>d_inode := None\<rparr>)"
    using k2(2) by simp
  have "d_kill d k = Ok (if d_parent x = d then None else Some (d_parent x), k3)"
    using k1(1) k2(1) by (simp add: d_kill_def dentry_at_Some [OF x2] k3_def)
  moreover have "dobj k3 = unlinked d x (dobj k)"
    using k2(2) k1(4) x px by (auto simp: k3_def obj_fun_upd [OF x2] unlinked_def fun_eq_iff)
  ultimately show ?thesis
    using k1(2,3) k2(3,4) by (auto simp: k3_def)
qed

text \<open>No other dentry uses an inode whose last reference goes with \<open>d\<close>.\<close>

lemma irefs_other_user:
  assumes "irefs_ok k" "dobj k d = Some x" "d_inode x = Some i" "dobj k e = Some y" "d_inode y = Some i"
    "e \<noteq> d" "iobj k i = Some z"
  shows "i_count z \<noteq> 1"
proof -
  have "card {d, e} \<le> card (users k i)"
    using usersI [OF assms(2,3)] usersI [OF assms(4,5)] by (intro card_mono users_finite) auto
  also have "\<dots> \<le> unat (i_count z)"
    using assms(1,7) by (auto simp: irefs_ok_def)
  finally show ?thesis
    using assms(6) by auto
qed

lemma irefs_ok_released:
  assumes "irefs_ok k" "dobj k d = Some x" "iobj k' = released (d_inode x) (iobj k)"
    and users: "\<And>i. users k' i = users k i - {d}"
  shows "irefs_ok k'"
  unfolding irefs_ok_def assms(3) users
proof (intro allI impI)
  fix i z' assume z': "released (d_inode x) (iobj k) i = Some z'"
  show "card (users k i - {d}) \<le> unat (i_count z')"
  proof (cases "d_inode x = Some i")
    case False
    then have "iobj k i = Some z'"
      using z' by (auto simp: released_def split: option.splits if_splits)
    moreover have "card (users k i - {d}) \<le> card (users k i)"
      by (intro card_mono users_finite) auto
    ultimately show ?thesis
      using assms(1) le_trans by (fastforce simp: irefs_ok_def)
  next
    case True
    then obtain z where z: "iobj k i = Some z" "z' = z\<lparr>i_count := i_count z - 1\<rparr>"
      using z' by (auto simp: released_def split: option.splits if_splits)
    have "d \<in> users k i" "card (users k i) \<le> unat (i_count z)"
      using usersI [OF assms(2) True] assms(1) z(1) by (auto simp: irefs_ok_def)
    then have "card (users k i - {d}) \<le> unat (i_count z) - 1" "i_count z \<noteq> 0"
      by (auto simp: card_Diff_singleton users_finite card_gt_0_iff)
    then show ?thesis
      by (simp add: z(2) unat_minus_one)
  qed
qed

lemma refs_ok_unlinked:
  assumes "refs_ok k" "dobj k' = unlinked d x (dobj k)"
  shows "refs_ok k'"
  unfolding refs_ok_def assms(2) unlinked_eq_Some
proof (intro allI impI, elim conjE exE)
  fix e y' y assume "dobj k e = Some y"
    and y': "y' = (if e = d_parent x then y\<lparr>d_subdirs := filter (\<lambda>c. c \<noteq> d) (d_subdirs y)\<rparr> else y)"
  then have "length (d_subdirs y) \<le> unat (d_count y)"
    using assms(1) by (auto simp: refs_ok_def)
  then show "length (d_subdirs y') \<le> unat (d_count y')"
    unfolding y' by (auto intro: le_trans [OF length_filter_le])
qed

lemma d_kill_ok:
  assumes ok: "fs_ok k" and x: "dobj k d = Some x" and leaf: "d_subdirs x = []" "d \<notin> set (dhash k)"
  shows "\<exists>k'. d_kill d k = Ok (if d_parent x = d then None else Some (d_parent x), k') \<and> fs_ok k' \<and>
    dobj k' = unlinked d x (dobj k) \<and> dhash k' = dhash k \<and> iobj k' = released (d_inode x) (iobj k)"
proof -
  obtain k' where kill: "d_kill d k = Ok (if d_parent x = d then None else Some (d_parent x), k')"
    and D: "dobj k' = unlinked d x (dobj k)" and H: "dhash k' = dhash k"
    and I: "iobj k' = released (d_inode x) (iobj k)"
    using d_kill_eq [OF fs_okD(1) [OF ok] x] by blast
  have "users k' i = users k i - {d}" for i
    unfolding users_def D unlinked_inode by auto
  then have "irefs_ok k'"
    by (rule irefs_ok_released [OF fs_okD(3) [OF ok] x I])
  moreover have "refs_ok k'"
    using fs_okD(2) [OF ok] D by (rule refs_ok_unlinked)
  moreover have "tree_ok k'"
  proof (rule tree_ok_unlinked [OF fs_okD(1) [OF ok] x leaf D H])
    fix e y i assume e: "e \<noteq> d" "dobj k e = Some y" "d_inode y = Some i"
    then obtain z where z: "iobj k i = Some z"
      using inodes_okD [OF tree_okD(4) [OF fs_okD(1) [OF ok]]] by blast
    then have "d_inode x = Some i \<Longrightarrow> i_count z \<noteq> 1"
      using irefs_other_user [OF fs_okD(3) [OF ok] x _ e(2,3,1)] by blast
    then show "iobj k' i \<noteq> None"
      using z unfolding I by (simp add: released_def split: option.split)
  qed
  ultimately have "fs_ok k'"
    by (simp add: fs_ok_def)
  then show ?thesis
    using kill D H I by blast
qed

text \<open>Changing the count of a dentry, and taking it off the hash.\<close>

lemma fs_ok_set_count:
  assumes "fs_ok k" "dobj k d = Some x" "length (d_subdirs x) \<le> unat n"
  shows "fs_ok (set_dentry d (x\<lparr>d_count := n\<rparr>) k)"
proof -
  let ?k = "set_dentry d (x\<lparr>d_count := n\<rparr>) k"
  have D: "dobj ?k = (dobj k)(d := Some (x\<lparr>d_count := n\<rparr>))"
    using assms(2) by (simp add: obj_fun_upd)
  have "tree_ok ?k"
    using assms inodes_okD [OF tree_okD(4) [OF fs_okD(1) [OF assms(1)]] assms(2)]
    by (intro tree_ok_set_dentry) (auto simp: fs_ok_def same_place_def)
  moreover have "refs_ok ?k"
    using fs_okD(2) [OF assms(1)] assms(3) unfolding refs_ok_def D by auto
  moreover have "users ?k i = users k i" for i
    unfolding users_def D using assms(2) by auto
  then have "irefs_ok ?k"
    using fs_okD(3) [OF assms(1)] by (simp add: irefs_ok_def)
  ultimately show ?thesis
    by (simp add: fs_ok_def)
qed

lemma fs_ok_dhash:
  assumes "fs_ok k" "distinct H" "set H \<subseteq> set (dhash k)"
  shows "fs_ok (k\<lparr>dhash := H\<rparr>)"
  using assms
  by (auto simp: fs_ok_def tree_ok_def children_ok_def parents_ok_def ranked_def inodes_ok_def names_ok_def
      hash_ok_def refs_ok_def irefs_ok_def users_def)

lemma fs_ok_d_drop: "fs_ok k \<Longrightarrow> fs_ok (d_drop d k)"
  unfolding d_drop_def
  by (rule fs_ok_dhash) (auto simp: fs_ok_def tree_ok_def hash_ok_def)

text \<open>
  The owner of a reference may drop it: \<open>dput\<close> then returns and keeps the invariant.  The
  owner's reference is one that no child holds.
\<close>

lemma dput_ok:
  assumes "fs_ok k" "dobj k d = Some x" "length (d_subdirs x) < unat (d_count x)"
  shows "\<exists>k'. dput (Some d) k = Ok k' \<and> fs_ok k'"
  using assms
proof (induction "live (dents k)" arbitrary: k d x rule: less_induct)
  case less
  let ?k = "set_dentry d (x\<lparr>d_count := d_count x - 1\<rparr>) k"
  have cnt: "unat (d_count x - 1) = unat (d_count x) - 1"
    using less.prems(3) by (intro unat_minus_one) auto
  then have ok: "fs_ok ?k"
    using less.prems by (intro fs_ok_set_count) auto
  have dk: "dobj ?k d = Some (x\<lparr>d_count := d_count x - 1\<rparr>)"
    using less.prems(2) by (simp add: obj_fun_upd)
  have kill: "\<exists>k'. bindR (d_kill d k1) (\<lambda>(parent, k). dput parent k) = Ok k' \<and> fs_ok k'"
    if "d_count x - 1 = 0" and k1: "fs_ok k1" "dobj k1 = dobj ?k" "dents k1 = dents ?k" "d \<notin> set (dhash k1)" for k1
  proof -
    have "length (d_subdirs x) = 0"
      using less.prems(3) cnt that(1) by simp
    then obtain k2 where k2: "d_kill d k1 = Ok (if d_parent x = d then None else Some (d_parent x), k2)"
        "fs_ok k2" "dobj k2 = unlinked d (x\<lparr>d_count := d_count x - 1\<rparr>) (dobj k1)"
      using d_kill_ok [OF k1(1), of d "x\<lparr>d_count := d_count x - 1\<rparr>"] dk k1 by auto
    show ?thesis
    proof (cases "d_parent x = d")
      case True
      then show ?thesis
        using k2 by (simp add: dput.simps)
    next
      case False
      obtain px where px: "dobj ?k (d_parent x) = Some px" "d \<in> set (d_subdirs px)"
        using parents_okD [OF tree_okD(2) [OF fs_okD(1) [OF ok]] dk] False by auto
      let ?px = "px\<lparr>d_subdirs := filter (\<lambda>c. c \<noteq> d) (d_subdirs px)\<rparr>"
      have "dobj k2 (d_parent x) = Some ?px"
        using k2(3) k1(2) px(1) False by (simp add: unlinked_def)
      moreover have "length (d_subdirs ?px) < unat (d_count ?px)"
        using fs_okD(2) [OF ok] px length_filter_less [of d "d_subdirs px" "\<lambda>c. c \<noteq> d"]
        by (fastforce simp: refs_ok_def)
      moreover have "live (dents k2) < live (dents k)"
        using d_kill_live [OF k2(1)] k1(3) less.prems(2) by (simp add: live_update)
      ultimately have "\<exists>k'. dput (Some (d_parent x)) k2 = Ok k' \<and> fs_ok k'"
        using less.hyps k2(2) by blast
      then show ?thesis
        using k2(1) False by simp
    qed
  qed
  show ?case
    using kill [of ?k] kill [of "d_drop d ?k"] ok fs_ok_d_drop [OF ok]
    by (subst dput.simps) (auto simp: dentry_at_Some [OF less.prems(2)] Let_def d_unhashed_def d_drop_def)
qed

section \<open>Growing the tree keeps the invariant\<close>

text \<open>A new inode is used by no dentry; an inode's other fields do not matter.\<close>

lemma fs_ok_inodes:
  assumes "fs_ok k" "dents k' = dents k" "dhash k' = dhash k"
    and "\<And>i z. iobj k i = Some z \<Longrightarrow> iobj k' i \<noteq> None"
    and "\<And>i z'. iobj k' i = Some z' \<Longrightarrow> card (users k i) \<le> unat (i_count z')"
  shows "fs_ok k'"
proof -
  have u: "users k' = users k"
    by (simp add: users_def fun_eq_iff assms(2))
  have "inodes_ok k'"
    using tree_okD(4) [OF fs_okD(1) [OF assms(1)]] assms(2,4) unfolding inodes_ok_def by fastforce
  then have "tree_ok k'"
    using fs_okD(1) [OF assms(1)] assms(2,3)
    by (simp add: tree_ok_def children_ok_def parents_ok_def ranked_def names_ok_def hash_ok_def)
  moreover have "refs_ok k'"
    using fs_okD(2) [OF assms(1)] assms(2) by (simp add: refs_ok_def)
  moreover have "irefs_ok k'"
    using assms(5) by (simp add: irefs_ok_def u)
  ultimately show ?thesis
    by (simp add: fs_ok_def)
qed

lemma fs_ok_set_inode:
  assumes "fs_ok k" "iobj k i = Some z" "card (users k i) \<le> unat (i_count z')"
  shows "fs_ok (set_inode i z' k)"
proof (rule fs_ok_inodes [OF assms(1)])
  fix j y assume "iobj (set_inode i z' k) j = Some y"
  then show "card (users k j) \<le> unat (i_count y)"
    using assms fs_okD(3) [OF assms(1)] by (auto simp: obj_fun_upd irefs_ok_def split: if_splits)
qed (auto simp: obj_fun_upd [OF assms(2)])

lemma irefs_okD: "fs_ok k \<Longrightarrow> iobj k i = Some z \<Longrightarrow> card (users k i) \<le> unat (i_count z)"
  by (simp add: fs_ok_def irefs_ok_def)

lemma fs_ok_set_inode_same:
  "fs_ok k \<Longrightarrow> iobj k i = Some z \<Longrightarrow> i_count z' = i_count z \<Longrightarrow> fs_ok (set_inode i z' k)"
  using fs_ok_set_inode irefs_okD by metis

lemma users_fresh: "fs_ok k \<Longrightarrow> iobj k i = None \<Longrightarrow> users k i = {}"
  using inodes_okD [OF tree_okD(4) [OF fs_okD(1)]]
  by (fastforce simp: users_def bind_eq_Some_conv)

lemma kmem_alloc_fields:
  assumes "kmem_alloc k = (b, k')"
  shows "dents k' = dents k" "inodes k' = inodes k" "dhash k' = dhash k"
  using assms by (auto simp: kmem_alloc_def)

lemma fs_ok_kmem_alloc: "fs_ok k \<Longrightarrow> kmem_alloc k = (b, k') \<Longrightarrow> fs_ok k'"
  by (rule fs_ok_inodes) (auto simp: kmem_alloc_fields irefs_okD)

lemma new_inode_ok:
  assumes "fs_ok k" "new_inode sb k = (r, k')"
  shows "fs_ok k'" and "dents k' = dents k" and "dhash k' = dhash k"
    and "r = None \<Longrightarrow> inodes k' = inodes k"
    and "r = Some i \<Longrightarrow> i = length (inodes k) \<and>
      inodes k' = inodes k @ [Some ((inode_init_always sb)\<lparr>i_ino := last_ino k + 1\<rparr>)]"
proof -
  obtain b k1 where k1: "kmem_alloc k = (b, k1)"
    by force
  note f = kmem_alloc_fields [OF k1]
  have last: "last_ino k1 = last_ino k"
    using k1 by (auto simp: kmem_alloc_def)
  show "dents k' = dents k" "dhash k' = dhash k" "r = None \<Longrightarrow> inodes k' = inodes k"
    and i: "r = Some i \<Longrightarrow> i = length (inodes k) \<and>
      inodes k' = inodes k @ [Some ((inode_init_always sb)\<lparr>i_ino := last_ino k + 1\<rparr>)]"
    using assms(2) f last by (auto simp: new_inode_def k1 Let_def split: bool.splits)
  have "inodes k' = inodes k \<or>
      inodes k' = inodes k @ [Some ((inode_init_always sb)\<lparr>i_ino := last_ino k + 1\<rparr>)]"
    using assms(2) f last by (auto simp: new_inode_def k1 Let_def split: bool.splits)
  then show "fs_ok k'"
    using \<open>dents k' = dents k\<close> \<open>dhash k' = dhash k\<close> users_fresh [OF assms(1), of "length (inodes k)"]
    by (elim disjE; intro fs_ok_inodes [OF assms(1)])
      (auto simp: irefs_okD [OF assms(1)] split: if_splits dest: obj_Some_length)
qed

text \<open>A dentry gets an inode whose count has a reference to spare.\<close>

lemma d_instantiate_ok:
  assumes "fs_ok k" "dobj k d = Some x" "d_inode x = None" "iobj k i = Some z"
    and "card (users k i) < unat (i_count z)"
  shows "d_instantiate d (Some i) k = Ok (set_dentry d (x\<lparr>d_inode := Some i\<rparr>) k)"
    and "fs_ok (set_dentry d (x\<lparr>d_inode := Some i\<rparr>) k)"
proof -
  let ?k = "set_dentry d (x\<lparr>d_inode := Some i\<rparr>) k"
  show "d_instantiate d (Some i) k = Ok ?k"
    using assms(2,3) by (simp add: d_instantiate_def dentry_at_Some)
  have D: "dobj ?k = (dobj k)(d := Some (x\<lparr>d_inode := Some i\<rparr>))"
    using assms(2) by (simp add: obj_fun_upd)
  have "tree_ok ?k"
    using assms by (intro tree_ok_set_dentry) (auto simp: fs_ok_def same_place_def)
  moreover have "refs_ok ?k"
    using fs_okD(2) [OF assms(1)] assms(2) unfolding refs_ok_def D by auto
  moreover have "irefs_ok ?k"
    unfolding irefs_ok_def
  proof (intro allI impI)
    fix j y assume "iobj ?k j = Some y"
    then have y: "iobj k j = Some y"
      by simp
    have "users ?k j = (if j = i then insert d (users k i) else users k j)"
      unfolding users_def D using assms(2,3) by auto
    then show "card (users ?k j) \<le> unat (i_count y)"
      using y assms(4,5) irefs_okD [OF assms(1) y] card_insert_le_m1 [of "unat (i_count z)" "users k i" d]
      by (auto simp: card_insert_if users_finite)
  qed
  ultimately show "fs_ok ?k"
    by (simp add: fs_ok_def)
qed

lemma d_instantiate_None:
  assumes "dobj k d = Some x" "d_inode x = None"
  shows "d_instantiate d None k = Ok (set_dentry d x k)"
proof -
  have "x\<lparr>d_inode := None\<rparr> = x"
    using assms(2) by (cases x) simp
  moreover have "d_instantiate d None k = Ok (set_dentry d (x\<lparr>d_inode := None\<rparr>) k)"
    using assms by (simp add: d_instantiate_def dentry_at_Some)
  ultimately show ?thesis
    by (simp only:)
qed

lemma fs_ok_rehash:
  assumes "fs_ok k" "dobj k d \<noteq> None" "d \<notin> set (dhash k)"
  shows "fs_ok (k\<lparr>dhash := d # dhash k\<rparr>)"
  using assms
  by (auto simp: fs_ok_def tree_ok_def children_ok_def parents_ok_def ranked_def inodes_ok_def names_ok_def
      hash_ok_def refs_ok_def irefs_ok_def users_def)


text \<open>The dentry \<open>d_alloc\<close> makes for the name \<open>s\<close> under the parent \<open>p\<close>.\<close>

definition fresh_dentry :: "addr \<Rightarrow> string \<Rightarrow> dentry" where
  "fresh_dentry p s = \<lparr>d_count = 1, d_name = s @ [NUL], d_len = length s, d_inode = None, d_parent = p,
     d_subdirs = [], d_op_delete = False\<rparr>"

definition with_child :: "addr \<Rightarrow> dentry \<Rightarrow> dentry" where
  "with_child c x = x\<lparr>d_count := d_count x + 1, d_subdirs := c # d_subdirs x\<rparr>"

lemma fs_ok_link_child:
  assumes "fs_ok k" "dobj k p = Some x" "unat (d_count x) + 1 < 2 ^ 32" "NUL \<notin> set s"
  shows "fs_ok (link_child p (with_child (length (dents k)) x) (fresh_dentry p s) k)"
    (is "fs_ok ?k")
proof -
  let ?c = "length (dents k)"
  have D: "dobj ?k = (dobj k)(p := Some (with_child ?c x), ?c := Some (fresh_dentry p s))"
    using obj_Some_length [OF assms(2)]
    by (auto simp: link_child_def Let_def obj_append obj_fun_upd [OF assms(2)] fun_eq_iff)
  have I: "inodes ?k = inodes k"
    by (simp add: link_child_def Let_def)
  have "tree_ok ?k"
    using assms holdsI [OF assms(4), of "[]"]
    by (intro tree_ok_link_child [where n = "d_count x + 1" and s = s])
      (auto simp: fs_ok_def with_child_def fresh_dentry_def)
  moreover have "refs_ok ?k"
    unfolding refs_ok_def D
  proof (intro allI impI)
    fix e y assume e: "((dobj k)(p := Some (with_child ?c x), ?c := Some (fresh_dentry p s))) e = Some y"
    have "length (d_subdirs x) \<le> unat (d_count x)"
      using fs_okD(2) [OF assms(1)] assms(2) by (auto simp: refs_ok_def)
    moreover have "unat (d_count x + 1) = unat (d_count x) + 1"
      using assms(3) by (simp add: unat_add_lem [THEN iffD1])
    ultimately show "length (d_subdirs y) \<le> unat (d_count y)"
      using e fs_okD(2) [OF assms(1)]
      by (auto simp: refs_ok_def with_child_def fresh_dentry_def split: if_splits)
  qed
  moreover have "users ?k i = users k i" for i
    unfolding users_def D using assms(2) by (auto simp: with_child_def fresh_dentry_def)
  then have "irefs_ok ?k"
    using fs_okD(3) [OF assms(1)] by (simp add: irefs_ok_def I)
  ultimately show ?thesis
    by (simp add: fs_ok_def)
qed

lemma memcpy_name:
  assumes "length s = len" "take len name = s" "len \<le> length name"
  shows "memcpy (replicate (Suc len) NUL) name len = Ok (s @ [NUL])"
  using assms by (simp add: memcpy_eq del: replicate_Suc) (simp add: Suc_diff_le)

text \<open>
  \<open>d_alloc\<close> either refuses, with nothing changed but the allocator, or links a new child.
\<close>

lemma d_alloc_eq:
  assumes "dobj k p = Some x" "d_count x \<noteq> 0" "take (length s) name = s" "length s \<le> length name"
  obtains n where "d_alloc (Some p) name (length s) k = Ok (None, k\<lparr>mem_no := n\<rparr>)"
  | n where "d_alloc (Some p) name (length s) k = Ok (Some (length (dents k)),
      link_child p (with_child (length (dents k)) x) (fresh_dentry p s) (k\<lparr>mem_no := n\<rparr>))"
proof -
  have init: "d_init (Some p) name (length s) k1 = Ok (Some (length (dents k)),
      link_child p (with_child (length (dents k)) x) (fresh_dentry p s) k1)" if "dents k1 = dents k" for k1
  proof -
    have p: "dobj k1 p = Some x"
      using that assms(1) by simp
    have "dget p k1 = Ok (set_dentry p (x\<lparr>d_count := d_count x + 1\<rparr>) k1)"
      using assms(2) by (simp add: dget_def dentry_at_Some [OF p])
    moreover have "upd_dentry p f (set_dentry p y k1) = Ok (set_dentry p (f y) k1)" for f y
    proof -
      have "dobj (set_dentry p y k1) p = Some y"
        using obj_Some_length [OF p] by simp
      then show ?thesis
        by (simp add: upd_dentry_def dentry_at_Some set_dentry_def)
    qed
    ultimately show ?thesis
      using that unfolding d_init_def memcpy_name [OF refl assms(3,4)]
      by (simp add: Let_def link_child_def with_child_def fresh_dentry_def)
  qed
  let ?k1 = "k\<lparr>mem_no := Suc (mem_no k)\<rparr>" and ?k2 = "k\<lparr>mem_no := Suc (Suc (mem_no k))\<rparr>"
  have "d_alloc (Some p) name (length s) k = Ok (None, ?k1) \<or>
      d_alloc (Some p) name (length s) k = Ok (None, ?k2) \<or>
      d_alloc (Some p) name (length s) k = d_init (Some p) name (length s) ?k1 \<or>
      d_alloc (Some p) name (length s) k = d_init (Some p) name (length s) ?k2"
    by (simp add: d_alloc_def kmem_alloc_def split: bool.split)
  then show thesis
    using that init [of ?k1] init [of ?k2] by auto
qed

lemma fs_ok_mem_no: "fs_ok k \<Longrightarrow> fs_ok (k\<lparr>mem_no := n\<rparr>)"
  by (rule fs_ok_inodes) (auto simp: irefs_okD)

lemma fs_ok_cong: "fs_ok k \<Longrightarrow> dents k' = dents k \<Longrightarrow> inodes k' = inodes k \<Longrightarrow> dhash k' = dhash k \<Longrightarrow> fs_ok k'"
  by (rule fs_ok_inodes) (auto simp: irefs_okD)

section \<open>An example\<close>

text \<open>
  A machine with the wjfs mounted: the root with the directories \<open>dir\<close> and \<open>e\<close>, the file
  \<open>dir/a\<close>, and the negative dentry \<open>new\<close> in the root.  A lookup holds \<open>a\<close>, \<open>new\<close> and
  \<open>e\<close>; \<open>e\<close> is empty.
\<close>

definition ex_inode :: "u32 \<Rightarrow> u16 \<Rightarrow> u32 \<Rightarrow> inode_ops \<Rightarrow> inode" where
  "ex_inode ino mode nlink ops = (inode_init_always 0)\<lparr>i_ino := ino, i_mode := mode, i_nlink := nlink, i_ops := ops\<rparr>"

definition ex_dentry :: "string \<Rightarrow> u32 \<Rightarrow> addr option \<Rightarrow> addr \<Rightarrow> addr list \<Rightarrow> dentry" where
  "ex_dentry s n i p cs = \<lparr>d_count = n, d_name = s @ [NUL], d_len = length s, d_inode = i, d_parent = p,
     d_subdirs = cs, d_op_delete = True\<rparr>"

definition kernel1 :: kernel where
  "kernel1 = kernel0\<lparr>
     inodes := [Some (ex_inode 1 0x41ED 4 DirOps), Some (ex_inode 2 0x41ED 2 DirOps),
                Some (ex_inode 3 0x81A4 1 FileOps), Some (ex_inode 4 0x41ED 2 DirOps)],
     dents := [Some (ex_dentry ''/'' 4 (Some 0) 0 [4, 3, 1]), Some (ex_dentry ''dir'' 2 (Some 1) 0 [2]),
               Some (ex_dentry ''a'' 2 (Some 2) 1 []), Some (ex_dentry ''new'' 1 None 0 []),
               Some (ex_dentry ''e'' 2 (Some 3) 0 [])],
     dhash := [4, 3, 2, 1], last_ino := 4, rroot_sb := Some 0, rroot_dentry := Some 0, rroot_inode := Some 0\<rparr>"

lemma obj_Cons: "obj (v # s) a = (case a of 0 \<Rightarrow> v | Suc b \<Rightarrow> obj s b)"
  by (cases a) (simp_all add: obj_def)

lemma obj_Nil [simp]: "obj [] a = None"
  by (simp add: obj_def)

lemma kernel1_dobj:
  "dobj kernel1 d = Some x \<longleftrightarrow> d = 0 \<and> x = ex_dentry ''/'' 4 (Some 0) 0 [4, 3, 1] \<or>
     d = 1 \<and> x = ex_dentry ''dir'' 2 (Some 1) 0 [2] \<or> d = 2 \<and> x = ex_dentry ''a'' 2 (Some 2) 1 [] \<or>
     d = 3 \<and> x = ex_dentry ''new'' 1 None 0 [] \<or> d = 4 \<and> x = ex_dentry ''e'' 2 (Some 3) 0 []"
  by (auto simp: kernel1_def obj_Cons numeral_2_eq_2 numeral_3_eq_3 numeral_eq_Suc split: nat.splits)

lemma kernel1_iobj:
  "iobj kernel1 i = Some z \<longleftrightarrow> i = 0 \<and> z = ex_inode 1 0x41ED 4 DirOps \<or> i = 1 \<and> z = ex_inode 2 0x41ED 2 DirOps \<or>
     i = 2 \<and> z = ex_inode 3 0x81A4 1 FileOps \<or> i = 3 \<and> z = ex_inode 4 0x41ED 2 DirOps"
  by (auto simp: kernel1_def obj_Cons numeral_2_eq_2 numeral_3_eq_3 split: nat.splits)

lemma kernel1_dobjs [simp]:
  "dobj kernel1 0 = Some (ex_dentry ''/'' 4 (Some 0) 0 [4, 3, 1])" "dobj kernel1 (Suc 0) = Some (ex_dentry ''dir'' 2 (Some 1) 0 [2])"
  "dobj kernel1 2 = Some (ex_dentry ''a'' 2 (Some 2) 1 [])" "dobj kernel1 3 = Some (ex_dentry ''new'' 1 None 0 [])"
  "dobj kernel1 4 = Some (ex_dentry ''e'' 2 (Some 3) 0 [])"
  by (simp_all add: kernel1_dobj)

lemma kernel1_iobjs [simp]:
  "iobj kernel1 0 = Some (ex_inode 1 0x41ED 4 DirOps)" "iobj kernel1 (Suc 0) = Some (ex_inode 2 0x41ED 2 DirOps)"
  "iobj kernel1 2 = Some (ex_inode 3 0x81A4 1 FileOps)" "iobj kernel1 3 = Some (ex_inode 4 0x41ED 2 DirOps)"
  by (simp_all add: kernel1_iobj)

lemma ex_dentry_simps [simp]:
  "d_count (ex_dentry s n i p cs) = n" "d_name (ex_dentry s n i p cs) = s @ [NUL]"
  "d_len (ex_dentry s n i p cs) = length s" "d_inode (ex_dentry s n i p cs) = i"
  "d_parent (ex_dentry s n i p cs) = p" "d_subdirs (ex_dentry s n i p cs) = cs"
  by (simp_all add: ex_dentry_def)

lemma ex_inode_simps [simp]:
  "i_ino (ex_inode ino m n ops) = ino" "i_mode (ex_inode ino m n ops) = m" "i_nlink (ex_inode ino m n ops) = n"
  "i_count (ex_inode ino m n ops) = 1" "i_ops (ex_inode ino m n ops) = ops"
  by (simp_all add: ex_inode_def inode_init_always_def)

lemma kernel1_users: "users kernel1 i \<subseteq> {(if i = 3 then 4 else i)}"
  by (auto simp: users_def bind_eq_Some_conv kernel1_dobj)

lemma kernel1_ok: "fs_ok kernel1"
proof -
  have "children_ok kernel1"
    by (auto simp: children_ok_def kernel1_dobj)
  moreover have "parents_ok kernel1"
    by (auto simp: parents_ok_def kernel1_dobj)
  moreover have "ranked (\<lambda>d. if d = 0 then 0 else if d = 2 then 2 else 1) kernel1"
    by (auto simp: ranked_def kernel1_dobj)
  moreover have "inodes_ok kernel1"
    by (auto simp: inodes_ok_def kernel1_dobj)
  moreover have "names_ok kernel1"
    by (auto simp: names_ok_def kernel1_dobj holds_def cstring_def)
  moreover have "hash_ok kernel1"
    by (auto simp: hash_ok_def kernel1_def obj_def numeral_2_eq_2 numeral_3_eq_3 numeral_eq_Suc)
  moreover have "refs_ok kernel1"
    by (auto simp: refs_ok_def kernel1_dobj)
  moreover have "irefs_ok kernel1"
    using card_mono [OF _ kernel1_users] by (auto simp: irefs_ok_def kernel1_iobj)
  ultimately show ?thesis
    by (auto simp: fs_ok_def tree_ok_def)
qed

end
