(* ===== verification/InodeOps.thy ===== *)
theory InodeOps
  imports Clients Namei DentryTree
begin

unbundle bit_operations_syntax

text \<open>
  The inode operations of \<open>wjfs/fs/wjfs.c\<close>: making inodes, the methods of directories
  (\<open>wjfs_mknod\<close>, \<open>wjfs_mkdir\<close>, \<open>wjfs_create\<close>, \<open>wjfs_link\<close>, \<open>wjfs_unlink\<close>,
  \<open>wjfs_rmdir\<close>, \<open>wjfs_rename\<close>, \<open>wjfs_symlink\<close>), the helpers of \<open>fs/libfs.c\<close> they call,
  and the ownership test.  A method that tells the peer gets the uninitialised locals of
  its client as an argument.
\<close>

section \<open>Inodes\<close>

text \<open>\<open>init_special_inode\<close>: devices keep their number; other special files do not.\<close>

definition init_special_inode :: "u16 \<Rightarrow> u32 \<Rightarrow> inode \<Rightarrow> inode" where
  "init_special_inode mode rdev x =
     (let t = mode AND S_IFMT
      in x\<lparr>i_mode := mode, i_ops := SpecialOps,
           i_rdev := (if t = 0x2000 \<or> t = 0x6000 then rdev else i_rdev x)\<rparr>)"

definition wjfs_get_inode :: "nat \<Rightarrow> u32 \<Rightarrow> u32 \<Rightarrow> kernel \<Rightarrow> (addr option \<times> kernel) res" where
  "wjfs_get_inode sb mode dev k =
     (case new_inode sb k of
        (None, k) \<Rightarrow> Ok (None, k)
      | (Some i, k) \<Rightarrow>
          bindR (upd_inode i (\<lambda>x. x\<lparr>i_mode := ucast mode, i_uid := fsuid k, i_gid := fsgid k,
                    i_atime := clock k, i_mtime := clock k, i_ctime := clock k\<rparr>) k) (\<lambda>k.
          let t = ucast mode AND S_IFMT
          in bindR (if t = S_IFREG then upd_inode i (\<lambda>x. x\<lparr>i_ops := FileOps\<rparr>) k
                    else if t = S_IFDIR
                    then bindR (upd_inode i (\<lambda>x. x\<lparr>i_ops := DirOps\<rparr>) k) (inc_nlink i)
                    else if t = S_IFLNK then upd_inode i (\<lambda>x. x\<lparr>i_ops := SymlinkOps\<rparr>) k
                    else upd_inode i (init_special_inode (ucast mode) dev) k) (\<lambda>k.
             Ok (Some i, k))))"

text \<open>
  What \<open>wjfs_mknod\<close> and \<open>wjfs_mknod_rdma\<close> do with a new inode: the group of a set-gid
  directory, the dentry, a reference that keeps it in the cache, the times.
\<close>

definition attach_inode :: "addr \<Rightarrow> addr \<Rightarrow> u32 \<Rightarrow> addr \<Rightarrow> kernel \<Rightarrow> kernel res" where
  "attach_inode dir d mode i k =
     bindR (inode_at k dir) (\<lambda>dx.
     bindR (if i_mode dx AND S_ISGID \<noteq> 0
            then upd_inode i (\<lambda>x. x\<lparr>i_gid := i_gid dx,
                   i_mode := (if S_ISDIR (ucast mode) then i_mode x OR S_ISGID else i_mode x)\<rparr>) k
            else Ok k) (\<lambda>k.
     bindR (d_instantiate d (Some i) k) (\<lambda>k.
     bindR (dget d k) (\<lambda>k.
       upd_inode dir (\<lambda>x. x\<lparr>i_mtime := clock k, i_ctime := clock k\<rparr>) k))))"

text \<open>The numbers and names a method passes to its client.\<close>

definition tell :: "addr \<Rightarrow> kernel \<Rightarrow> (u32 \<Rightarrow> bytes \<Rightarrow> u32 \<Rightarrow> bytes \<Rightarrow> 'a res) \<Rightarrow> 'a res" where
  "tell d k client =
     bindR (dentry_at k d) (\<lambda>x.
     bindR (deref NullDeref (d_inode x)) (\<lambda>i.
     bindR (inode_at k i) (\<lambda>y.
     bindR (dentry_at k (d_parent x)) (\<lambda>px.
     bindR (deref NullDeref (d_inode px)) (\<lambda>pi.
     bindR (inode_at k pi) (\<lambda>py.
       client (i_ino y) (d_name x) (i_ino py) (d_name px)))))))"

text \<open>
  \<open>wjfs_mknod\<close> takes the inode number for the peer from its local \<open>inode\<close> (\<open>NULL\<close> when no
  inode could be made), which is the dentry's inode otherwise.
\<close>

definition wjfs_mknod :: "client_frame \<Rightarrow> addr \<Rightarrow> addr \<Rightarrow> u32 \<Rightarrow> u32 \<Rightarrow> kernel \<Rightarrow> (int \<times> kernel) res" where
  "wjfs_mknod cf dir d mode dev k =
     bindR (dentry_at k d) (\<lambda>_.
     bindR (inode_at k dir) (\<lambda>dx.
     bindR (wjfs_get_inode (i_sb dx) mode dev k) (\<lambda>(inode, k).
     bindR (case inode of
              None \<Rightarrow> Ok (- ENOSPC, k)
            | Some i \<Rightarrow> bindR (attach_inode dir d mode i k) (\<lambda>k. Ok (0, k))) (\<lambda>(err, k).
     bindR (deref NullDeref inode) (\<lambda>i.
     bindR (inode_at k i) (\<lambda>y.
     bindR (dentry_at k d) (\<lambda>x.
     bindR (dentry_at k (d_parent x)) (\<lambda>px.
     bindR (deref NullDeref (d_inode px)) (\<lambda>pi.
     bindR (inode_at k pi) (\<lambda>py.
     bindR (wjfs_client_create cf test_ip test_port (i_ino y) (d_name x) (i_ino py) (d_name px)
              (if S_ISDIR (ucast mode) then 1 else 0) k) (\<lambda>(_, k).
       Ok (err, k))))))))))))"

definition wjfs_mkdir :: "client_frame \<Rightarrow> addr \<Rightarrow> addr \<Rightarrow> u32 \<Rightarrow> kernel \<Rightarrow> (int \<times> kernel) res" where
  "wjfs_mkdir cf dir d mode k =
     bindR (wjfs_mknod cf dir d (mode OR ucast S_IFDIR) 0 k) (\<lambda>(retval, k).
       if retval = 0 then bindR (inc_nlink dir k) (\<lambda>k. Ok (retval, k)) else Ok (retval, k))"

definition wjfs_create :: "client_frame \<Rightarrow> addr \<Rightarrow> addr \<Rightarrow> u32 \<Rightarrow> kernel \<Rightarrow> (int \<times> kernel) res" where
  "wjfs_create cf dir d mode k = wjfs_mknod cf dir d (mode OR ucast S_IFREG) 0 k"

section \<open>Helpers of \<open>fs/libfs.c\<close>\<close>

fun any_positive :: "kernel \<Rightarrow> addr list \<Rightarrow> bool res" where
  "any_positive k [] = Ok False"
| "any_positive k (c # cs) =
     bindR (dentry_at k c) (\<lambda>x.
       if d_inode x \<noteq> None \<and> \<not> d_unhashed k c then Ok True else any_positive k cs)"

definition simple_empty :: "addr \<Rightarrow> kernel \<Rightarrow> bool res" where
  "simple_empty d k =
     bindR (dentry_at k d) (\<lambda>x. bindR (any_positive k (d_subdirs x)) (\<lambda>b. Ok (\<not> b)))"

text \<open>The times of the entry and of its directory, then the link count, then the dentry.\<close>

definition simple_unlink :: "addr \<Rightarrow> addr \<Rightarrow> kernel \<Rightarrow> (int \<times> kernel) res" where
  "simple_unlink dir d k =
     bindR (d_inode_of k d) (\<lambda>i.
     bindR (upd_inode dir (\<lambda>x. x\<lparr>i_ctime := clock k, i_mtime := clock k\<rparr>) k) (\<lambda>k.
     bindR (upd_inode i (\<lambda>x. x\<lparr>i_ctime := clock k\<rparr>) k) (\<lambda>k.
     bindR (drop_nlink i k) (\<lambda>k.
     bindR (dput (Some d) k) (\<lambda>k. Ok (0, k))))))"

section \<open>The other methods\<close>

text \<open>
  \<open>is_my_file\<close>: 1 unless the dentry's inode is registered as the link of a remote file.  The
  inode is read only when the scan meets a used row.
\<close>

definition is_my_file :: "kernel \<Rightarrow> addr \<Rightarrow> u32 res" where
  "is_my_file k d =
     (if list_ex (\<lambda>e. e_used e = 1) (reg_ino_mapp_table k)
      then bindR (d_inode_of k d) (\<lambda>i. bindR (inode_at k i) (\<lambda>x.
             Ok (table_mine (reg_ino_mapp_table k) (i_ino x))))
      else Ok 1)"

definition wjfs_link :: "addr \<Rightarrow> addr \<Rightarrow> addr \<Rightarrow> kernel \<Rightarrow> (int \<times> kernel) res" where
  "wjfs_link old_dentry dir d k =
     bindR (d_inode_of k old_dentry) (\<lambda>i.
     bindR (upd_inode dir (\<lambda>x. x\<lparr>i_ctime := clock k, i_mtime := clock k\<rparr>) k) (\<lambda>k.
     bindR (upd_inode i (\<lambda>x. x\<lparr>i_ctime := clock k\<rparr>) k) (\<lambda>k.
     bindR (inc_nlink i k) (\<lambda>k.
     bindR (upd_inode i (\<lambda>x. x\<lparr>i_count := i_count x + 1\<rparr>) k) (\<lambda>k.
     bindR (dget d k) (\<lambda>k.
     bindR (d_instantiate d (Some i) k) (\<lambda>k. Ok (0, k))))))))"

text \<open>
  \<open>wjfs_unlink\<close> and \<open>wjfs_rmdir\<close> use the dentry again after they have dropped it, for the
  request to the peer.  The link of a remote file is left alone, and they return 0.
\<close>

definition wjfs_unlink :: "client_frame \<Rightarrow> addr \<Rightarrow> addr \<Rightarrow> kernel \<Rightarrow> (int \<times> kernel) res" where
  "wjfs_unlink cf dir d k =
     bindR (is_my_file k d) (\<lambda>mine.
       if mine \<noteq> 0 then
         bindR (d_inode_of k d) (\<lambda>i.
         bindR (upd_inode dir (\<lambda>x. x\<lparr>i_ctime := clock k, i_mtime := clock k\<rparr>) k) (\<lambda>k.
         bindR (upd_inode i (\<lambda>x. x\<lparr>i_ctime := clock k\<rparr>) k) (\<lambda>k.
         bindR (drop_nlink i k) (\<lambda>k.
         bindR (dput (Some d) k) (\<lambda>k.
         bindR (tell d k (\<lambda>ino name pino pname.
                  wjfs_client_remove cf test_ip test_port ino name pino pname 0 k)) (\<lambda>(_, k).
           Ok (0, k)))))))
       else Ok (0, k))"

definition wjfs_rmdir :: "client_frame \<Rightarrow> addr \<Rightarrow> addr \<Rightarrow> kernel \<Rightarrow> (int \<times> kernel) res" where
  "wjfs_rmdir cf dir d k =
     bindR (is_my_file k d) (\<lambda>mine.
       if mine \<noteq> 0 then
         bindR (simple_empty d k) (\<lambda>empty.
           if \<not> empty then Ok (- ENOTEMPTY, k)
           else
             bindR (d_inode_of k d) (\<lambda>i.
             bindR (drop_nlink i k) (\<lambda>k.
             bindR (simple_unlink dir d k) (\<lambda>(_, k).
             bindR (drop_nlink dir k) (\<lambda>k.
             bindR (tell d k (\<lambda>ino name pino pname.
                      wjfs_client_remove cf test_ip test_port ino name pino pname 1 k)) (\<lambda>(_, k).
               Ok (0, k)))))))
       else Ok (0, k))"

definition wjfs_rename :: "addr \<Rightarrow> addr \<Rightarrow> addr \<Rightarrow> addr \<Rightarrow> kernel \<Rightarrow> (int \<times> kernel) res" where
  "wjfs_rename old_dir old_dentry new_dir new_dentry k =
     bindR (d_inode_of k old_dentry) (\<lambda>i.
     bindR (inode_at k i) (\<lambda>x.
     bindR (simple_empty new_dentry k) (\<lambda>empty.
       if \<not> empty then Ok (- ENOTEMPTY, k)
       else
         bindR (dentry_at k new_dentry) (\<lambda>y.
         bindR (if d_inode y \<noteq> None then
                  bindR (simple_unlink new_dir new_dentry k) (\<lambda>(_, k).
                    if S_ISDIR (i_mode x) then drop_nlink old_dir k else Ok k)
                else if S_ISDIR (i_mode x)
                then bindR (drop_nlink old_dir k) (inc_nlink new_dir)
                else Ok k) (\<lambda>k.
         bindR (upd_inode i (\<lambda>x. x\<lparr>i_ctime := clock k\<rparr>) k) (\<lambda>k.
         bindR (upd_inode new_dir (\<lambda>x. x\<lparr>i_mtime := clock k, i_ctime := clock k\<rparr>) k) (\<lambda>k.
         bindR (upd_inode old_dir (\<lambda>x. x\<lparr>i_mtime := clock k, i_ctime := clock k\<rparr>) k) (\<lambda>k.
           Ok (0, k)))))))))"

section \<open>A new inode\<close>

definition type_ops :: "u16 \<Rightarrow> inode_ops" where
  "type_ops mode =
     (let t = mode AND S_IFMT in
      if t = S_IFREG then FileOps else if t = S_IFDIR then DirOps else if t = S_IFLNK then SymlinkOps
      else SpecialOps)"

definition fresh_inode :: "nat \<Rightarrow> u32 \<Rightarrow> u32 \<Rightarrow> kernel \<Rightarrow> inode" where
  "fresh_inode sb mode dev k =
     (let m = ucast mode; t = m AND S_IFMT in
      \<lparr>i_ino = last_ino k + 1, i_mode = m, i_nlink = (if t = S_IFDIR then 2 else 1), i_uid = fsuid k,
       i_gid = fsgid k, i_rdev = (if t = 0x2000 \<or> t = 0x6000 then dev else 0), i_size = 0,
       i_atime = clock k, i_mtime = clock k, i_ctime = clock k, i_count = 1, i_ops = type_ops m,
       i_dead = False, i_sb = sb, i_pages = (\<lambda>_. None)\<rparr>)"

definition with_inode :: "inode \<Rightarrow> kernel \<Rightarrow> kernel" where
  "with_inode z k = k\<lparr>mem_no := Suc (mem_no k), last_ino := last_ino k + 1, inodes := inodes k @ [Some z]\<rparr>"

lemma S_IF_neq [simp]:
  "S_IFREG \<noteq> S_IFDIR" "S_IFDIR \<noteq> S_IFREG" "S_IFREG \<noteq> S_IFLNK" "S_IFLNK \<noteq> S_IFREG" "S_IFDIR \<noteq> S_IFLNK"
  "S_IFLNK \<noteq> S_IFDIR" "S_IFREG \<noteq> 0x2000" "S_IFREG \<noteq> 0x6000" "S_IFDIR \<noteq> 0x2000" "S_IFDIR \<noteq> 0x6000"
  "S_IFLNK \<noteq> 0x2000" "S_IFLNK \<noteq> 0x6000"
  by (simp_all add: S_IFREG_def S_IFDIR_def S_IFLNK_def)

lemma upd_inode_last:
  assumes "inodes k = is @ [Some x]" "i = length is"
  shows "upd_inode i f k = Ok (k\<lparr>inodes := is @ [Some (f x)]\<rparr>)"
  using assms by (simp add: upd_inode_def inode_at_def sget_def set_inode_def obj_def)

lemma wjfs_get_inode_eq:
  "wjfs_get_inode sb mode dev k =
    (if mem k (mem_no k)
     then Ok (Some (length (inodes k)), with_inode (fresh_inode sb mode dev k) k)
     else Ok (None, k\<lparr>mem_no := Suc (mem_no k)\<rparr>))"
proof (cases "mem k (mem_no k)")
  case False
  then show ?thesis
    by (simp add: wjfs_get_inode_def new_inode_def kmem_alloc_def)
next
  case True
  let ?m = "ucast mode :: u16"
  let ?z = "(inode_init_always sb)\<lparr>i_ino := last_ino k + 1, i_mode := ?m, i_uid := fsuid k,
    i_gid := fsgid k, i_atime := clock k, i_mtime := clock k, i_ctime := clock k\<rparr>"
  let ?k = "with_inode ?z k"
  have 1: "new_inode sb k = (Some (length (inodes k)),
      with_inode ((inode_init_always sb)\<lparr>i_ino := last_ino k + 1\<rparr>) k)"
    using True by (simp add: new_inode_def kmem_alloc_def with_inode_def Let_def)
  have upd: "upd_inode (length (inodes k)) f (with_inode y k) = Ok (with_inode (f y) k)" for f y
    by (simp add: with_inode_def upd_inode_last)
  have fields: "fsuid (with_inode y k) = fsuid k" "fsgid (with_inode y k) = fsgid k"
    "clock (with_inode y k) = clock k" for y
    by (simp_all add: with_inode_def)
  show ?thesis
    using True
    by (auto simp: wjfs_get_inode_def 1 upd fields inc_nlink_def Let_def fresh_inode_def type_ops_def
        init_special_inode_def inode_init_always_def)
qed

lemma fs_ok_with_inode:
  assumes "fs_ok k" "i_count z = 1"
  shows "fs_ok (with_inode z k)"
proof (rule fs_ok_inodes [OF assms(1)])
  fix i y assume "iobj (with_inode z k) i = Some y"
  then show "card (users k i) \<le> unat (i_count y)"
    using assms users_fresh [OF assms(1), of "length (inodes k)"] irefs_okD [OF assms(1)]
    by (auto simp: with_inode_def split: if_splits)
qed (auto simp: with_inode_def dest: obj_Some_length)

section \<open>Attaching it\<close>

definition inherit :: "inode \<Rightarrow> u32 \<Rightarrow> inode \<Rightarrow> inode" where
  "inherit dx mode z =
     (if i_mode dx AND S_ISGID \<noteq> 0
      then z\<lparr>i_gid := i_gid dx, i_mode := (if S_ISDIR (ucast mode) then i_mode z OR S_ISGID else i_mode z)\<rparr>
      else z)"

definition attached :: "addr \<Rightarrow> inode \<Rightarrow> addr \<Rightarrow> dentry \<Rightarrow> u32 \<Rightarrow> addr \<Rightarrow> inode \<Rightarrow> kernel \<Rightarrow> kernel" where
  "attached dir dx d x mode i z k =
     set_inode dir (dx\<lparr>i_mtime := clock k, i_ctime := clock k\<rparr>)
       (set_dentry d (x\<lparr>d_inode := Some i, d_count := d_count x + 1\<rparr>)
         (set_inode i (inherit dx mode z) k))"

lemma dget_set:
  assumes "dobj k d = Some x0" "d_count x \<noteq> 0"
  shows "dget d (set_dentry d x k) = Ok (set_dentry d (x\<lparr>d_count := d_count x + 1\<rparr>) k)"
proof -
  have "dobj (set_dentry d x k) d = Some x"
    using obj_Some_length [OF assms(1)] by simp
  then show ?thesis
    using assms(2) by (simp add: dget_def dentry_at_Some)
qed

lemma attach_inode_eq:
  assumes "dobj k d = Some x" "d_inode x = None" "d_count x \<noteq> 0" "iobj k dir = Some dx" "iobj k i = Some z"
    and "dir \<noteq> i"
  shows "attach_inode dir d mode i k = Ok (attached dir dx d x mode i z k)"
proof -
  let ?k = "set_inode i (inherit dx mode z) k"
  have 1: "(if i_mode dx AND S_ISGID \<noteq> 0
            then upd_inode i (\<lambda>x. x\<lparr>i_gid := i_gid dx,
                   i_mode := (if S_ISDIR (ucast mode) then i_mode x OR S_ISGID else i_mode x)\<rparr>) k
            else Ok k) = Ok ?k"
    using assms(5) by (simp add: inherit_def upd_inode_def inode_at_Some set_inode_same)
  have d: "dobj ?k d = Some x"
    using assms(1) by simp
  then have 2: "d_instantiate d (Some i) ?k = Ok (set_dentry d (x\<lparr>d_inode := Some i\<rparr>) ?k)"
    using assms(2) by (simp add: d_instantiate_def dentry_at_Some)
  have 3: "dget d (set_dentry d (x\<lparr>d_inode := Some i\<rparr>) ?k) =
      Ok (set_dentry d (x\<lparr>d_inode := Some i, d_count := d_count x + 1\<rparr>) ?k)"
    using dget_set [OF d, of "x\<lparr>d_inode := Some i\<rparr>"] assms(3) by simp
  let ?k3 = "set_dentry d (x\<lparr>d_inode := Some i, d_count := d_count x + 1\<rparr>) ?k"
  have "iobj ?k3 dir = Some dx"
    using assms(4,6) by simp
  moreover have "clock ?k3 = clock k"
    by (simp add: set_dentry_def set_inode_def)
  ultimately show ?thesis
    unfolding attach_inode_def attached_def inode_at_Some [OF assms(4)] bindR.simps 1 2 3
    by (simp add: upd_inode_def inode_at_Some)
qed

lemma unat_Suc: "unat (w :: u32) + 1 < 2 ^ 32 \<Longrightarrow> unat (w + 1) = unat w + 1"
  by (simp add: unat_add_lem [THEN iffD1])

lemma fs_ok_attached:
  assumes "fs_ok k" "dobj k d = Some x" "d_inode x = None" "unat (d_count x) + 1 < 2 ^ 32"
    and "iobj k dir = Some dx" "iobj k i = Some z" "dir \<noteq> i" "card (users k i) < unat (i_count z)"
  shows "fs_ok (attached dir dx d x mode i z k)"
proof -
  let ?k1 = "set_inode i (inherit dx mode z) k"
  have z: "i_count (inherit dx mode z) = i_count z"
    by (simp add: inherit_def)
  have k1: "fs_ok ?k1" "dobj ?k1 d = Some x" "iobj ?k1 i = Some (inherit dx mode z)" "iobj ?k1 dir = Some dx"
      "users ?k1 = users k"
    using fs_ok_set_inode_same [OF assms(1,6) z] assms obj_Some_length [OF assms(6)]
    by (auto simp: users_def fun_eq_iff)
  let ?k2 = "set_dentry d (x\<lparr>d_inode := Some i\<rparr>) ?k1"
  have k2: "fs_ok ?k2" "dobj ?k2 d = Some (x\<lparr>d_inode := Some i\<rparr>)"
    using d_instantiate_ok(2) [OF k1(1,2) assms(3) k1(3)] assms(8) z k1(5) obj_Some_length [OF k1(2)]
    by simp_all
  have "length (d_subdirs x) \<le> unat (d_count x + 1)"
    using fs_okD(2) [OF assms(1)] assms(2) unat_Suc [OF assms(4)] by (fastforce simp: refs_ok_def)
  then have k3: "fs_ok (set_dentry d (x\<lparr>d_inode := Some i, d_count := d_count x + 1\<rparr>) ?k1)"
    using fs_ok_set_count [OF k2, of "d_count x + 1"] by simp
  then show ?thesis
    unfolding attached_def by (rule fs_ok_set_inode_same) (use k1(4) in simp_all)
qed

section \<open>What the methods do\<close>

lemma fs_ok_same_fs:
  assumes "fs_ok k" "same_fs k k'"
  shows "fs_ok k'"
  by (rule fs_ok_inodes [OF assms(1)]) (auto simp: same_fs_fields [OF assms(2)] irefs_okD [OF assms(1)])

text \<open>
  A name in the cache is short enough for a request: \<open>d_alloc\<close> is called with at most 255
  bytes.
\<close>

definition short_name :: "dentry \<Rightarrow> bool" where
  "short_name x \<longleftrightarrow> d_len x < 256"

lemma short_nameD:
  assumes "fs_ok k" "dobj k d = Some x" "short_name x"
  shows "holds (d_name x) (cstring (d_name x))" "length (cstring (d_name x)) < 256"
  using names_okD [OF tree_okD(5) [OF fs_okD(1) [OF assms(1)]] assms(2)] assms(3)
  by (simp_all add: short_name_def)

text \<open>The request that announces a new entry to the peer.\<close>

definition entry_text :: "string \<Rightarrow> u32 \<Rightarrow> dentry \<Rightarrow> u32 \<Rightarrow> dentry \<Rightarrow> u32 \<Rightarrow> string" where
  "entry_text cmd ino x pino px mode =
     blanks (entry_words cmd ino (cstring (d_name x)) pino (cstring (d_name px))) @ mode_word mode"

definition dir_flag :: "u32 \<Rightarrow> u32" where
  "dir_flag mode = (if S_ISDIR (ucast mode) then 1 else 0)"

text \<open>The caller's side of a method that makes an entry: a negative dentry \<open>d\<close> in a directory.\<close>

definition entry_free :: "kernel \<Rightarrow> addr \<Rightarrow> addr \<Rightarrow> dentry \<Rightarrow> dentry \<Rightarrow> inode \<Rightarrow> bool" where
  "entry_free k dir d x px dx \<longleftrightarrow> fs_ok k \<and> dobj k d = Some x \<and> d_inode x = None \<and> d_count x \<noteq> 0 \<and>
     unat (d_count x) + 1 < 2 ^ 32 \<and> short_name x \<and> d_parent x \<noteq> d \<and> dobj k (d_parent x) = Some px \<and>
     short_name px \<and> d_inode px = Some dir \<and> iobj k dir = Some dx"

definition made :: "addr \<Rightarrow> inode \<Rightarrow> addr \<Rightarrow> dentry \<Rightarrow> u32 \<Rightarrow> u32 \<Rightarrow> kernel \<Rightarrow> kernel" where
  "made dir dx d x mode dev k =
     (let z = fresh_inode (i_sb dx) mode dev k
      in attached dir dx d x mode (length (inodes k)) z (with_inode z k))"

lemma with_inode_simps [simp]:
  "dents (with_inode z k) = dents k" "dhash (with_inode z k) = dhash k" "clock (with_inode z k) = clock k"
  "inodes (with_inode z k) = inodes k @ [Some z]" "last_ino (with_inode z k) = last_ino k + 1"
  by (simp_all add: with_inode_def)

lemma attached_simps [simp]:
  "dhash (attached dir dx d x mode i z k) = dhash k" "clock (attached dir dx d x mode i z k) = clock k"
  "dents (attached dir dx d x mode i z k) = (dents k)[d := Some (x\<lparr>d_inode := Some i, d_count := d_count x + 1\<rparr>)]"
  "inodes (attached dir dx d x mode i z k) =
    (inodes k)[i := Some (inherit dx mode z), dir := Some (dx\<lparr>i_mtime := clock k, i_ctime := clock k\<rparr>)]"
  by (simp_all add: attached_def set_inode_def set_dentry_def)

lemma inherit_ino [simp]: "i_ino (inherit dx mode z) = i_ino z" "i_count (inherit dx mode z) = i_count z"
  by (simp_all add: inherit_def)

lemma fresh_inode_simps [simp]:
  "i_ino (fresh_inode sb mode dev k) = last_ino k + 1" "i_count (fresh_inode sb mode dev k) = 1"
  by (simp_all add: fresh_inode_def Let_def)

lemma attach_fresh:
  fixes mode dev :: u32
  assumes "entry_free k dir d x px dx"
  defines "z \<equiv> fresh_inode (i_sb dx) mode dev k"
  shows "attach_inode dir d mode (length (inodes k)) (with_inode z k) = Ok (made dir dx d x mode dev k)"
    and "fs_ok (made dir dx d x mode dev k)"
proof -
  let ?i = "length (inodes k)"
  have dir: "dir \<noteq> ?i" "iobj (with_inode z k) dir = Some dx"
    using assms(1) obj_Some_length by (fastforce simp: entry_free_def)+
  have i: "iobj (with_inode z k) ?i = Some z"
    by simp
  show "attach_inode dir d mode ?i (with_inode z k) = Ok (made dir dx d x mode dev k)"
    unfolding made_def Let_def z_def [symmetric]
    by (rule attach_inode_eq) (use assms(1) dir i in \<open>auto simp: entry_free_def\<close>)
  have ok: "fs_ok (with_inode z k)"
    using assms(1) by (intro fs_ok_with_inode) (auto simp: entry_free_def z_def)
  have "users (with_inode z k) ?i = {}"
    using users_fresh [of k ?i] assms(1) by (simp add: entry_free_def users_def)
  then show "fs_ok (made dir dx d x mode dev k)"
    unfolding made_def Let_def z_def [symmetric]
    by (intro fs_ok_attached) (use assms(1) dir i ok in \<open>auto simp: entry_free_def z_def\<close>)
qed

lemma made_objs:
  assumes "entry_free k dir d x px dx"
  shows "iobj (made dir dx d x mode dev k) (length (inodes k)) =
      Some (inherit dx mode (fresh_inode (i_sb dx) mode dev k))"
    and "dobj (made dir dx d x mode dev k) d = Some (x\<lparr>d_inode := Some (length (inodes k)), d_count := d_count x + 1\<rparr>)"
    and "dobj (made dir dx d x mode dev k) (d_parent x) = Some px"
    and "iobj (made dir dx d x mode dev k) dir = Some (dx\<lparr>i_mtime := clock k, i_ctime := clock k\<rparr>)"
  using assms obj_Some_length [of "dents k" d] obj_Some_length [of "inodes k" dir]
  by (auto simp: entry_free_def made_def Let_def)

lemma wjfs_mknod_eq:
  assumes "entry_free k dir d x px dx" "client_frame_ok cf" "mem k (mem_no k)"
  shows "wjfs_mknod cf dir d mode dev k =
    Ok (0, snd (exchange (entry_text ''CR'' (last_ino k + 1) x (i_ino dx) px (dir_flag mode))
                  (made dir dx d x mode dev k)))"
proof -
  note [simp] = wjfs_get_inode_eq attach_fresh(1) [OF assms(1)]
  let ?k = "made dir dx d x mode dev k"
  let ?t = "entry_text ''CR'' (last_ino k + 1) x (i_ino dx) px (dir_flag mode)"
  have x: "dobj k d = Some x" "iobj k dir = Some dx" "short_name x" "short_name px" "fs_ok k"
    "dobj k (d_parent x) = Some px" "d_inode px = Some dir"
    using assms(1) by (auto simp: entry_free_def)
  note n = short_nameD [OF x(5,1,3)] and p = short_nameD [OF x(5,6,4)]
  have "wjfs_client_create cf test_ip test_port (last_ino k + 1) (d_name x) (i_ino dx) (d_name px) (dir_flag mode) ?k =
      Ok (exchange ?t ?k)"
    unfolding entry_text_def by (rule client_create_eq [OF assms(2) n(1) p(1) n(2) p(2)])
  then show ?thesis
    using assms(3) x made_objs [OF assms(1)]
    by (cases "exchange ?t ?k") (simp add: wjfs_mknod_def dentry_at_Some inode_at_Some dir_flag_def)
qed

text \<open>A method of the example: the new entry \<open>new\<close> in the root.\<close>

lemma kernel1_entry_free:
  "entry_free kernel1 0 3 (ex_dentry ''new'' 1 None 0 []) (ex_dentry ''/'' 4 (Some 0) 0 [4, 3, 1])
     (ex_inode 1 0x41ED 4 DirOps)"
  by (simp add: entry_free_def kernel1_ok short_name_def)

lemma kernel1_memory: "mem kernel1 n"
  by (simp add: kernel1_def kernel0_def)

section \<open>Properties\<close>

text \<open>
  C10.  \<open>wjfs_mknod\<close> on a negative dentry of a directory, with memory for an inode: it returns
  0, the dentry gets a new inode with the next number, the type's operations and one
  reference, and a second reference to itself; the directory's times change and no other
  object does; the invariant of the file system is kept; and the peer is told, or not when
  the network fails, as \<open>exchange\<close> says.
\<close>

theorem mknod_makes_entry:
  assumes "entry_free k dir d x px dx" "client_frame_ok cf" "mem k (mem_no k)"
  shows "\<exists>k'. wjfs_mknod cf dir d mode dev k = Ok (0, k') \<and> fs_ok k' \<and>
    dobj k' d = Some (x\<lparr>d_inode := Some (length (inodes k)), d_count := d_count x + 1\<rparr>) \<and>
    iobj k' (length (inodes k)) = Some (inherit dx mode (fresh_inode (i_sb dx) mode dev k)) \<and>
    iobj k' dir = Some (dx\<lparr>i_mtime := clock k, i_ctime := clock k\<rparr>) \<and>
    (\<forall>e. e \<noteq> d \<longrightarrow> dobj k' e = dobj k e) \<and>
    (\<forall>j. j \<noteq> dir \<and> j \<noteq> length (inodes k) \<longrightarrow> iobj k' j = iobj k j) \<and>
    k' = snd (exchange (entry_text ''CR'' (last_ino k + 1) x (i_ino dx) px (dir_flag mode))
                (made dir dx d x mode dev k))"
proof -
  let ?k = "made dir dx d x mode dev k"
  define k' where "k' = snd (exchange (entry_text ''CR'' (last_ino k + 1) x (i_ino dx) px (dir_flag mode)) ?k)"
  have same: "same_fs ?k k'"
    by (simp add: k'_def same_fs_exchange)
  have "wjfs_mknod cf dir d mode dev k = Ok (0, k')"
    unfolding k'_def by (rule wjfs_mknod_eq [OF assms])
  moreover have "fs_ok k'"
    using attach_fresh(2) [OF assms(1)] same by (rule fs_ok_same_fs)
  moreover have "\<forall>e. e \<noteq> d \<longrightarrow> dobj ?k e = dobj k e"
    "\<forall>j. j \<noteq> dir \<and> j \<noteq> length (inodes k) \<longrightarrow> iobj ?k j = iobj k j"
    by (auto simp: made_def Let_def)
  ultimately show ?thesis
    using made_objs [OF assms(1)] same_fs_fields(1,2) [OF same] unfolding k'_def by auto
qed

theorem mknod_makes_entry_witness:
  "\<exists>k'. wjfs_mknod cf0 0 3 0x81A4 0 kernel1 = Ok (0, k') \<and> fs_ok k' \<and>
    dobj k' 3 = Some ((ex_dentry ''new'' 1 None 0 [])\<lparr>d_inode := Some (length (inodes kernel1)),
      d_count := d_count (ex_dentry ''new'' 1 None 0 []) + 1\<rparr>) \<and>
    iobj k' (length (inodes kernel1)) =
      Some (inherit (ex_inode 1 0x41ED 4 DirOps) 0x81A4 (fresh_inode (i_sb (ex_inode 1 0x41ED 4 DirOps)) 0x81A4 0 kernel1)) \<and>
    iobj k' 0 = Some ((ex_inode 1 0x41ED 4 DirOps)\<lparr>i_mtime := clock kernel1, i_ctime := clock kernel1\<rparr>) \<and>
    (\<forall>e. e \<noteq> 3 \<longrightarrow> dobj k' e = dobj kernel1 e) \<and>
    (\<forall>j. j \<noteq> 0 \<and> j \<noteq> length (inodes kernel1) \<longrightarrow> iobj k' j = iobj kernel1 j) \<and>
    k' = snd (exchange (entry_text ''CR'' (last_ino kernel1 + 1) (ex_dentry ''new'' 1 None 0 [])
                 (i_ino (ex_inode 1 0x41ED 4 DirOps)) (ex_dentry ''/'' 4 (Some 0) 0 [4, 3, 1]) (dir_flag 0x81A4))
                (made 0 (ex_inode 1 0x41ED 4 DirOps) 3 (ex_dentry ''new'' 1 None 0 []) 0x81A4 0 kernel1))"
  by (rule mknod_makes_entry [OF kernel1_entry_free cf0_ok kernel1_memory])

text \<open>
  C26.  Without memory for an inode \<open>wjfs_mknod\<close> does not return \<open>- ENOSPC\<close>: it goes on to
  read the inode number through the null pointer, for every mode and device.
\<close>

theorem mknod_no_memory:
  assumes "dobj k d = Some x" "iobj k dir = Some dx" "\<not> mem k (mem_no k)"
  shows "wjfs_mknod cf dir d mode dev k = Fault NullDeref"
  using assms by (simp add: wjfs_mknod_def wjfs_get_inode_eq dentry_at_Some inode_at_Some)

theorem mknod_no_memory_witness:
  "wjfs_mknod cf0 0 3 0x81A4 0 (kernel1\<lparr>mem := \<lambda>_. False\<rparr>) = Fault NullDeref"
  by (rule mknod_no_memory) simp_all

lemma ucast_or: "(ucast (mode OR ucast t :: u32) :: u16) = ucast mode OR t"
  by (simp add: bit_eq_iff bit_or_iff bit_ucast_iff)

lemma type_or:
  assumes "(m :: u16) AND S_IFMT = 0" "t AND S_IFMT = t"
  shows "(m OR t) AND S_IFMT = t"
  using assms by (simp add: bit.conj_disj_distrib2)

lemma S_IFDIR_type [simp]: "S_IFDIR AND S_IFMT = S_IFDIR" and S_IFREG_type [simp]: "S_IFREG AND S_IFMT = S_IFREG"
  by (simp_all add: S_IFDIR_def S_IFREG_def S_IFMT_def)

text \<open>
  C25.  \<open>wjfs_mkdir\<close> on a negative dentry of a directory, with memory: it returns 0; the new
  inode is a directory with two links and the directory operations, the parent has one
  link more, and the invariant of the file system is kept.
\<close>

theorem mkdir_makes_directory:
  assumes "entry_free k dir d x px dx" "client_frame_ok cf" "mem k (mem_no k)" "(ucast mode :: u16) AND S_IFMT = 0"
  shows "\<exists>k' y z. wjfs_mkdir cf dir d mode k = Ok (0, k') \<and> fs_ok k' \<and>
    dobj k' d = Some (x\<lparr>d_inode := Some (length (inodes k)), d_count := d_count x + 1\<rparr>) \<and>
    iobj k' (length (inodes k)) = Some y \<and> S_ISDIR (i_mode y) \<and> i_nlink y = 2 \<and> i_ops y = DirOps \<and>
    i_ino y = last_ino k + 1 \<and> iobj k' dir = Some z \<and> i_nlink z = i_nlink dx + 1 \<and> i_ino z = i_ino dx"
proof -
  let ?mode = "mode OR ucast S_IFDIR"
  let ?k = "made dir dx d x ?mode 0 k"
  define k1 where "k1 = snd (exchange (entry_text ''CR'' (last_ino k + 1) x (i_ino dx) px (dir_flag ?mode)) ?k)"
  have same: "same_fs ?k k1"
    by (simp add: k1_def same_fs_exchange)
  have ok: "fs_ok k1"
    using attach_fresh(2) [OF assms(1)] same by (rule fs_ok_same_fs)
  let ?dx = "dx\<lparr>i_mtime := clock k, i_ctime := clock k\<rparr>"
  let ?y = "inherit dx ?mode (fresh_inode (i_sb dx) ?mode 0 k)"
  have objs: "iobj k1 dir = Some ?dx" "iobj k1 (length (inodes k)) = Some ?y"
    "dobj k1 d = Some (x\<lparr>d_inode := Some (length (inodes k)), d_count := d_count x + 1\<rparr>)"
    using made_objs [OF assms(1)] same_fs_fields(1,2) [OF same] by simp_all
  have dir: "dir \<noteq> length (inodes k)"
    using assms(1) obj_Some_length [of "inodes k" dir] by (auto simp: entry_free_def)
  define k' where "k' = set_inode dir (?dx\<lparr>i_nlink := i_nlink dx + 1\<rparr>) k1"
  have "wjfs_mkdir cf dir d mode k = Ok (0, k')"
    using wjfs_mknod_eq [OF assms(1-3), of ?mode 0] objs(1)
    by (simp add: wjfs_mkdir_def k1_def [symmetric] inc_nlink_def upd_inode_def inode_at_Some k'_def)
  moreover have "fs_ok k'"
    unfolding k'_def by (rule fs_ok_set_inode_same [OF ok objs(1)]) simp
  moreover have t: "(ucast mode OR S_IFDIR) AND S_IFMT = S_IFDIR"
    using assms(4) by (rule type_or) simp
  moreover have sg: "((ucast mode OR S_IFDIR) OR S_ISGID) AND S_IFMT = S_IFDIR"
    using t by (simp add: bit.conj_disj_distrib2 S_ISGID_def S_IFMT_def)
  ultimately have "S_ISDIR (i_mode ?y)" "i_nlink ?y = 2" "i_ops ?y = DirOps" "i_ino ?y = last_ino k + 1"
    by (auto simp: inherit_def fresh_inode_def Let_def ucast_or S_ISDIR_def type_ops_def)
  then show ?thesis
    using \<open>wjfs_mkdir cf dir d mode k = Ok (0, k')\<close> \<open>fs_ok k'\<close> objs dir obj_Some_length [OF objs(1)]
    by (auto simp: k'_def)
qed

theorem mkdir_makes_directory_witness:
  "\<exists>k' y z. wjfs_mkdir cf0 0 3 0x1ED kernel1 = Ok (0, k') \<and> fs_ok k' \<and>
    dobj k' 3 = Some ((ex_dentry ''new'' 1 None 0 [])\<lparr>d_inode := Some (length (inodes kernel1)),
      d_count := d_count (ex_dentry ''new'' 1 None 0 []) + 1\<rparr>) \<and>
    iobj k' (length (inodes kernel1)) = Some y \<and> S_ISDIR (i_mode y) \<and> i_nlink y = 2 \<and> i_ops y = DirOps \<and>
    i_ino y = last_ino kernel1 + 1 \<and> iobj k' 0 = Some z \<and> i_nlink z = i_nlink (ex_inode 1 0x41ED 4 DirOps) + 1 \<and>
    i_ino z = i_ino (ex_inode 1 0x41ED 4 DirOps)"
  by (rule mkdir_makes_directory [OF kernel1_entry_free cf0_ok kernel1_memory]) (simp add: S_IFMT_def)

section \<open>Removing an entry\<close>

text \<open>
  The caller's side of a method that removes an entry: a positive dentry \<open>d\<close> that the cache
  keeps, with a reference of the caller beside it.
\<close>

definition entry_used :: "kernel \<Rightarrow> addr \<Rightarrow> addr \<Rightarrow> dentry \<Rightarrow> dentry \<Rightarrow> inode \<Rightarrow> addr \<Rightarrow> inode \<Rightarrow> bool" where
  "entry_used k dir d x px dx i z \<longleftrightarrow> fs_ok k \<and> dobj k d = Some x \<and> d_inode x = Some i \<and> iobj k i = Some z \<and>
     length (d_subdirs x) + 1 < unat (d_count x) \<and> short_name x \<and> d_parent x \<noteq> d \<and>
     dobj k (d_parent x) = Some px \<and> short_name px \<and> d_inode px = Some dir \<and> iobj k dir = Some dx \<and> i \<noteq> dir"

text \<open>The entry loses a reference and \<open>n\<close> links, and its directory \<open>m\<close> links.\<close>

definition removed :: "addr \<Rightarrow> inode \<Rightarrow> addr \<Rightarrow> dentry \<Rightarrow> addr \<Rightarrow> inode \<Rightarrow> u32 \<Rightarrow> u32 \<Rightarrow> kernel \<Rightarrow> kernel" where
  "removed dir dx d x i z n m k =
     k\<lparr>inodes := (inodes k)[i := Some (z\<lparr>i_ctime := clock k, i_nlink := i_nlink z - n\<rparr>),
                           dir := Some (dx\<lparr>i_ctime := clock k, i_mtime := clock k, i_nlink := i_nlink dx - m\<rparr>)],
       dents := (dents k)[d := Some (x\<lparr>d_count := d_count x - 1\<rparr>)]\<rparr>"

lemma dput_kept:
  assumes "dobj k d = Some x" "d_count x - 1 \<noteq> 0"
  shows "dput (Some d) k = Ok (set_dentry d (x\<lparr>d_count := d_count x - 1\<rparr>) k)"
  using assms by (simp add: dput.simps dentry_at_Some)

lemma upd_inode_Some: "iobj k i = Some z \<Longrightarrow> upd_inode i f k = Ok (set_inode i (f z) k)"
  by (simp add: upd_inode_def inode_at_Some)

lemma entry_usedD:
  assumes "entry_used k dir d x px dx i z"
  shows "dobj k d = Some x" "d_inode x = Some i" "iobj k i = Some z" "dobj k (d_parent x) = Some px"
    "d_inode px = Some dir" "iobj k dir = Some dx" "i \<noteq> dir" "dir \<noteq> i" "d_parent x \<noteq> d" "fs_ok k"
    "short_name x" "short_name px" "d_count x - 1 \<noteq> 0" "length (d_subdirs x) < unat (d_count x - 1)"
proof -
  have n: "length (d_subdirs x) + 1 < unat (d_count x)"
    using assms by (simp add: entry_used_def)
  then have "unat (d_count x - 1) = unat (d_count x) - 1"
    by (intro unat_minus_one) auto
  then show "length (d_subdirs x) < unat (d_count x - 1)" and "d_count x - 1 \<noteq> 0"
    using n by (auto simp del: unat_eq_0 simp: unat_eq_0 [symmetric])
qed (use assms in \<open>auto simp: entry_used_def\<close>)

text \<open>The body shared by \<open>wjfs_unlink\<close>, \<open>simple_unlink\<close> and the removals asked for by the peer.\<close>

lemma unlink_body_eq:
  assumes "entry_used k dir d x px dx i z"
  shows "bindR (upd_inode dir (\<lambda>x. x\<lparr>i_ctime := clock k, i_mtime := clock k\<rparr>) k) (\<lambda>k.
    bindR (upd_inode i (\<lambda>x. x\<lparr>i_ctime := clock k\<rparr>) k) (\<lambda>k.
    bindR (drop_nlink i k) (\<lambda>k.
    bindR (dput (Some d) k) f))) = f (removed dir dx d x i z 1 0 k)"
proof -
  note x = entry_usedD [OF assms]
  let ?k1 = "set_inode dir (dx\<lparr>i_ctime := clock k, i_mtime := clock k\<rparr>) k"
  let ?k2 = "set_inode i (z\<lparr>i_ctime := clock k\<rparr>) ?k1"
  let ?k3 = "set_inode i (z\<lparr>i_ctime := clock k, i_nlink := i_nlink z - 1\<rparr>) ?k2"
  have "iobj ?k1 i = Some z" "iobj ?k2 i = Some (z\<lparr>i_ctime := clock k\<rparr>)" "clock ?k1 = clock k"
    using x obj_Some_length [OF x(3)] by (simp_all add: set_inode_def)
  moreover have "dput (Some d) ?k3 = Ok (set_dentry d (x\<lparr>d_count := d_count x - 1\<rparr>) ?k3)"
    by (rule dput_kept) (use x in simp_all)
  moreover have "set_dentry d (x\<lparr>d_count := d_count x - 1\<rparr>) ?k3 = removed dir dx d x i z 1 0 k"
    using x(7) by (simp add: removed_def set_inode_def set_dentry_def) (simp add: list_update_swap [of i dir])
  ultimately show ?thesis
    using x by (simp add: upd_inode_Some drop_nlink_def)
qed

lemma removed_objs:
  assumes "entry_used k dir d x px dx i z"
  shows "dobj (removed dir dx d x i z n m k) = (dobj k)(d := Some (x\<lparr>d_count := d_count x - 1\<rparr>))"
    and "iobj (removed dir dx d x i z n m k) = (iobj k)
      (i := Some (z\<lparr>i_ctime := clock k, i_nlink := i_nlink z - n\<rparr>),
       dir := Some (dx\<lparr>i_ctime := clock k, i_mtime := clock k, i_nlink := i_nlink dx - m\<rparr>))"
  using entry_usedD [OF assms] by (simp_all add: removed_def obj_fun_upd)

lemma fs_ok_removed:
  assumes "entry_used k dir d x px dx i z"
  shows "fs_ok (removed dir dx d x i z n m k)"
proof -
  note x = entry_usedD [OF assms]
  let ?k1 = "set_dentry d (x\<lparr>d_count := d_count x - 1\<rparr>) k"
  have ok: "fs_ok ?k1"
    using x by (intro fs_ok_set_count) auto
  have u: "removed dir dx d x i z n m k = set_inode dir (dx\<lparr>i_ctime := clock k, i_mtime := clock k, i_nlink := i_nlink dx - m\<rparr>)
      (set_inode i (z\<lparr>i_ctime := clock k, i_nlink := i_nlink z - n\<rparr>) ?k1)"
    by (simp add: removed_def set_inode_def set_dentry_def)
  have "fs_ok (set_inode i (z\<lparr>i_ctime := clock k, i_nlink := i_nlink z - n\<rparr>) ?k1)"
    by (rule fs_ok_set_inode_same [OF ok]) (use x in simp_all)
  then show ?thesis
    unfolding u by (rule fs_ok_set_inode_same) (use x in simp_all)
qed

text \<open>The request that announces the removal.\<close>

lemma tell_remove:
  assumes "entry_used k dir d x px dx i z" "client_frame_ok cf"
  shows "tell d (removed dir dx d x i z n m k) (\<lambda>ino name pino pname.
      wjfs_client_remove cf test_ip test_port ino name pino pname w (removed dir dx d x i z n m k)) =
    Ok (exchange (entry_text ''RM'' (i_ino z) x (i_ino dx) px w) (removed dir dx d x i z n m k))"
proof -
  note x = entry_usedD [OF assms(1)] and o = removed_objs [OF assms(1), of n m]
  note n = short_nameD [OF x(10,1,11)] and p = short_nameD [OF x(10,4,12)]
  have "wjfs_client_remove cf test_ip test_port (i_ino z) (d_name x) (i_ino dx) (d_name px) w (removed dir dx d x i z n m k) =
      Ok (exchange (entry_text ''RM'' (i_ino z) x (i_ino dx) px w) (removed dir dx d x i z n m k))"
    unfolding entry_text_def by (rule client_remove_eq [OF assms(2) n(1) p(1) n(2) p(2)])
  then show ?thesis
    using x o by (simp add: tell_def dentry_at_Some inode_at_Some)
qed

text \<open>The ownership test, on a positive dentry.\<close>

lemma table_mine_unused: "\<not> list_ex (\<lambda>e. e_used e = 1) t \<Longrightarrow> table_mine t ino = 1"
  by (induction t) auto

lemma is_my_file_eq:
  assumes "dobj k d = Some x" "d_inode x = Some i" "iobj k i = Some z"
  shows "is_my_file k d = Ok (table_mine (reg_ino_mapp_table k) (i_ino z))"
  using assms by (auto simp: is_my_file_def d_inode_of_def dentry_at_Some inode_at_Some table_mine_unused)

text \<open>
  C27.  \<open>wjfs_unlink\<close> of a file of this machine (its inode number is not registered as the
  link of a remote file): it returns 0, drops the reference that kept the dentry and one
  link, touches the times, keeps the invariant, and tells the peer.
\<close>

theorem unlink_own_file:
  assumes "entry_used k dir d x px dx i z" "client_frame_ok cf" "table_mine (reg_ino_mapp_table k) (i_ino z) = 1"
  shows "\<exists>k'. wjfs_unlink cf dir d k = Ok (0, k') \<and> fs_ok k' \<and>
    dobj k' = (dobj k)(d := Some (x\<lparr>d_count := d_count x - 1\<rparr>)) \<and>
    iobj k' = (iobj k)(i := Some (z\<lparr>i_ctime := clock k, i_nlink := i_nlink z - 1\<rparr>),
      dir := Some (dx\<lparr>i_ctime := clock k, i_mtime := clock k\<rparr>)) \<and>
    k' = snd (exchange (entry_text ''RM'' (i_ino z) x (i_ino dx) px 0) (removed dir dx d x i z 1 0 k))"
proof -
  note x = entry_usedD [OF assms(1)]
  define k' where "k' = snd (exchange (entry_text ''RM'' (i_ino z) x (i_ino dx) px 0) (removed dir dx d x i z 1 0 k))"
  have same: "same_fs (removed dir dx d x i z 1 0 k) k'"
    by (simp add: k'_def same_fs_exchange)
  have "wjfs_unlink cf dir d k = Ok (0, k')"
    using tell_remove [OF assms(1,2), of 1 0 0] assms(3) is_my_file_eq [OF x(1,2,3)] x(1,2)
    by (simp add: wjfs_unlink_def unlink_body_eq [OF assms(1)] d_inode_of_def dentry_at_Some k'_def split_beta del: bindR_eq_Ok)
  then show ?thesis
    using fs_ok_same_fs [OF fs_ok_removed [OF assms(1)] same] removed_objs [OF assms(1), of 1 0]
      same_fs_fields(1,2) [OF same] unfolding k'_def by auto
qed

lemma kernel1_entry_used:
  "entry_used kernel1 1 2 (ex_dentry ''a'' 2 (Some 2) 1 []) (ex_dentry ''dir'' 2 (Some 1) 0 [2]) (ex_inode 2 0x41ED 2 DirOps)
     2 (ex_inode 3 0x81A4 1 FileOps)"
  "entry_used kernel1 0 4 (ex_dentry ''e'' 2 (Some 3) 0 []) (ex_dentry ''/'' 4 (Some 0) 0 [4, 3, 1]) (ex_inode 1 0x41ED 4 DirOps)
     3 (ex_inode 4 0x41ED 2 DirOps)"
  using kernel1_ok by (simp_all add: entry_used_def short_name_def)

lemma kernel1_mine: "table_mine (reg_ino_mapp_table kernel1) n = 1"
  using table_mine_iff [of blank_table n] by (simp add: kernel1_def kernel0_def blank_table_ok)

theorem unlink_own_file_witness:
  "\<exists>k'. wjfs_unlink cf0 1 2 kernel1 = Ok (0, k') \<and> fs_ok k' \<and> d_count (the (dobj k' 2)) = 1 \<and>
    i_nlink (the (iobj k' 2)) = 0"
  using unlink_own_file [OF kernel1_entry_used(1) cf0_ok kernel1_mine] by (auto simp: ex_dentry_simps)

text \<open>
  C29.  \<open>wjfs_unlink\<close> and \<open>wjfs_rmdir\<close> of an entry whose inode number is registered as the link of
  a remote file change nothing and send nothing, and still return 0, the value for success.
\<close>

theorem remove_foreign_entry:
  assumes "dobj k d = Some x" "d_inode x = Some i" "iobj k i = Some z"
    and "g \<in># regs (reg_ino_mapp_table k)" "fst (r_local g) = i_ino z"
  shows "wjfs_unlink cf dir d k = Ok (0, k) \<and> wjfs_rmdir cf dir d k = Ok (0, k)"
proof -
  have "is_my_file k d = Ok 0"
    using is_my_file_eq [OF assms(1-3)] assms(4,5) table_mine_iff [of "reg_ino_mapp_table k" "i_ino z"] by auto
  then show ?thesis
    by (simp add: wjfs_unlink_def wjfs_rmdir_def)
qed

theorem remove_foreign_entry_witness:
  "wjfs_unlink cf0 1 2 (kernel1\<lparr>reg_ino_mapp_table := [blank_entry\<lparr>e_used := 1, e_local_ino := 3\<rparr>]\<rparr>) =
    Ok (0, kernel1\<lparr>reg_ino_mapp_table := [blank_entry\<lparr>e_used := 1, e_local_ino := 3\<rparr>]\<rparr>)"
  using remove_foreign_entry [of "kernel1\<lparr>reg_ino_mapp_table := [blank_entry\<lparr>e_used := 1, e_local_ino := 3\<rparr>]\<rparr>" 2
      "ex_dentry ''a'' 2 (Some 2) 1 []" 2 "ex_inode 3 0x81A4 1 FileOps" "view (blank_entry\<lparr>e_used := 1, e_local_ino := 3\<rparr>)" cf0 1]
  by (simp add: regs_def view_def)

section \<open>Empty directories\<close>

lemma any_positive_eq:
  assumes "\<forall>c\<in>set cs. dobj k c \<noteq> None"
  shows "any_positive k cs = Ok (\<exists>c\<in>set cs. \<exists>y. dobj k c = Some y \<and> d_inode y \<noteq> None \<and> c \<in> set (dhash k))"
  using assms by (induction cs) (auto simp: dentry_at_Some d_unhashed_def simp del: bindR_eq_Ok)

lemma simple_empty_eq:
  assumes "fs_ok k" "dobj k d = Some x"
  shows "simple_empty d k =
    Ok (\<forall>c\<in>set (d_subdirs x). \<forall>y. dobj k c = Some y \<longrightarrow> d_inode y = None \<or> c \<notin> set (dhash k))"
proof -
  have "\<forall>c\<in>set (d_subdirs x). dobj k c \<noteq> None"
    using children_okD [OF tree_okD(1) [OF fs_okD(1) [OF assms(1)]] assms(2)] by fastforce
  then show ?thesis
    using assms(2) by (auto simp: simple_empty_def dentry_at_Some any_positive_eq)
qed

lemma simple_unlink_eq:
  assumes "entry_used k dir d x px dx i z"
  shows "simple_unlink dir d k = Ok (0, removed dir dx d x i z 1 0 k)"
  using unlink_body_eq [OF assms, of "\<lambda>k. Ok (0, k)"] entry_usedD(1,2) [OF assms]
  by (simp add: simple_unlink_def d_inode_of_def dentry_at_Some del: bindR_eq_Ok)

text \<open>The body shared by \<open>wjfs_rmdir\<close> and \<open>wjfs_rmdir_rdma\<close>, after the test.\<close>

lemma rmdir_body_eq:
  assumes "entry_used k dir d x px dx i z"
  shows "bindR (drop_nlink i k) (\<lambda>k. bindR (simple_unlink dir d k) (\<lambda>(_, k). bindR (drop_nlink dir k) f)) =
    f (removed dir dx d x i z 2 1 k)"
proof -
  note x = entry_usedD [OF assms]
  let ?z = "z\<lparr>i_nlink := i_nlink z - 1\<rparr>"
  let ?k = "set_inode i ?z k"
  let ?r = "removed dir dx d x i ?z 1 0 ?k"
  have used: "entry_used ?k dir d x px dx i ?z"
    using assms obj_Some_length [OF x(3)] fs_ok_set_inode_same [OF x(10,3), of ?z]
    by (auto simp: entry_used_def)
  have "drop_nlink i k = Ok ?k"
    using x(3) by (simp add: drop_nlink_def upd_inode_Some)
  moreover have "clock ?k = clock k"
    by (simp add: set_inode_def)
  then have "iobj ?r dir = Some (dx\<lparr>i_ctime := clock k, i_mtime := clock k\<rparr>)"
    using removed_objs(2) [OF used, of 1 0] by simp
  then have "drop_nlink dir ?r = Ok (set_inode dir (dx\<lparr>i_ctime := clock k, i_mtime := clock k, i_nlink := i_nlink dx - 1\<rparr>) ?r)"
    by (simp add: drop_nlink_def upd_inode_Some)
  moreover have "set_inode dir (dx\<lparr>i_ctime := clock k, i_mtime := clock k, i_nlink := i_nlink dx - 1\<rparr>) ?r =
      removed dir dx d x i z 2 1 k"
    using x(7) by (simp add: removed_def set_inode_def)
  ultimately show ?thesis
    using simple_unlink_eq [OF used] by simp
qed

text \<open>
  C28.  \<open>wjfs_rmdir\<close> of a directory of this machine.  When some hashed child has an inode it
  returns \<open>- ENOTEMPTY\<close> and changes nothing.  Otherwise it returns 0: the directory loses two
  links and the reference that kept it, the parent loses one link, the invariant is kept and
  the peer is told.
\<close>

theorem rmdir_own_directory:
  assumes "entry_used k dir d x px dx i z" "client_frame_ok cf" "table_mine (reg_ino_mapp_table k) (i_ino z) = 1"
  defines "full \<equiv> \<exists>c\<in>set (d_subdirs x). \<exists>y. dobj k c = Some y \<and> d_inode y \<noteq> None \<and> c \<in> set (dhash k)"
  shows "wjfs_rmdir cf dir d k =
    (if full then Ok (- ENOTEMPTY, k)
     else Ok (0, snd (exchange (entry_text ''RM'' (i_ino z) x (i_ino dx) px 1) (removed dir dx d x i z 2 1 k)))) \<and>
    fs_ok (snd (exchange (entry_text ''RM'' (i_ino z) x (i_ino dx) px 1) (removed dir dx d x i z 2 1 k)))"
proof -
  note x = entry_usedD [OF assms(1)]
  have "simple_empty d k = Ok (\<not> full)"
    using simple_empty_eq [OF x(10,1)] by (auto simp: full_def)
  then have "wjfs_rmdir cf dir d k =
    (if full then Ok (- ENOTEMPTY, k)
     else Ok (0, snd (exchange (entry_text ''RM'' (i_ino z) x (i_ino dx) px 1) (removed dir dx d x i z 2 1 k))))"
    using tell_remove [OF assms(1,2), of 2 1 1] assms(3) is_my_file_eq [OF x(1,2,3)] x(1,2)
    by (simp add: wjfs_rmdir_def rmdir_body_eq [OF assms(1)] d_inode_of_def dentry_at_Some split_beta del: bindR_eq_Ok)
  then show ?thesis
    using fs_ok_same_fs [OF fs_ok_removed [OF assms(1)] same_fs_exchange] by blast
qed

theorem rmdir_own_directory_witness:
  "\<exists>k. wjfs_rmdir cf0 0 4 kernel1 = Ok (0, k) \<and> fs_ok k"
  using rmdir_own_directory [OF kernel1_entry_used(2) cf0_ok kernel1_mine] by auto

end
