(* ===== verification/Lookup.thy ===== *)
theory Lookup
  imports Namei DentryTree
begin

unbundle bit_operations_syntax

text \<open>
  What \<open>lookup_one_len\<close> of \<open>fs/namei.c\<close> does on a well-formed tree: it finds the hashed
  child with the name, or links a new negative one, and keeps the invariant.
\<close>

section \<open>The dentry cache\<close>

definition named :: "kernel \<Rightarrow> addr \<Rightarrow> string \<Rightarrow> addr \<Rightarrow> bool" where
  "named k p s d \<longleftrightarrow> (\<exists>x. dobj k d = Some x \<and> d_parent x = p \<and> cstring (d_name x) = s)"

lemma holds_take: "holds b s \<Longrightarrow> take (length s) b = s"
  by (auto simp: holds_iff)

lemma d_lookup_chain_eq:
  assumes "names_ok k" "\<forall>d\<in>set ds. dobj k d \<noteq> None" "holds name s"
  shows "d_lookup_chain k ds p name (length s) = Ok (List.find (named k p s) ds)"
  using assms(2)
proof (induction ds)
  case (Cons d ds)
  then obtain x where x: "dobj k d = Some x"
    by auto
  note n = names_okD [OF assms(1) x]
  show ?case
  proof (cases "d_parent x = p \<and> d_len x = length s")
    case True
    then have len: "length (cstring (d_name x)) = length s"
      using n by simp
    have h: "holds (d_name x) (cstring (d_name x))"
      using n by simp
    have "length s \<le> length (d_name x)" "length s \<le> length name"
      using len holds_length [OF h] holds_length [OF assms(3)] by simp_all
    from memcmp_0 [OF this]
    obtain r where r: "memcmp (d_name x) name (length s) = Ok r" "r = 0 \<longleftrightarrow> cstring (d_name x) = s"
      using holds_take [OF h] holds_take [OF assms(3)] len by auto
    then show ?thesis
      using Cons True x by (auto simp: dentry_at_Some named_def simp del: memcmp_eq_0 bindR_eq_Ok)
  next
    case False
    then show ?thesis
      using Cons x n by (auto simp: dentry_at_Some named_def)
  qed
qed simp

lemma d_lookup_eq:
  assumes "fs_ok k" "holds name s"
  shows "d_lookup p name (length s) k = Ok
    (case List.find (named k p s) (dhash k) of None \<Rightarrow> (None, k)
     | Some d \<Rightarrow> (Some d, set_dentry d (the (dobj k d)\<lparr>d_count := d_count (the (dobj k d)) + 1\<rparr>) k))"
proof -
  note t = tree_okD [OF fs_okD(1) [OF assms(1)]]
  have live: "\<forall>d\<in>set (dhash k). dobj k d \<noteq> None"
    using t(6) by (simp add: hash_ok_def)
  show ?thesis
  proof (cases "List.find (named k p s) (dhash k)")
    case None
    then show ?thesis
      by (simp add: d_lookup_def d_lookup_chain_eq [OF t(5) live assms(2)])
  next
    case (Some d)
    then have "named k p s d"
      by (auto simp: find_Some_iff)
    then show ?thesis
      using Some by (auto simp: d_lookup_def d_lookup_chain_eq [OF t(5) live assms(2)] named_def upd_dentry_def
          dentry_at_Some)
  qed
qed

section \<open>A new negative dentry\<close>

definition looked_up :: "addr \<Rightarrow> dentry \<Rightarrow> string \<Rightarrow> nat \<Rightarrow> kernel \<Rightarrow> kernel" where
  "looked_up p x s n k =
     (let d = length (dents k) in
      k\<lparr>mem_no := n, dents := (dents k)[p := Some (with_child d x)] @ [Some ((fresh_dentry p s)\<lparr>d_op_delete := True\<rparr>)],
        dhash := d # dhash k, a_dentry := (if s = ''a'' then Some d else a_dentry k)\<rparr>)"

lemma fresh_dentry_simps [simp]:
  "d_count (fresh_dentry p s) = 1" "d_name (fresh_dentry p s) = s @ [NUL]" "d_len (fresh_dentry p s) = length s"
  "d_inode (fresh_dentry p s) = None" "d_parent (fresh_dentry p s) = p" "d_subdirs (fresh_dentry p s) = []"
  by (simp_all add: fresh_dentry_def)

lemma strcmp_a:
  assumes "NUL \<notin> set s"
  shows "\<exists>c. strcmp (s @ [NUL]) (''a'' @ [NUL]) = Ok c \<and> (c = 0 \<longleftrightarrow> s = ''a'')"
  using strcmp_holds [of "s @ [NUL]" s "''a'' @ [NUL]" "''a''"] holdsI [OF assms, of "[]"] holdsI [of "''a''" "[]"] by auto

lemma lookup_new_eq:
  assumes "dobj k p = Some x" "NUL \<notin> set s" "length s \<le> 255"
  shows "wjfs_lookup dir (length (dents k)) (link_child p (with_child (length (dents k)) x) (fresh_dentry p s) (k\<lparr>mem_no := n\<rparr>)) =
    Ok (None, looked_up p x s n k)"
proof -
  let ?d = "length (dents k)"
  obtain c where c: "strcmp (s @ [NUL]) (''a'' @ [NUL]) = Ok c" "c = 0 \<longleftrightarrow> s = ''a''"
    using strcmp_a [OF assms(2)] by blast
  have "(fresh_dentry p t)\<lparr>d_op_delete := True, d_inode := None\<rparr> = (fresh_dentry p t)\<lparr>d_op_delete := True\<rparr>" for t
    by (simp add: fresh_dentry_def)
  then show ?thesis
    using c assms(3)
    by (simp add: wjfs_lookup_def link_child_def looked_up_def Let_def dentry_at_def sget_def obj_append upd_dentry_def
        set_dentry_def d_add_def d_instantiate_def d_rehash_def bug_on_def NAME_MAX_def list_update_append del: bindR_eq_Ok)
qed

lemma fs_ok_set_dentry:
  assumes "fs_ok k" "dobj k d = Some x" "same_place x x'" "d_inode x' = d_inode x" "length (d_subdirs x) \<le> unat (d_count x')"
  shows "fs_ok (set_dentry d x' k)"
proof -
  let ?k = "set_dentry d x' k"
  have D: "dobj ?k = (dobj k)(d := Some x')"
    using assms(2) by (simp add: obj_fun_upd)
  have "tree_ok ?k"
    using assms inodes_okD [OF tree_okD(4) [OF fs_okD(1) [OF assms(1)]] assms(2)]
    by (intro tree_ok_set_dentry) (auto simp: fs_ok_def)
  moreover have "refs_ok ?k"
    using fs_okD(2) [OF assms(1)] assms(3,5) unfolding refs_ok_def D by (auto simp: same_place_def)
  moreover have "users ?k i = users k i" for i
    unfolding users_def D using assms(2,4) by auto
  then have "irefs_ok ?k"
    using fs_okD(3) [OF assms(1)] by (simp add: irefs_ok_def)
  ultimately show ?thesis
    by (simp add: fs_ok_def)
qed

lemma fs_ok_looked_up:
  assumes "fs_ok k" "dobj k p = Some x" "unat (d_count x) + 1 < 2 ^ 32" "NUL \<notin> set s"
  shows "fs_ok (looked_up p x s n k)"
proof -
  let ?d = "length (dents k)"
  let ?k1 = "link_child p (with_child ?d x) (fresh_dentry p s) k"
  have k1: "fs_ok ?k1"
    by (rule fs_ok_link_child [OF assms])
  have d: "dobj ?k1 ?d = Some (fresh_dentry p s)"
    by (simp add: link_child_def Let_def)
  let ?k2 = "set_dentry ?d ((fresh_dentry p s)\<lparr>d_op_delete := True\<rparr>) ?k1"
  have k2: "fs_ok ?k2"
    by (rule fs_ok_set_dentry [OF k1 d]) (simp_all add: same_place_def)
  have "?d \<notin> set (dhash ?k2)"
    using tree_okD(6) [OF fs_okD(1) [OF assms(1)]] by (auto simp: hash_ok_def link_child_def Let_def dest: obj_Some_length)
  then have "fs_ok (?k2\<lparr>dhash := ?d # dhash ?k2\<rparr>)"
    using k2 by (intro fs_ok_rehash) (auto simp: link_child_def Let_def)
  then show ?thesis
    by (rule fs_ok_cong) (auto simp: looked_up_def Let_def link_child_def set_dentry_def list_update_append)
qed

section \<open>Looking a name up\<close>

lemma d_alloc_memory:
  assumes "\<forall>n. mem k n" "dobj k p = Some x" "d_count x \<noteq> 0" "holds name s"
  shows "\<exists>n. d_alloc (Some p) name (length s) k = Ok (Some (length (dents k)),
      link_child p (with_child (length (dents k)) x) (fresh_dentry p s) (k\<lparr>mem_no := n\<rparr>))"
proof -
  have "d_alloc (Some p) name (length s) k \<noteq> Ok (None, k\<lparr>mem_no := n\<rparr>)" for n
    using assms(1) by (auto simp: d_alloc_def kmem_alloc_def d_init_def Let_def split: option.splits if_splits)
  then show ?thesis
    using d_alloc_eq [OF assms(2,3) holds_take [OF assms(4)]] holds_length [OF assms(4)] less_imp_le by metis
qed

text \<open>The names a lookup accepts.\<close>

definition good_name :: "string \<Rightarrow> bool" where
  "good_name s \<longleftrightarrow> s \<noteq> [] \<and> length s \<le> 255 \<and> NUL \<notin> set s \<and> CHR ''/'' \<notin> set s"

lemma name_chars_ok_eq: "name_chars_ok (s @ r) (length s) = Ok (NUL \<notin> set s \<and> CHR ''/'' \<notin> set s)"
  by (induction s) auto

text \<open>A directory of wjfs in which the caller may look names up.\<close>

definition searchable :: "kernel \<Rightarrow> addr \<Rightarrow> dentry \<Rightarrow> addr \<Rightarrow> inode \<Rightarrow> bool" where
  "searchable k p x dir dx \<longleftrightarrow> fs_ok k \<and> dobj k p = Some x \<and> d_inode x = Some dir \<and> iobj k dir = Some dx \<and>
     S_ISDIR (i_mode dx) \<and> i_ops dx = DirOps \<and> \<not> i_dead dx \<and> generic_permission k dx MAY_EXEC = 0 \<and> d_count x \<noteq> 0 \<and>
     unat (d_count x) + 1 < 2 ^ 32"

lemma searchableD:
  assumes "searchable k p x dir dx"
  shows "fs_ok k" "dobj k p = Some x" "d_inode x = Some dir" "iobj k dir = Some dx" "i_ops dx = DirOps" "\<not> i_dead dx"
    "generic_permission k dx MAY_EXEC = 0" "d_count x \<noteq> 0" "unat (d_count x) + 1 < 2 ^ 32"
  using assms by (auto simp: searchable_def)

lemma lookup_one_len_hash:
  assumes "searchable k p x dir dx" "holds name s" "good_name s"
  shows "lookup_one_len name p (length s) k = lookup_hash name (length s) p k"
proof -
  obtain r where "name = s @ r"
    using assms(2) by (auto simp: holds_iff)
  moreover have "MAY_EXEC AND MAY_WRITE = 0"
    by (simp add: MAY_EXEC_def MAY_WRITE_def)
  ultimately show ?thesis
    using assms(3) searchableD [OF assms(1)]
    by (simp add: lookup_one_len_def good_name_def name_chars_ok_eq d_inode_of_def dentry_at_Some inode_permission_def
        inode_at_Some del: bindR_eq_Ok)
qed

lemma lookup_hit:
  assumes "searchable k p x dir dx" "holds name s" "good_name s" "List.find (named k p s) (dhash k) = Some d" "dobj k d = Some y"
  shows "lookup_one_len name p (length s) k = Ok (Inr d, set_dentry d (y\<lparr>d_count := d_count y + 1\<rparr>) k)"
  using assms(4,5) lookup_one_len_hash [OF assms(1-3)] d_lookup_eq [OF searchableD(1) [OF assms(1)] assms(2), of p]
    searchableD(2,3) [OF assms(1)]
  by (simp add: lookup_hash_def d_inode_of_def dentry_at_Some)

lemma lookup_miss:
  assumes "searchable k p x dir dx" "holds name s" "good_name s" "\<forall>d\<in>set (dhash k). \<not> named k p s d"
  shows "lookup_one_len name p (length s) k =
    bindR (d_alloc (Some p) name (length s) k) (\<lambda>(new, k).
               case new of
                 None \<Rightarrow> Ok (Inl (- ENOMEM), k)
               | Some d \<Rightarrow>
                   bindR (i_op_lookup dir d k) (\<lambda>(err, k).
                     case err of
                       None \<Rightarrow> Ok (Inr d, k)
                     | Some e \<Rightarrow> bindR (dput (Some d) k) (\<lambda>k. Ok (Inl e, k))))"
proof -
  have "List.find (named k p s) (dhash k) = None"
    using assms(4) by (simp add: find_None_iff)
  then show ?thesis
    using lookup_one_len_hash [OF assms(1-3)] d_lookup_eq [OF searchableD(1) [OF assms(1)] assms(2), of p]
      searchableD [OF assms(1)]
    by (simp add: lookup_hash_def d_inode_of_def dentry_at_Some inode_at_Some del: bindR_eq_Ok)
qed

lemma i_op_lookup_new:
  assumes "searchable k p x dir dx" "good_name s"
  shows "i_op_lookup dir (length (dents k))
      (link_child p (with_child (length (dents k)) x) (fresh_dentry p s) (k\<lparr>mem_no := n\<rparr>)) =
    Ok (None, looked_up p x s n k)"
proof -
  note x = searchableD [OF assms(1)]
  have "iobj (link_child p (with_child (length (dents k)) x) (fresh_dentry p s) (k\<lparr>mem_no := n\<rparr>)) dir = Some dx"
    using x by (simp add: link_child_def Let_def)
  then show ?thesis
    using lookup_new_eq [OF x(2), of s] assms(2) x(5) by (simp add: i_op_lookup_def inode_at_Some good_name_def)
qed

lemma lookup_makes:
  assumes "searchable k p x dir dx" "holds name s" "good_name s" "\<forall>d\<in>set (dhash k). \<not> named k p s d" "\<forall>n. mem k n"
  shows "\<exists>n. lookup_one_len name p (length s) k = Ok (Inr (length (dents k)), looked_up p x s n k)"
proof -
  note x = searchableD [OF assms(1)]
  obtain n where "d_alloc (Some p) name (length s) k = Ok (Some (length (dents k)),
      link_child p (with_child (length (dents k)) x) (fresh_dentry p s) (k\<lparr>mem_no := n\<rparr>))"
    using d_alloc_memory [OF assms(5) x(2,8) assms(2)] by blast
  then have "lookup_one_len name p (length s) k = Ok (Inr (length (dents k)), looked_up p x s n k)"
    unfolding lookup_miss [OF assms(1-4)] by (simp add: i_op_lookup_new [OF assms(1,3)] del: bindR_eq_Ok)
  then show ?thesis ..
qed


lemma kernel1_searchable: "searchable kernel1 0 (ex_dentry ''/'' 4 (Some 0) 0 [4, 3, 1]) 0 (ex_inode 1 0x41ED 4 DirOps)"
proof -
  have "acl_permission_check kernel1 (ex_inode 1 0x41ED 4 DirOps) MAY_EXEC = 0"
    by (simp add: acl_permission_check_def Let_def MAY_EXEC_def MAY_READ_def MAY_WRITE_def)
  then have "generic_permission kernel1 (ex_inode 1 0x41ED 4 DirOps) MAY_EXEC = 0"
    by (simp add: generic_permission_def EACCES_def)
  then show ?thesis
    using kernel1_ok
    by (simp add: searchable_def ex_inode_def inode_init_always_def S_ISDIR_def S_IFMT_def S_IFDIR_def)
qed


end
