(* ===== verification/TreeSearch.thy ===== *)
theory TreeSearch
  imports DentryTree
begin

text \<open>
  The two searches of \<open>wjfs.c\<close> that walk the whole dentry tree, \<open>find_from_all_dentry\<close>
  (by name) and \<open>find_dentry_by_ino\<close>.  Both have the same shape: for every child that is
  positive and has a mode, first search the child's subtree if it is a directory, then
  test the child itself.  \<open>search_tree\<close> is that shape, with the test as a parameter; its
  fuel bounds the depth of the recursion, and \<open>length (dents k)\<close> is always enough.
\<close>

section \<open>The searches\<close>

function (sequential) search_tree ::
  "(kernel \<Rightarrow> addr \<Rightarrow> bool res) \<Rightarrow> nat \<Rightarrow> kernel \<Rightarrow> addr \<Rightarrow> addr option res"
and search_list ::
  "(kernel \<Rightarrow> addr \<Rightarrow> bool res) \<Rightarrow> nat \<Rightarrow> kernel \<Rightarrow> addr list \<Rightarrow> addr option res" where
  "search_tree test 0 k d = Fault OutOfFuel"
| "search_tree test (Suc n) k d =
     bindR (dentry_at k d) (\<lambda>x. search_list test n k (d_subdirs x))"
| "search_list test n k [] = Ok None"
| "search_list test n k (c # cs) =
     bindR (dentry_at k c) (\<lambda>y.
       case d_inode y of
         None \<Rightarrow> search_list test n k cs
       | Some i \<Rightarrow>
           bindR (inode_at k i) (\<lambda>z.
             if i_mode z = 0 then search_list test n k cs
             else
               bindR (if S_ISDIR (i_mode z)
                      then bindR (search_tree test n k c) (\<lambda>ans.
                        case ans of
                          None \<Rightarrow> Ok None
                        | Some a \<Rightarrow> bindR (test k a) (\<lambda>b. Ok (if b then Some a else None)))
                      else Ok None) (\<lambda>ans.
                 case ans of
                   Some a \<Rightarrow> Ok (Some a)
                 | None \<Rightarrow>
                     bindR (test k c) (\<lambda>b.
                       if b then Ok (Some c) else search_list test n k cs))))"
  by pat_completeness auto
termination
  by (relation "measures [\<lambda>v. case v of Inl (_, n, _, _) \<Rightarrow> n | Inr (_, n, _, _) \<Rightarrow> n,
      \<lambda>v. case v of Inl _ \<Rightarrow> 0 | Inr (_, _, _, cs) \<Rightarrow> Suc (length cs)]") auto

definition name_is :: "bytes \<Rightarrow> kernel \<Rightarrow> addr \<Rightarrow> bool res" where
  "name_is name k d = bindR (dentry_at k d) (\<lambda>x. bindR (strcmp (d_name x) name) (\<lambda>r. Ok (r = 0)))"

definition ino_is :: "u32 \<Rightarrow> kernel \<Rightarrow> addr \<Rightarrow> bool res" where
  "ino_is ino k d = bindR (d_inode_of k d) (\<lambda>i. bindR (inode_at k i) (\<lambda>x. Ok (i_ino x = ino)))"

definition find_from_all_dentry :: "kernel \<Rightarrow> addr \<Rightarrow> bytes \<Rightarrow> addr option res" where
  "find_from_all_dentry k d name_parent = search_tree (name_is name_parent) (Suc (length (dents k))) k d"

definition find_dentry_by_ino :: "kernel \<Rightarrow> addr \<Rightarrow> u32 \<Rightarrow> addr option res" where
  "find_dentry_by_ino k d ino = search_tree (ino_is ino) (Suc (length (dents k))) k d"

section \<open>What they find\<close>

text \<open>
  The dentries a search from \<open>d\<close> looks at: children that are positive and have a mode,
  and below a child only if it is a directory.
\<close>

definition visible_child :: "kernel \<Rightarrow> addr \<Rightarrow> bool" where
  "visible_child k c \<longleftrightarrow> (\<exists>y i z. dobj k c = Some y \<and> d_inode y = Some i \<and> iobj k i = Some z \<and> i_mode z \<noteq> 0)"

definition is_dir :: "kernel \<Rightarrow> addr \<Rightarrow> bool" where
  "is_dir k c \<longleftrightarrow> (\<exists>y i z. dobj k c = Some y \<and> d_inode y = Some i \<and> iobj k i = Some z \<and> S_ISDIR (i_mode z))"

lemma visible_childE:
  assumes "visible_child k c"
  obtains y i z where "dobj k c = Some y" "d_inode y = Some i" "iobj k i = Some z" "i_mode z \<noteq> 0"
  using assms by (auto simp: visible_child_def)

inductive reaches :: "kernel \<Rightarrow> addr \<Rightarrow> addr \<Rightarrow> bool" for k where
  child: "dobj k d = Some x \<Longrightarrow> c \<in> set (d_subdirs x) \<Longrightarrow> visible_child k c \<Longrightarrow> reaches k d c"
| below: "dobj k d = Some x \<Longrightarrow> c \<in> set (d_subdirs x) \<Longrightarrow> visible_child k c \<Longrightarrow> is_dir k c \<Longrightarrow>
    reaches k c a \<Longrightarrow> reaches k d a"

text \<open>The order in which they look at them: a directory after everything below it.\<close>

function (sequential) walk :: "nat \<Rightarrow> kernel \<Rightarrow> addr \<Rightarrow> addr list"
and walk_list :: "nat \<Rightarrow> kernel \<Rightarrow> addr list \<Rightarrow> addr list" where
  "walk 0 k d = []"
| "walk (Suc n) k d = (case dobj k d of None \<Rightarrow> [] | Some x \<Rightarrow> walk_list n k (d_subdirs x))"
| "walk_list n k [] = []"
| "walk_list n k (c # cs) =
     (if visible_child k c then (if is_dir k c then walk n k c else []) @ [c] else []) @ walk_list n k cs"
  by pat_completeness auto
termination
  by (relation "measures [\<lambda>v. case v of Inl (n, _, _) \<Rightarrow> n | Inr (n, _, _) \<Rightarrow> n,
      \<lambda>v. case v of Inl _ \<Rightarrow> 0 | Inr (_, _, cs) \<Rightarrow> Suc (length cs)]") auto

text \<open>With enough fuel the search gives the first dentry of the walk that passes the test.\<close>

lemma find_append: "List.find P (xs @ ys) = (case List.find P xs of None \<Rightarrow> List.find P ys | Some x \<Rightarrow> Some x)"
  by (induction xs) auto

lemma find_Some_holds: "List.find P xs = Some x \<Longrightarrow> x \<in> set xs \<and> P x"
  by (induction xs) (auto split: if_splits)

lemma walk_visible:
  "a \<in> set (walk n k d) \<Longrightarrow> visible_child k a"
  "a \<in> set (walk_list n k cs) \<Longrightarrow> visible_child k a"
  by (induction n k d and n k cs rule: walk_walk_list.induct)
    (force split: option.splits if_splits)+

lemma search_walk:
  "dobj k d \<noteq> None \<Longrightarrow> card (desc k d) < n \<Longrightarrow> tree_ok k \<Longrightarrow>
    (\<And>a. visible_child k a \<Longrightarrow> test k a = Ok (P a)) \<Longrightarrow>
    search_tree test n k d = Ok (List.find P (walk n k d))"
  "(\<forall>c \<in> set cs. dobj k c \<noteq> None \<and> card (desc k c) < n) \<Longrightarrow> tree_ok k \<Longrightarrow>
    (\<And>a. visible_child k a \<Longrightarrow> test k a = Ok (P a)) \<Longrightarrow>
    search_list test n k cs = Ok (List.find P (walk_list n k cs))"
proof (induction n k d and n k cs rule: walk_walk_list.induct)
  case (2 n k d)
  then obtain x where x: "dobj k d = Some x"
    by auto
  have "dobj k c \<noteq> None \<and> card (desc k c) < n" if "c \<in> set (d_subdirs x)" for c
    using 2 x that desc_child [OF tree_okD(1,3) x that]
    by (fastforce simp: children_ok_def dest: tree_okD(1))
  then show ?case
    using 2 x by simp
next
  case (4 n k c cs)
  then obtain y where y: "dobj k c = Some y"
    by auto
  have rest: "search_list test n k cs = Ok (List.find P (walk_list n k cs))"
    using 4 by simp
  show ?case
  proof (cases "visible_child k c")
    case False
    show ?thesis
    proof (cases "d_inode y")
      case None
      then show ?thesis
        using False rest by (simp add: dentry_at_Some [OF y])
    next
      case (Some i)
      then obtain z where "iobj k i = Some z"
        using inodes_okD [OF tree_okD(4) [OF 4(4)] y] by blast
      moreover from this have "i_mode z = 0"
        using False y Some by (simp add: visible_child_def)
      ultimately show ?thesis
        using False rest Some by (simp add: dentry_at_Some [OF y] inode_at_Some)
    qed
  next
    case True
    then obtain i z where z: "d_inode y = Some i" "iobj k i = Some z" "i_mode z \<noteq> 0"
      using y by (auto simp: visible_child_def)
    have dir: "is_dir k c \<longleftrightarrow> S_ISDIR (i_mode z)"
      using y z by (simp add: is_dir_def)
    have tree: "search_tree test n k c = Ok (List.find P (walk n k c))" if "is_dir k c"
      using 4 True that by simp
    have hit: "test k a = Ok True" if "List.find P (walk n k c) = Some a" for a
      using find_Some_holds [OF that] walk_visible(1) [of a n k c] 4(5) [of a] by simp
    show ?thesis
      using z dir tree hit rest 4(5) [OF True] True
      by (simp add: dentry_at_Some [OF y] inode_at_Some find_append split: option.split)
  qed
qed simp_all

lemma walk_reaches:
  "a \<in> set (walk n k d) \<Longrightarrow> reaches k d a"
  "a \<in> set (walk_list n k cs) \<Longrightarrow> \<exists>c \<in> set cs. visible_child k c \<and> (a = c \<or> is_dir k c \<and> reaches k c a)"
proof (induction n k d and n k cs rule: walk_walk_list.induct)
  case (2 n k d)
  then obtain x where "dobj k d = Some x" "a \<in> set (walk_list n k (d_subdirs x))"
    by (cases "dobj k d") auto
  then show ?case
    using 2 by (auto intro: reaches.intros)
qed (auto split: if_splits)

lemma reaches_walk:
  assumes "reaches k d a" "children_ok k" "\<exists>h. ranked h k" "card (desc k d) < n"
  shows "a \<in> set (walk n k d)"
  using assms
proof (induction arbitrary: n)
  case (child d x c)
  then obtain m where "n = Suc m"
    by (cases n) auto
  moreover have "c \<in> set cs \<Longrightarrow> c \<in> set (walk_list m k cs)" for cs
    using child.hyps(3) by (induction cs) auto
  ultimately show ?case
    using child.hyps by simp
next
  case (below d x c a)
  then obtain m where m: "n = Suc m"
    by (cases n) auto
  have "card (desc k c) < m"
    using desc_child [OF below.prems(1,2) below.hyps(1,2)] below.prems(3) m by simp
  then have "a \<in> set (walk m k c)"
    using below by blast
  then have "c \<in> set cs \<Longrightarrow> a \<in> set (walk_list m k cs)" for cs
    using below.hyps(3,4) by (induction cs) auto
  then show ?case
    using below.hyps m by simp
qed

lemma walk_iff_reaches:
  assumes "tree_ok k"
  shows "a \<in> set (walk (Suc (length (dents k))) k d) \<longleftrightarrow> reaches k d a"
  using walk_reaches(1) reaches_walk [OF _ tree_okD(1) [OF assms] tree_okD(3) [OF assms]]
    le_imp_less_Suc [OF desc_card_le [OF tree_okD(1) [OF assms], of d]]
  by blast

lemma find_cases:
  "case List.find P xs of None \<Rightarrow> (\<forall>a \<in> set xs. \<not> P a) | Some a \<Rightarrow> a \<in> set xs \<and> P a"
  using find_None_iff [of P xs] find_Some_holds [of P xs]
  by (auto split: option.split simp del: find_None_iff find_None_iff2)

section \<open>Properties\<close>

definition ino_of :: "kernel \<Rightarrow> addr \<Rightarrow> u32 option" where
  "ino_of k d =
     (case dobj k d of None \<Rightarrow> None
      | Some x \<Rightarrow> (case d_inode x of None \<Rightarrow> None
          | Some i \<Rightarrow> map_option i_ino (iobj k i)))"

definition name_of :: "kernel \<Rightarrow> addr \<Rightarrow> string" where
  "name_of k d = (case dobj k d of None \<Rightarrow> [] | Some x \<Rightarrow> cstring (d_name x))"

lemma ino_is_visible: "visible_child k a \<Longrightarrow> ino_is ino k a = Ok (ino_of k a = Some ino)"
  by (elim visible_childE) (simp add: ino_is_def ino_of_def d_inode_of_def dentry_at_Some inode_at_Some)

lemma name_is_visible:
  assumes "tree_ok k" "holds name s" "visible_child k a"
  shows "name_is name k a = Ok (name_of k a = s)"
proof -
  obtain x where x: "dobj k a = Some x"
    using assms(3) by (auto simp: visible_child_def)
  then have "holds (d_name x) (cstring (d_name x))"
    using names_okD [OF tree_okD(5) [OF assms(1)]] by blast
  then obtain r where "strcmp (d_name x) name = Ok r" "(r = 0) = (cstring (d_name x) = s)"
    using strcmp_holds [OF _ assms(2)] by blast
  then show ?thesis
    using x by (simp add: name_is_def name_of_def dentry_at_Some)
qed

lemma search_complete:
  assumes "tree_ok k" "dobj k d \<noteq> None" "\<And>a. visible_child k a \<Longrightarrow> test k a = Ok (P a)"
  shows "\<exists>r. search_tree test (Suc (length (dents k))) k d = Ok r \<and>
    (case r of None \<Rightarrow> \<forall>a. reaches k d a \<longrightarrow> \<not> P a | Some a \<Rightarrow> reaches k d a \<and> P a)"
proof -
  define w where "w = walk (Suc (length (dents k))) k d"
  have 1: "search_tree test (Suc (length (dents k))) k d = Ok (List.find P w)"
    unfolding w_def using assms desc_card_le [OF tree_okD(1) [OF assms(1)], of d]
    by (intro search_walk) auto
  have 2: "a \<in> set w \<longleftrightarrow> reaches k d a" for a
    unfolding w_def using assms(1) by (rule walk_iff_reaches)
  show ?thesis
    unfolding 1 using find_cases [where P = P and xs = w] 2
    by (cases "List.find P w") auto
qed

text \<open>
  C12.  On a well-formed tree \<open>find_dentry_by_ino\<close> always returns: a reachable dentry with
  the inode number, or nothing exactly when no reachable dentry has it.
\<close>

theorem find_by_ino_correct:
  assumes "tree_ok k" "dobj k d \<noteq> None"
  shows "\<exists>r. find_dentry_by_ino k d ino = Ok r \<and>
    (case r of None \<Rightarrow> \<forall>a. reaches k d a \<longrightarrow> ino_of k a \<noteq> Some ino
     | Some a \<Rightarrow> reaches k d a \<and> ino_of k a = Some ino)"
  unfolding find_dentry_by_ino_def using assms ino_is_visible by (rule search_complete)

theorem find_by_ino_correct_witness:
  "\<exists>r. find_dentry_by_ino kernel1 0 3 = Ok r \<and>
    (case r of None \<Rightarrow> \<forall>a. reaches kernel1 0 a \<longrightarrow> ino_of kernel1 a \<noteq> Some 3
     | Some a \<Rightarrow> reaches kernel1 0 a \<and> ino_of kernel1 a = Some 3)"
  by (rule find_by_ino_correct) (simp_all add: fs_okD(1) [OF kernel1_ok])

text \<open>
  C19.  On a well-formed tree \<open>find_from_all_dentry\<close> always returns: a reachable dentry with
  the name, or nothing exactly when no reachable dentry has it.
\<close>

theorem find_by_name_correct:
  assumes "tree_ok k" "dobj k d \<noteq> None" "holds name s"
  shows "\<exists>r. find_from_all_dentry k d name = Ok r \<and>
    (case r of None \<Rightarrow> \<forall>a. reaches k d a \<longrightarrow> name_of k a \<noteq> s
     | Some a \<Rightarrow> reaches k d a \<and> name_of k a = s)"
  unfolding find_from_all_dentry_def using assms(1,2) name_is_visible [OF assms(1,3)]
  by (rule search_complete)

theorem find_by_name_correct_witness:
  "\<exists>r. find_from_all_dentry kernel1 0 (''a'' @ [NUL]) = Ok r \<and>
    (case r of None \<Rightarrow> \<forall>a. reaches kernel1 0 a \<longrightarrow> name_of kernel1 a \<noteq> ''a''
     | Some a \<Rightarrow> reaches kernel1 0 a \<and> name_of kernel1 a = ''a'')"
  by (rule find_by_name_correct) (simp_all add: fs_okD(1) [OF kernel1_ok] holdsI)

end
