(* ===== verification/PageCache.thy ===== *)
theory PageCache
  imports Dcache Namei
begin

unbundle bit_operations_syntax

text \<open>
  The page cache: the pages of one inode, and the functions of \<open>fs/libfs.c\<close> and
  \<open>mm/filemap.c\<close> that read and write a file through them.

  A page pointer is the inode and the page's index.  An index is an unsigned 32-bit number
  (\<open>pgoff_t\<close>), a position a number below \<open>2 ^ 63\<close>.  The memory of the user program is a
  list of bytes, as long as it may be accessed; the source of a write is readable as a
  whole.  Readahead is off (\<open>ra_pages = 0\<close>).  The locks and reference counts of pages,
  access times, the removal of set-uid bits and \<open>O_DIRECT\<close>, which wjfs does not support,
  are not modelled.
\<close>

section \<open>Pages\<close>

definition PAGE_CACHE_SIZE :: nat where
  "PAGE_CACHE_SIZE = 4096"

definition page_index :: "nat \<Rightarrow> nat" where
  "page_index pos = (pos div PAGE_CACHE_SIZE) mod 2 ^ 32"

definition find_get_page :: "inode \<Rightarrow> nat \<Rightarrow> page option" where
  "find_get_page x index = i_pages x index"

definition set_page :: "addr \<Rightarrow> nat \<Rightarrow> page \<Rightarrow> kernel \<Rightarrow> kernel res" where
  "set_page i index p = upd_inode i (\<lambda>x. x\<lparr>i_pages := (i_pages x)(index \<mapsto> p)\<rparr>)"

definition page_cache_alloc :: "kernel \<Rightarrow> page option \<times> kernel" where
  "page_cache_alloc k =
     (case kmem_alloc k of
        (False, k') \<Rightarrow> (None, k')
      | (True, k') \<Rightarrow>
          (Some \<lparr>p_data = map (stale k (mem_no k)) [0..<PAGE_CACHE_SIZE], p_uptodate = False, p_dirty = False\<rparr>, k'))"

text \<open>Inserting a page needs memory for the nodes of the tree.\<close>

definition add_to_page_cache :: "addr \<Rightarrow> nat \<Rightarrow> page \<Rightarrow> kernel \<Rightarrow> (int \<times> kernel) res" where
  "add_to_page_cache i index p k =
     (case kmem_alloc k of
        (False, k) \<Rightarrow> Ok (- ENOMEM, k)
      | (True, k) \<Rightarrow>
          bindR (inode_at k i) (\<lambda>x.
            if i_pages x index \<noteq> None then Ok (- EEXIST, k)
            else bindR (set_page i index p k) (\<lambda>k. Ok (0, k))))"

text \<open>
  \<open>grab_cache_page_write_begin\<close>: the page of the index, a new one if there is none.  The
  value says whether there is a page now.  (With no page at the index the insertion
  cannot fail with \<open>- EEXIST\<close>.)
\<close>

definition grab_cache_page_write_begin :: "addr \<Rightarrow> nat \<Rightarrow> kernel \<Rightarrow> (page option \<times> kernel) res" where
  "grab_cache_page_write_begin i index k =
     bindR (inode_at k i) (\<lambda>x.
       case find_get_page x index of
         Some p \<Rightarrow> Ok (Some p, k)
       | None \<Rightarrow>
           (case page_cache_alloc k of
              (None, k) \<Rightarrow> Ok (None, k)
            | (Some p, k) \<Rightarrow>
                bindR (add_to_page_cache i index p k) (\<lambda>(status, k).
                  if status \<noteq> 0 then Ok (None, k) else Ok (Some p, k))))"

section \<open>The methods of the address space (\<open>fs/libfs.c\<close>)\<close>

definition simple_readpage :: "page \<Rightarrow> page" where
  "simple_readpage p = p\<lparr>p_data := replicate PAGE_CACHE_SIZE NUL, p_uptodate := True\<rparr>"

definition simple_prepare_write :: "page \<Rightarrow> nat \<Rightarrow> nat \<Rightarrow> page" where
  "simple_prepare_write p from to =
     (if \<not> p_uptodate p \<and> to - from \<noteq> PAGE_CACHE_SIZE
      then p\<lparr>p_data := replicate from NUL @ take (to - from) (drop from (p_data p)) @
                       replicate (PAGE_CACHE_SIZE - to) NUL\<rparr>
      else p)"

definition simple_write_begin :: "addr \<Rightarrow> nat \<Rightarrow> nat \<Rightarrow> kernel \<Rightarrow> (int \<times> kernel) res" where
  "simple_write_begin i pos len k =
     (let index = page_index pos; from = pos mod PAGE_CACHE_SIZE
      in bindR (grab_cache_page_write_begin i index k) (\<lambda>(page, k).
           case page of
             None \<Rightarrow> Ok (- ENOMEM, k)
           | Some p \<Rightarrow>
               bindR (set_page i index (simple_prepare_write p from (from + len)) k) (\<lambda>k. Ok (0, k))))"

text \<open>\<open>wjfs_aops.set_page_dirty\<close> is \<open>__wjfs_set_page_dirty_no_writeback\<close>.\<close>

definition wjfs_set_page_dirty_no_writeback :: "page \<Rightarrow> page" where
  "wjfs_set_page_dirty_no_writeback p = (if \<not> p_dirty p then p\<lparr>p_dirty := True\<rparr> else p)"

definition page_at :: "kernel \<Rightarrow> addr \<Rightarrow> nat \<Rightarrow> page res" where
  "page_at k i index = bindR (inode_at k i) (\<lambda>x. deref BadPointer (i_pages x index))"

definition simple_commit_write :: "addr \<Rightarrow> nat \<Rightarrow> nat \<Rightarrow> kernel \<Rightarrow> kernel res" where
  "simple_commit_write i index to k =
     bindR (page_at k i index) (\<lambda>p.
     bindR (upd_inode i (\<lambda>x.
              let pos = index * PAGE_CACHE_SIZE + to
              in if pos > unat (i_size x) then x\<lparr>i_size := of_nat pos\<rparr> else x) k) (\<lambda>k.
       set_page i index (wjfs_set_page_dirty_no_writeback (p\<lparr>p_uptodate := True\<rparr>)) k))"

text \<open>Bytes stored in a page, inside its bounds.\<close>

definition page_store :: "addr \<Rightarrow> nat \<Rightarrow> nat \<Rightarrow> bytes \<Rightarrow> kernel \<Rightarrow> kernel res" where
  "page_store i index off bs k =
     bindR (page_at k i index) (\<lambda>p.
       if off + length bs \<le> length (p_data p)
       then set_page i index (p\<lparr>p_data := take off (p_data p) @ bs @ drop (off + length bs) (p_data p)\<rparr>) k
       else Fault OutOfBounds)"

definition simple_write_end :: "addr \<Rightarrow> nat \<Rightarrow> nat \<Rightarrow> nat \<Rightarrow> kernel \<Rightarrow> (nat \<times> kernel) res" where
  "simple_write_end i pos len copied k =
     (let index = page_index pos; from = pos mod PAGE_CACHE_SIZE
      in bindR (if copied < len then page_store i index (from + copied) (replicate (len - copied) NUL) k
                else Ok k) (\<lambda>k.
         bindR (simple_commit_write i index (from + copied) k) (\<lambda>k. Ok (copied, k))))"

section \<open>Reading a file (\<open>mm/filemap.c\<close>)\<close>

text \<open>
  \<open>read_descriptor_t\<close>: \<open>rd_buf\<close> is the user's memory from the start of the buffer, and the
  pointer \<open>arg.buf\<close> has advanced by \<open>rd_written\<close>.
\<close>

record read_desc =
  rd_written :: nat
  rd_count :: nat
  rd_error :: int
  rd_buf :: bytes

definition EFAULT :: int where "EFAULT = 14"
definition EFBIG :: int where "EFBIG = 27"

definition file_read_actor :: "read_desc \<Rightarrow> page \<Rightarrow> nat \<Rightarrow> nat \<Rightarrow> nat \<times> read_desc" where
  "file_read_actor desc page offset sz =
     (let count = rd_count desc;
          sz = min sz count;
          n = min sz (length (rd_buf desc) - rd_written desc)
      in (n, desc\<lparr>rd_buf := take (rd_written desc) (rd_buf desc) @ take n (drop offset (p_data page)) @
                            drop (rd_written desc + n) (rd_buf desc),
                  rd_error := (if n < sz then - EFAULT else rd_error desc),
                  rd_count := count - n, rd_written := rd_written desc + n\<rparr>))"

text \<open>
  The page of an index, brought up to date: the part of the loop before \<open>page_ok\<close>.  The
  result is the page or an error.
\<close>

definition read_page :: "addr \<Rightarrow> nat \<Rightarrow> kernel \<Rightarrow> ((int + page) \<times> kernel) res" where
  "read_page i index k =
     bindR (inode_at k i) (\<lambda>x.
       case find_get_page x index of
         Some p \<Rightarrow>
           if p_uptodate p then Ok (Inr p, k)
           else bindR (set_page i index (simple_readpage p) k) (\<lambda>k. Ok (Inr (simple_readpage p), k))
       | None \<Rightarrow>
           (case page_cache_alloc k of
              (None, k) \<Rightarrow> Ok (Inl (- ENOMEM), k)
            | (Some p, k) \<Rightarrow>
                bindR (add_to_page_cache i index p k) (\<lambda>(err, k).
                  if err \<noteq> 0 then Ok (Inl err, k)
                  else bindR (set_page i index (simple_readpage p) k) (\<lambda>k. Ok (Inr (simple_readpage p), k)))))"

text \<open>
  The part from \<open>page_ok\<close> on: how many bytes of the page belong to the file after
  \<open>offset\<close>, or nothing when the read is past the end.
\<close>

definition read_extent :: "nat \<Rightarrow> nat \<Rightarrow> nat \<Rightarrow> nat option" where
  "read_extent isize index offset =
     (let end_index = page_index (isize - 1)
      in if isize = 0 \<or> index > end_index then None
         else
           let nr = (if index = end_index then (isize - 1) mod PAGE_CACHE_SIZE + 1 else PAGE_CACHE_SIZE)
           in if nr \<le> offset then None else Some (nr - offset))"

lemma read_extent_pos: "read_extent isize index offset = Some nr \<Longrightarrow> 0 < nr"
  by (auto simp: read_extent_def Let_def split: if_splits)

lemma file_read_actor_count:
  "file_read_actor desc page offset sz = (n, desc') \<Longrightarrow> n \<le> rd_count desc \<and> rd_count desc' = rd_count desc - n"
  by (auto simp: file_read_actor_def Let_def)

text \<open>
  The loop of \<open>do_generic_file_read\<close>.  \<open>c\<close> is the pair of \<open>index\<close> and
  \<open>offset\<close>; \<open>carry\<close> is what the end of a round does to them.
\<close>

definition carry :: "nat \<Rightarrow> nat \<Rightarrow> nat \<times> nat" where
  "carry index offset = ((index + offset div PAGE_CACHE_SIZE) mod 2 ^ 32, offset mod PAGE_CACHE_SIZE)"

definition carry_pos :: "nat \<times> nat \<Rightarrow> nat" where
  "carry_pos c = fst c * PAGE_CACHE_SIZE + snd c"

function generic_read_loop :: "addr \<Rightarrow> nat \<times> nat \<Rightarrow> read_desc \<Rightarrow> kernel \<Rightarrow> (nat \<times> read_desc \<times> kernel) res" where
  "generic_read_loop i c desc k =
     bindR (read_page i (fst c) k) (\<lambda>(res, k).
       case res of
         Inl e \<Rightarrow> Ok (carry_pos c, desc\<lparr>rd_error := e\<rparr>, k)
       | Inr page \<Rightarrow>
           bindR (inode_at k i) (\<lambda>x.
             case read_extent (unat (i_size x)) (fst c) (snd c) of
               None \<Rightarrow> Ok (carry_pos c, desc, k)
             | Some nr \<Rightarrow>
                 (case file_read_actor desc page (snd c) nr of
                    (ret, desc) \<Rightarrow>
                      let c = carry (fst c) (snd c + ret)
                      in if ret = nr \<and> rd_count desc \<noteq> 0 then generic_read_loop i c desc k
                         else Ok (carry_pos c, desc, k))))"
  by pat_completeness auto
termination
  by (relation "measure (\<lambda>(i, c, desc, k). rd_count desc)")
    (auto dest!: read_extent_pos file_read_actor_count [OF sym])

declare generic_read_loop.simps [simp del]

definition do_generic_file_read :: "addr \<Rightarrow> nat \<Rightarrow> read_desc \<Rightarrow> kernel \<Rightarrow> (nat \<times> read_desc \<times> kernel) res" where
  "do_generic_file_read i pos desc k =
     generic_read_loop i (page_index pos, pos mod PAGE_CACHE_SIZE) desc k"

text \<open>
  \<open>generic_file_aio_read\<close> with one segment, which lies below the user's address limit: the
  number of bytes read or an error, the new position and the user's memory.
\<close>

definition generic_file_aio_read :: "addr \<Rightarrow> bytes \<Rightarrow> u32 \<Rightarrow> nat \<Rightarrow> kernel \<Rightarrow> (int \<times> nat \<times> bytes \<times> kernel) res" where
  "generic_file_aio_read i buf len pos k =
     (if sint len < 0 then Ok (- EINVAL, pos, buf, k)
      else if len = 0 then Ok (0, pos, buf, k)
      else
        bindR (do_generic_file_read i pos
                 \<lparr>rd_written = 0, rd_count = unat len, rd_error = 0, rd_buf = buf\<rparr> k) (\<lambda>(pos, desc, k).
          Ok (if rd_written desc \<noteq> 0 then int (rd_written desc) else rd_error desc, pos, rd_buf desc, k)))"

section \<open>Writing a file (\<open>mm/filemap.c\<close>)\<close>

text \<open>
  The parts of an open file and of the task that a write looks at: the flags \<open>O_APPEND\<close> and
  \<open>O_LARGEFILE\<close>, and the limit \<open>RLIMIT_FSIZE\<close>, if there is one.
\<close>

record open_file =
  f_dentry :: addr
  f_append :: bool
  f_largefile :: bool
  f_limit :: "nat option"

definition MAX_NON_LFS :: nat where
  "MAX_NON_LFS = 2 ^ 31 - 1"

definition s_maxbytes :: nat where
  "s_maxbytes = PAGE_CACHE_SIZE * 2 ^ 31 - 1"

text \<open>\<open>generic_write_checks\<close>: an error, or the position and the number of bytes to write.\<close>

definition generic_write_checks :: "open_file \<Rightarrow> nat \<Rightarrow> nat \<Rightarrow> nat \<Rightarrow> int + nat \<times> nat" where
  "generic_write_checks f isize pos n =
     (let pos = (if f_append f then isize else pos)
      in if (case f_limit f of None \<Rightarrow> False | Some limit \<Rightarrow> pos \<ge> limit) then Inl (- EFBIG)
         else
           let n = (case f_limit f of None \<Rightarrow> n | Some limit \<Rightarrow> min n (limit - pos))
           in if pos + n > MAX_NON_LFS \<and> \<not> f_largefile f \<and> pos \<ge> MAX_NON_LFS then Inl (- EFBIG)
              else
                let n = (if pos + n > MAX_NON_LFS \<and> \<not> f_largefile f
                             then min n (MAX_NON_LFS - pos) else n)
                in if pos \<ge> s_maxbytes \<and> (n \<noteq> 0 \<or> pos > s_maxbytes) then Inl (- EFBIG)
                   else Inr (pos, if pos + n > s_maxbytes then s_maxbytes - pos else n))"

text \<open>
  The loop of \<open>generic_perform_write\<close>, which is entered with something to write: the status
  and the number of bytes written.
\<close>

function perform_write_loop :: "addr \<Rightarrow> nat \<Rightarrow> bytes \<Rightarrow> nat \<Rightarrow> kernel \<Rightarrow> (int \<times> nat \<times> kernel) res" where
  "perform_write_loop i pos src written k =
     (if src = [] then Ok (0, written, k)
      else
        let offset = pos mod PAGE_CACHE_SIZE;
            bytes = min (PAGE_CACHE_SIZE - offset) (length src)
        in bindR (simple_write_begin i pos bytes k) (\<lambda>(status, k).
             if status \<noteq> 0 then Ok (status, written, k)
             else
               bindR (page_store i (page_index pos) offset (take bytes src) k) (\<lambda>k.
               bindR (simple_write_end i pos bytes bytes k) (\<lambda>(copied, k).
                 perform_write_loop i (pos + bytes) (drop bytes src) (written + bytes) k))))"
  by pat_completeness auto
termination
  by (relation "measure (\<lambda>(i, pos, src, written, k). length src)")
    (auto simp: PAGE_CACHE_SIZE_def)

declare perform_write_loop.simps [simp del]

definition generic_perform_write :: "addr \<Rightarrow> nat \<Rightarrow> bytes \<Rightarrow> kernel \<Rightarrow> (int \<times> kernel) res" where
  "generic_perform_write i pos src k =
     bindR (perform_write_loop i pos src 0 k) (\<lambda>(status, written, k).
       Ok (if written \<noteq> 0 then int written else status, k))"

definition generic_file_buffered_write :: "addr \<Rightarrow> nat \<Rightarrow> nat \<Rightarrow> bytes \<Rightarrow> kernel \<Rightarrow> (int \<times> nat \<times> kernel) res" where
  "generic_file_buffered_write i pos ppos src k =
     bindR (generic_perform_write i pos src k) (\<lambda>(status, k).
       Ok (status, if status \<ge> 0 then pos + nat status else ppos, k))"

definition file_update_time :: "addr \<Rightarrow> kernel \<Rightarrow> kernel res" where
  "file_update_time i k = upd_inode i (\<lambda>x. x\<lparr>i_mtime := clock k, i_ctime := clock k\<rparr>) k"

text \<open>
  \<open>__generic_file_aio_write\<close> with one segment of \<open>len\<close> bytes at \<open>buf\<close>: what it returns and
  the new position.
\<close>

definition generic_file_aio_write :: "open_file \<Rightarrow> addr \<Rightarrow> bytes \<Rightarrow> u32 \<Rightarrow> nat \<Rightarrow> kernel \<Rightarrow> (int \<times> nat \<times> kernel) res" where
  "generic_file_aio_write f i buf len ppos k =
     (if sint len < 0 then Ok (- EINVAL, ppos, k)
      else
        bindR (inode_at k i) (\<lambda>x.
          case generic_write_checks f (unat (i_size x)) ppos (unat len) of
            Inl err \<Rightarrow> Ok (err, ppos, k)
          | Inr (pos, n) \<Rightarrow>
              if n = 0 then Ok (0, ppos, k)
              else if n \<le> length buf
              then bindR (file_update_time i k) (generic_file_buffered_write i pos ppos (take n buf))
              else Fault OutOfBounds))"

end
