(* ===== verification/FileContent.thy ===== *)
theory FileContent
  imports PageCache DentryTree
begin

text \<open>
  What the page cache implements: a file is a list of bytes, \<open>content\<close>.  Writing refines
  \<open>write_bytes\<close> on that list and reading refines taking a part of it.
\<close>

section \<open>The content of a file\<close>

text \<open>
  The specification: a file is its bytes.  A page that is missing, or not up to date, reads
  as zeros; a well-formed file has whole pages and zeros after its end.
\<close>

definition page_bytes :: "page option \<Rightarrow> bytes" where
  "page_bytes p =
     (case p of
        None \<Rightarrow> replicate PAGE_CACHE_SIZE NUL
      | Some p \<Rightarrow> if p_uptodate p then p_data p else replicate PAGE_CACHE_SIZE NUL)"

definition byte_at :: "inode \<Rightarrow> nat \<Rightarrow> char" where
  "byte_at x n = page_bytes (i_pages x (n div PAGE_CACHE_SIZE)) ! (n mod PAGE_CACHE_SIZE)"

definition content :: "inode \<Rightarrow> bytes" where
  "content x = map (byte_at x) [0..<unat (i_size x)]"

definition file_ok :: "inode \<Rightarrow> bool" where
  "file_ok x \<longleftrightarrow> (\<forall>j p. i_pages x j = Some p \<longrightarrow> length (p_data p) = PAGE_CACHE_SIZE) \<and>
     (\<forall>n \<ge> unat (i_size x). byte_at x n = NUL) \<and> unat (i_size x) \<le> s_maxbytes"

text \<open>Writing \<open>bs\<close> at \<open>pos\<close> into the bytes \<open>c\<close>; a gap before \<open>pos\<close> is filled with zeros.\<close>

definition write_bytes :: "nat \<Rightarrow> bytes \<Rightarrow> bytes \<Rightarrow> bytes" where
  "write_bytes pos bs c = take pos c @ replicate (pos - length c) NUL @ bs @ drop (pos + length bs) c"

definition enough_memory :: "kernel \<Rightarrow> bool" where
  "enough_memory k \<longleftrightarrow> (\<forall>n \<ge> mem_no k. mem k n)"

text \<open>Only the pages and the size of the inode \<open>i\<close> and the allocator's counter changed.\<close>

definition file_written :: "addr \<Rightarrow> inode \<Rightarrow> inode \<Rightarrow> kernel \<Rightarrow> kernel \<Rightarrow> bool" where
  "file_written i x x' k k' \<longleftrightarrow> x' = x\<lparr>i_size := i_size x', i_pages := i_pages x'\<rparr> \<and>
     mem_no k \<le> mem_no k' \<and> k' = (set_inode i x' k)\<lparr>mem_no := mem_no k'\<rparr>"

lemma page_bytes_length [simp]:
  "file_ok x \<Longrightarrow> length (page_bytes (i_pages x j)) = PAGE_CACHE_SIZE"
  by (auto simp: page_bytes_def file_ok_def split: option.split)

lemma prepare_store:
  assumes "length (p_data p) = PAGE_CACHE_SIZE" "off + length bs \<le> PAGE_CACHE_SIZE"
  defines "q \<equiv> simple_prepare_write p off (off + length bs)"
  shows "take off (p_data q) @ bs @ drop (off + length bs) (p_data q) =
      take off (page_bytes (Some p)) @ bs @ drop (off + length bs) (page_bytes (Some p))"
    and "length (p_data q) = PAGE_CACHE_SIZE"
  using assms by (auto simp: simple_prepare_write_def page_bytes_def)

text \<open>The page that a write of \<open>bs\<close> at \<open>off\<close> leaves behind.\<close>

definition stored :: "nat \<Rightarrow> bytes \<Rightarrow> page option \<Rightarrow> page" where
  "stored off bs p =
     \<lparr>p_data = take off (page_bytes p) @ bs @ drop (off + length bs) (page_bytes p), p_uptodate = True, p_dirty = True\<rparr>"

definition write_page :: "nat \<Rightarrow> bytes \<Rightarrow> inode \<Rightarrow> inode" where
  "write_page pos bs x =
     x\<lparr>i_size := (if pos + length bs > unat (i_size x) then of_nat (pos + length bs) else i_size x),
       i_pages := (i_pages x)(pos div PAGE_CACHE_SIZE \<mapsto>
          stored (pos mod PAGE_CACHE_SIZE) bs (i_pages x (pos div PAGE_CACHE_SIZE)))\<rparr>"

lemma page_index_small: "pos \<le> s_maxbytes \<Longrightarrow> page_index pos = pos div PAGE_CACHE_SIZE"
  by (simp add: page_index_def s_maxbytes_def PAGE_CACHE_SIZE_def)

text \<open>An inode with the page \<open>p\<close>, in a kernel that has made some allocations since.\<close>

definition with_page :: "addr \<Rightarrow> inode \<Rightarrow> nat \<Rightarrow> page \<Rightarrow> nat \<Rightarrow> kernel \<Rightarrow> kernel" where
  "with_page i x j p m k = k\<lparr>inodes := (inodes k)[i := Some (x\<lparr>i_pages := (i_pages x)(j \<mapsto> p)\<rparr>)], mem_no := m\<rparr>"

lemma with_page_iobj:
  "iobj k i = Some x \<Longrightarrow> iobj (with_page i x j p m k) i = Some (x\<lparr>i_pages := (i_pages x)(j \<mapsto> p)\<rparr>)"
  by (simp add: with_page_def obj_Some_length)

lemma set_page_eq:
  assumes "iobj k i = Some x"
  shows "set_page i j p k = Ok (with_page i x j p (mem_no k) k)"
  by (simp add: set_page_def upd_inode_def inode_at_Some [OF assms] with_page_def set_inode_def)

lemma set_page_again:
  assumes "iobj k i = Some x"
  shows "set_page i j q (with_page i x j p m k) = Ok (with_page i x j q m k)"
  unfolding set_page_eq [OF with_page_iobj [OF assms]] by (simp add: with_page_def)

lemma page_at_with_page: "iobj k i = Some x \<Longrightarrow> page_at (with_page i x j p m k) i j = Ok p"
  by (simp add: page_at_def inode_at_Some [OF with_page_iobj])

lemma grab_page_eq:
  assumes "iobj k i = Some x" "file_ok x" "enough_memory k"
  obtains p m where "length (p_data p) = PAGE_CACHE_SIZE" "page_bytes (Some p) = page_bytes (i_pages x j)"
    "mem_no k \<le> m" "i_pages x j \<noteq> None \<Longrightarrow> i_pages x j = Some p"
    "grab_cache_page_write_begin i j k = Ok (Some p, with_page i x j p m k)"
proof (cases "i_pages x j")
  case None
  define p where "p = \<lparr>p_data = map (stale k (mem_no k)) [0..<PAGE_CACHE_SIZE], p_uptodate = False, p_dirty = False\<rparr>"
  have alloc: "page_cache_alloc k = (Some p, k\<lparr>mem_no := Suc (mem_no k)\<rparr>)"
    using assms(3) by (simp add: page_cache_alloc_def kmem_alloc_def enough_memory_def p_def)
  have "iobj (k\<lparr>mem_no := mem_no k + 2\<rparr>) i = Some x"
    using assms(1) by simp
  then have "add_to_page_cache i j p (k\<lparr>mem_no := Suc (mem_no k)\<rparr>) = Ok (0, with_page i x j p (mem_no k + 2) k)"
    using assms(3) None
    by (simp add: add_to_page_cache_def kmem_alloc_def enough_memory_def inode_at_def sget_def set_page_eq with_page_def)
  then have "grab_cache_page_write_begin i j k = Ok (Some p, with_page i x j p (mem_no k + 2) k)"
    using assms(1) None by (simp add: grab_cache_page_write_begin_def inode_at_Some find_get_page_def alloc)
  then show ?thesis
    by (intro that [of p "mem_no k + 2"]) (simp_all add: p_def page_bytes_def None)
next
  case (Some p)
  then have "x\<lparr>i_pages := (i_pages x)(j \<mapsto> p)\<rparr> = x"
    by (simp add: fun_upd_idem)
  then have "with_page i x j p (mem_no k) k = k"
    using set_inode_same [OF assms(1)] by (simp add: with_page_def set_inode_def)
  then have "grab_cache_page_write_begin i j k = Ok (Some p, with_page i x j p (mem_no k) k)"
    using assms(1) Some by (simp add: grab_cache_page_write_begin_def inode_at_Some find_get_page_def)
  then show ?thesis
    using Some assms(2) by (intro that [of p "mem_no k"]) (simp_all add: file_ok_def)
qed

lemma write_begin_eq:
  assumes "iobj k i = Some x" "file_ok x" "enough_memory k"
  obtains p m where "length (p_data p) = PAGE_CACHE_SIZE"
    "page_bytes (Some p) = page_bytes (i_pages x (page_index pos))" "mem_no k \<le> m"
    "simple_write_begin i pos len k =
      Ok (0, with_page i x (page_index pos)
               (simple_prepare_write p (pos mod PAGE_CACHE_SIZE) (pos mod PAGE_CACHE_SIZE + len)) m k)"
proof -
  obtain p m where p: "length (p_data p) = PAGE_CACHE_SIZE"
      "page_bytes (Some p) = page_bytes (i_pages x (page_index pos))" "mem_no k \<le> m"
      "grab_cache_page_write_begin i (page_index pos) k = Ok (Some p, with_page i x (page_index pos) p m k)"
    using grab_page_eq [OF assms] by metis
  then show ?thesis
    by (intro that [of p m]) (simp_all add: simple_write_begin_def Let_def set_page_again [OF assms(1)])
qed

lemma page_eta: "p\<lparr>p_data := D, p_uptodate := True, p_dirty := True\<rparr> = \<lparr>p_data = D, p_uptodate = True, p_dirty = True\<rparr>"
  by (cases p) simp

lemma commit_page:
  assumes "iobj k i = Some x" "page_index pos = pos div PAGE_CACHE_SIZE"
    and "to = pos mod PAGE_CACHE_SIZE + n"
  shows "simple_commit_write i (page_index pos) to (with_page i x (page_index pos) p m k) =
    Ok ((set_inode i (x\<lparr>i_size := (if pos + n > unat (i_size x) then of_nat (pos + n) else i_size x),
           i_pages := (i_pages x)(pos div PAGE_CACHE_SIZE \<mapsto> p\<lparr>p_uptodate := True, p_dirty := True\<rparr>)\<rparr>) k)\<lparr>mem_no := m\<rparr>)"
proof -
  have pos: "pos div PAGE_CACHE_SIZE * PAGE_CACHE_SIZE + to = pos + n"
    using assms(3) div_mult_mod_eq [of pos PAGE_CACHE_SIZE] by linarith
  have d: "wjfs_set_page_dirty_no_writeback (p\<lparr>p_uptodate := True\<rparr>) = p\<lparr>p_uptodate := True, p_dirty := True\<rparr>"
    by (cases p) (simp add: wjfs_set_page_dirty_no_writeback_def)
  let ?x = "x\<lparr>i_pages := (i_pages x)(page_index pos \<mapsto> p)\<rparr>"
  have x: "iobj (with_page i x (page_index pos) p m k) i = Some ?x"
    by (rule with_page_iobj [OF assms(1)])
  have l: "i < length (inodes k)"
    using assms(1) by (rule obj_Some_length)
  show ?thesis
    unfolding simple_commit_write_def page_at_with_page [OF assms(1)] bindR.simps upd_inode_def inode_at_Some [OF x]
      Let_def assms(2) pos d
    using l
    by (auto simp: set_page_def upd_inode_def inode_at_def sget_def with_page_def set_inode_def assms(2))
qed

lemma write_chunk:
  assumes "iobj k i = Some x" "file_ok x" "enough_memory k"
    and "pos mod PAGE_CACHE_SIZE + length bs \<le> PAGE_CACHE_SIZE" "pos + length bs \<le> s_maxbytes"
  obtains k1 k2 m where "simple_write_begin i pos (length bs) k = Ok (0, k1)"
    "page_store i (page_index pos) (pos mod PAGE_CACHE_SIZE) bs k1 = Ok k2"
    "simple_write_end i pos (length bs) (length bs) k2 =
      Ok (length bs, (set_inode i (write_page pos bs x) k)\<lparr>mem_no := m\<rparr>)" "mem_no k \<le> m"
proof -
  let ?off = "pos mod PAGE_CACHE_SIZE" and ?j = "page_index pos"
  obtain p m where p: "length (p_data p) = PAGE_CACHE_SIZE" "page_bytes (Some p) = page_bytes (i_pages x ?j)"
      and m: "mem_no k \<le> m"
      and b: "simple_write_begin i pos (length bs) k =
        Ok (0, with_page i x ?j (simple_prepare_write p ?off (?off + length bs)) m k)"
    using write_begin_eq [OF assms(1-3), of pos "length bs"] by metis
  define q where "q = simple_prepare_write p ?off (?off + length bs)"
  note q = prepare_store [OF p(1) assms(4), folded q_def]
  define r where "r = q\<lparr>p_data := take ?off (p_data q) @ bs @ drop (?off + length bs) (p_data q)\<rparr>"
  have s: "page_store i ?j ?off bs (with_page i x ?j q m k) = Ok (with_page i x ?j r m k)"
    using assms(4) q(2)
    by (simp add: page_store_def page_at_with_page [OF assms(1)] set_page_again [OF assms(1)] r_def)
  have idx: "page_index pos = pos div PAGE_CACHE_SIZE"
    using assms(5) by (intro page_index_small) simp
  have r: "r\<lparr>p_uptodate := True, p_dirty := True\<rparr> = stored ?off bs (i_pages x (pos div PAGE_CACHE_SIZE))"
    unfolding r_def stored_def q(1) p(2) idx by (simp add: page_eta)
  have "simple_commit_write i ?j (?off + length bs) (with_page i x ?j r m k) =
      Ok ((set_inode i (write_page pos bs x) k)\<lparr>mem_no := m\<rparr>)"
    unfolding commit_page [OF assms(1) idx refl] r write_page_def by (rule refl)
  then have "simple_write_end i pos (length bs) (length bs) (with_page i x ?j r m k) =
      Ok (length bs, (set_inode i (write_page pos bs x) k)\<lparr>mem_no := m\<rparr>)"
    by (simp add: simple_write_end_def Let_def)
  with b s m show ?thesis
    by (intro that) (simp_all add: q_def)
qed

lemma stored_nth:
  assumes "length (page_bytes p) = PAGE_CACHE_SIZE" "off + length bs \<le> PAGE_CACHE_SIZE" "m < PAGE_CACHE_SIZE"
  shows "page_bytes (Some (stored off bs p)) ! m =
    (if off \<le> m \<and> m < off + length bs then bs ! (m - off) else page_bytes p ! m)"
  using assms by (auto simp: page_bytes_def [of "Some _"] stored_def nth_append)

lemma same_page:
  assumes "n div PAGE_CACHE_SIZE = pos div PAGE_CACHE_SIZE"
  shows "pos mod PAGE_CACHE_SIZE \<le> n mod PAGE_CACHE_SIZE \<longleftrightarrow> pos \<le> n"
    and "n mod PAGE_CACHE_SIZE < pos mod PAGE_CACHE_SIZE + l \<longleftrightarrow> n < pos + l"
    and "n mod PAGE_CACHE_SIZE - pos mod PAGE_CACHE_SIZE = n - pos"
proof -
  define e where "e = pos div PAGE_CACHE_SIZE * PAGE_CACHE_SIZE"
  have "n = e + n mod PAGE_CACHE_SIZE" "pos = e + pos mod PAGE_CACHE_SIZE"
    using div_mult_mod_eq [of n PAGE_CACHE_SIZE] div_mult_mod_eq [of pos PAGE_CACHE_SIZE]
    by (simp_all only: e_def assms)
  then show "pos mod PAGE_CACHE_SIZE \<le> n mod PAGE_CACHE_SIZE \<longleftrightarrow> pos \<le> n"
    "n mod PAGE_CACHE_SIZE < pos mod PAGE_CACHE_SIZE + l \<longleftrightarrow> n < pos + l"
    "n mod PAGE_CACHE_SIZE - pos mod PAGE_CACHE_SIZE = n - pos"
    by linarith+
qed

lemma other_page:
  assumes "n div PAGE_CACHE_SIZE \<noteq> pos div PAGE_CACHE_SIZE" "pos mod PAGE_CACHE_SIZE + l \<le> PAGE_CACHE_SIZE"
  shows "\<not> (pos \<le> n \<and> n < pos + l)"
proof
  assume n: "pos \<le> n \<and> n < pos + l"
  then have "pos div PAGE_CACHE_SIZE < n div PAGE_CACHE_SIZE"
    using assms(1) div_le_mono [of pos n PAGE_CACHE_SIZE] by linarith
  then have "(pos div PAGE_CACHE_SIZE + 1) * PAGE_CACHE_SIZE \<le> n div PAGE_CACHE_SIZE * PAGE_CACHE_SIZE"
    by (intro mult_le_mono1) simp
  then have "pos div PAGE_CACHE_SIZE * PAGE_CACHE_SIZE + PAGE_CACHE_SIZE \<le> n div PAGE_CACHE_SIZE * PAGE_CACHE_SIZE"
    by simp
  then show False
    using n assms(2) div_mult_mod_eq [of n PAGE_CACHE_SIZE] div_mult_mod_eq [of pos PAGE_CACHE_SIZE] by linarith
qed

lemma write_page_byte:
  assumes "file_ok x" "pos mod PAGE_CACHE_SIZE + length bs \<le> PAGE_CACHE_SIZE"
  shows "byte_at (write_page pos bs x) n = (if pos \<le> n \<and> n < pos + length bs then bs ! (n - pos) else byte_at x n)"
proof (cases "n div PAGE_CACHE_SIZE = pos div PAGE_CACHE_SIZE")
  case True
  have "n mod PAGE_CACHE_SIZE < PAGE_CACHE_SIZE"
    by (simp add: PAGE_CACHE_SIZE_def)
  then show ?thesis
    using stored_nth [OF page_bytes_length [OF assms(1)] assms(2)] True same_page [OF True]
    by (simp add: byte_at_def write_page_def)
next
  case False
  then show ?thesis
    using other_page [OF False assms(2)] by (auto simp: byte_at_def write_page_def)
qed

lemma size_word: "n \<le> s_maxbytes \<Longrightarrow> unat (of_nat n :: u64) = n"
  by (simp add: unat_of_nat take_bit_nat_eq_self s_maxbytes_def PAGE_CACHE_SIZE_def)

lemma write_page_size:
  assumes "pos + length bs \<le> s_maxbytes"
  shows "unat (i_size (write_page pos bs x)) = max (unat (i_size x)) (pos + length bs)"
  using size_word [OF assms] by (simp add: write_page_def)

lemma write_page_ok:
  assumes "file_ok x" "pos mod PAGE_CACHE_SIZE + length bs \<le> PAGE_CACHE_SIZE" "pos + length bs \<le> s_maxbytes"
  shows "file_ok (write_page pos bs x)"
  unfolding file_ok_def
proof (intro conjI allI impI)
  fix j p assume "i_pages (write_page pos bs x) j = Some p"
  then show "length (p_data p) = PAGE_CACHE_SIZE"
    using assms page_bytes_length [OF assms(1)]
    by (auto simp: write_page_def stored_def file_ok_def split: if_splits)
next
  fix n assume "unat (i_size (write_page pos bs x)) \<le> n"
  then show "byte_at (write_page pos bs x) n = NUL"
    using assms by (simp add: write_page_byte write_page_size file_ok_def)
next
  show "unat (i_size (write_page pos bs x)) \<le> s_maxbytes"
    using assms by (simp add: write_page_size file_ok_def)
qed

lemma file_written_refl: "iobj k i = Some x \<Longrightarrow> file_written i x x k k"
  by (simp add: file_written_def set_inode_same)

lemma file_written_trans:
  assumes "file_written i x y k k'" "file_written i y z k' k''"
  shows "file_written i x z k k''"
proof -
  have y: "y = x\<lparr>i_size := i_size y, i_pages := i_pages y\<rparr>" and k': "k' = (set_inode i y k)\<lparr>mem_no := mem_no k'\<rparr>"
    and z: "z = y\<lparr>i_size := i_size z, i_pages := i_pages z\<rparr>" and k'': "k'' = (set_inode i z k')\<lparr>mem_no := mem_no k''\<rparr>"
    using assms by (auto simp: file_written_def)
  have "z = (x\<lparr>i_size := i_size y, i_pages := i_pages y\<rparr>)\<lparr>i_size := i_size z, i_pages := i_pages z\<rparr>"
    using y z by metis
  moreover have "k'' = (set_inode i z ((set_inode i y k)\<lparr>mem_no := mem_no k'\<rparr>))\<lparr>mem_no := mem_no k''\<rparr>"
    using k' k'' by metis
  ultimately show ?thesis
    using assms by (simp add: file_written_def set_inode_def)
qed

lemma file_written_fields:
  assumes "file_written i x y k k'"
  shows "inodes k' = (inodes k)[i := Some y]" "dents k' = dents k" "dhash k' = dhash k" "mem k' = mem k"
    "reg_ino_mapp_table k' = reg_ino_mapp_table k" "rroot_dentry k' = rroot_dentry k" "clock k' = clock k"
    "i_count y = i_count x" "i_ino y = i_ino x" "i_mode y = i_mode x" "mem_no k \<le> mem_no k'"
proof -
  have k': "k' = (set_inode i y k)\<lparr>mem_no := mem_no k'\<rparr>" and y: "y = x\<lparr>i_size := i_size y, i_pages := i_pages y\<rparr>"
    using assms by (auto simp: file_written_def)
  show "inodes k' = (inodes k)[i := Some y]" "dents k' = dents k" "dhash k' = dhash k" "mem k' = mem k"
    "reg_ino_mapp_table k' = reg_ino_mapp_table k" "rroot_dentry k' = rroot_dentry k" "clock k' = clock k"
    by (subst k', simp add: set_inode_def)+
  show "i_count y = i_count x" "i_ino y = i_ino x" "i_mode y = i_mode x"
    by (subst y, simp)+
  show "mem_no k \<le> mem_no k'"
    using assms by (simp add: file_written_def)
qed

lemma file_written_iobj: "file_written i x y k k' \<Longrightarrow> iobj k i = Some x \<Longrightarrow> iobj k' i = Some y"
  by (simp add: file_written_fields obj_Some_length)

lemma file_written_memory: "file_written i x y k k' \<Longrightarrow> enough_memory k \<Longrightarrow> enough_memory k'"
  using file_written_fields(4,11) by (fastforce simp: enough_memory_def)

lemma write_page_written: "mem_no k \<le> m \<Longrightarrow> file_written i x (write_page pos bs x) k ((set_inode i (write_page pos bs x) k)\<lparr>mem_no := m\<rparr>)"
  by (simp add: file_written_def write_page_def)

text \<open>The whole loop: every byte of the source is stored at its place, and nothing else changes.\<close>

lemma perform_write_ok:
  assumes "iobj k i = Some x" "file_ok x" "enough_memory k" "pos + length src \<le> s_maxbytes"
  shows "\<exists>k' x'. perform_write_loop i pos src w k = Ok (0, w + length src, k') \<and> file_written i x x' k k' \<and>
    file_ok x' \<and>
    (\<forall>n. byte_at x' n = (if pos \<le> n \<and> n < pos + length src then src ! (n - pos) else byte_at x n)) \<and>
    unat (i_size x') = (if src = [] then unat (i_size x) else max (unat (i_size x)) (pos + length src))"
  using assms
proof (induction "length src" arbitrary: k x pos src w rule: less_induct)
  case less
  show ?case
  proof (cases "src = []")
    case True
    then show ?thesis
      using less.prems file_written_refl [of k i x] by (subst perform_write_loop.simps) force
  next
    case False
    define n where "n = min (PAGE_CACHE_SIZE - pos mod PAGE_CACHE_SIZE) (length src)"
    define bs where "bs = take n src"
    define y where "y = write_page pos bs x"
    have "pos mod PAGE_CACHE_SIZE < PAGE_CACHE_SIZE"
      by (simp add: PAGE_CACHE_SIZE_def)
    then have n: "0 < n" "n \<le> length src" "length bs = n" "pos mod PAGE_CACHE_SIZE + length bs \<le> PAGE_CACHE_SIZE"
        "pos + length bs \<le> s_maxbytes"
      using False less.prems(4) by (auto simp: n_def bs_def)
    obtain k1 k2 m where w: "simple_write_begin i pos n k = Ok (0, k1)"
        "page_store i (page_index pos) (pos mod PAGE_CACHE_SIZE) bs k1 = Ok k2"
        "simple_write_end i pos n n k2 = Ok (n, (set_inode i y k)\<lparr>mem_no := m\<rparr>)" "mem_no k \<le> m"
      using write_chunk [OF less.prems(1-3) n(4,5)] n(3) unfolding y_def by metis
    let ?k = "(set_inode i y k)\<lparr>mem_no := m\<rparr>"
    have fw: "file_written i x y k ?k"
      using w(4) unfolding y_def by (rule write_page_written)
    have "length (drop n src) < length src" "pos + n + length (drop n src) \<le> s_maxbytes"
      using n less.prems(4) by auto
    then obtain k' x' where IH: "perform_write_loop i (pos + n) (drop n src) (w + n) ?k = Ok (0, w + n + length (drop n src), k')"
        "file_written i y x' ?k k'" "file_ok x'"
        "\<And>j. byte_at x' j = (if pos + n \<le> j \<and> j < pos + n + length (drop n src) then drop n src ! (j - (pos + n)) else byte_at y j)"
        "unat (i_size x') = (if drop n src = [] then unat (i_size y) else max (unat (i_size y)) (pos + n + length (drop n src)))"
      using less.hyps [OF _ file_written_iobj [OF fw less.prems(1)] _ file_written_memory [OF fw less.prems(3)],
          of "drop n src" "pos + n" "w + n"] write_page_ok [OF less.prems(2) n(4,5)]
      unfolding y_def by blast
    have "perform_write_loop i pos src w k = Ok (0, w + length src, k')"
      using False w IH(1) n(2) by (subst perform_write_loop.simps) (simp add: Let_def n_def [symmetric] bs_def [symmetric])
    moreover have "file_written i x x' k k'"
      using fw IH(2) by (rule file_written_trans)
    moreover have "byte_at x' j = (if pos \<le> j \<and> j < pos + length src then src ! (j - pos) else byte_at x j)" for j
      using n write_page_byte [OF less.prems(2) n(4), of j]
      by (auto simp: IH(4) y_def bs_def)
    moreover have "unat (i_size x') = max (unat (i_size x)) (pos + length src)"
      using n write_page_size [OF n(5), of x] by (auto simp: IH(5) y_def)
    ultimately show ?thesis
      using False IH(3) by auto
  qed
qed

lemma content_length [simp]: "length (content x) = unat (i_size x)"
  by (simp add: content_def)

lemma content_nth: "n < unat (i_size x) \<Longrightarrow> content x ! n = byte_at x n"
  by (simp add: content_def)

lemma write_bytes_length: "length (write_bytes pos bs c) = max (length c) (pos + length bs)"
  by (simp add: write_bytes_def)

lemma min_plus_diff: "min a b + (b - a) = (b :: nat)"
  by simp

lemma content_write_bytes:
  assumes "file_ok x" "src \<noteq> []"
    and "\<And>n. byte_at x' n = (if pos \<le> n \<and> n < pos + length src then src ! (n - pos) else byte_at x n)"
    and "unat (i_size x') = max (unat (i_size x)) (pos + length src)"
  shows "content x' = write_bytes pos src (content x)"
proof (rule nth_equalityI)
  show "length (content x') = length (write_bytes pos src (content x))"
    using assms(4) by (simp add: write_bytes_length)
next
  fix n assume "n < length (content x')"
  then have n: "n < max (unat (i_size x)) (pos + length src)"
    using assms(4) by simp
  have "byte_at x n = NUL" if "unat (i_size x) \<le> n"
    using assms(1) that by (simp add: file_ok_def)
  then show "content x' ! n = write_bytes pos src (content x) ! n"
    using n min_plus_diff [of "unat (i_size x)" pos] by (auto simp: content_nth assms(3,4) write_bytes_def nth_append)
qed

section \<open>Reading\<close>

lemma read_page_eq:
  assumes "iobj k i = Some x" "file_ok x" "enough_memory k"
  obtains p x' k' where "read_page i j k = Ok (Inr p, k')" "file_written i x x' k k'" "file_ok x'"
    "p_data p = page_bytes (i_pages x j)" "byte_at x' = byte_at x" "i_size x' = i_size x"
proof -
  let ?zero = "\<lambda>p. simple_readpage p"
  let ?x = "\<lambda>p. x\<lparr>i_pages := (i_pages x)(j \<mapsto> p)\<rparr>"
  have ok: "file_ok (?x q) \<and> byte_at (?x q) = byte_at x"
    if "p_data q = page_bytes (i_pages x j)" "p_uptodate q" for q
  proof -
    have b: "byte_at (?x q) = byte_at x"
      using that by (auto simp: byte_at_def fun_eq_iff page_bytes_def [of "Some q"])
    then show ?thesis
      using assms(2) that page_bytes_length [OF assms(2), of j] by (auto simp: file_ok_def)
  qed
  have fw: "file_written i x (?x q) k (with_page i x j q m k)" if "mem_no k \<le> m" for q m
    using that by (simp add: file_written_def with_page_def set_inode_def)
  show ?thesis
  proof (cases "i_pages x j")
    case None
    define p where "p = \<lparr>p_data = map (stale k (mem_no k)) [0..<PAGE_CACHE_SIZE], p_uptodate = False, p_dirty = False\<rparr>"
    have alloc: "page_cache_alloc k = (Some p, k\<lparr>mem_no := Suc (mem_no k)\<rparr>)"
      using assms(3) by (simp add: page_cache_alloc_def kmem_alloc_def enough_memory_def p_def)
    have "iobj (k\<lparr>mem_no := mem_no k + 2\<rparr>) i = Some x"
      using assms(1) by simp
    then have "add_to_page_cache i j p (k\<lparr>mem_no := Suc (mem_no k)\<rparr>) = Ok (0, with_page i x j p (mem_no k + 2) k)"
      using assms(3) None
      by (simp add: add_to_page_cache_def kmem_alloc_def enough_memory_def inode_at_def sget_def set_page_eq with_page_def)
    then have "read_page i j k = Ok (Inr (?zero p), with_page i x j (?zero p) (mem_no k + 2) k)"
      using assms(1) None
      by (simp add: read_page_def inode_at_Some find_get_page_def alloc set_page_again [OF assms(1)])
    then show ?thesis
      using ok [of "?zero p"] fw [of "mem_no k + 2"] None
      by (intro that [of "?zero p" _ "?x (?zero p)"]) (auto simp: simple_readpage_def page_bytes_def)
  next
    case (Some p)
    show ?thesis
    proof (cases "p_uptodate p")
      case True
      then show ?thesis
        using Some assms file_written_refl [OF assms(1)]
        by (intro that [of p _ x]) (auto simp: read_page_def inode_at_Some find_get_page_def page_bytes_def)
    next
      case False
      then have "read_page i j k = Ok (Inr (?zero p), with_page i x j (?zero p) (mem_no k) k)"
        using assms(1) Some by (simp add: read_page_def inode_at_Some find_get_page_def set_page_eq)
      then show ?thesis
        using ok [of "?zero p"] fw [of "mem_no k"] Some False
        by (intro that [of "?zero p" _ "?x (?zero p)"]) (auto simp: simple_readpage_def page_bytes_def)
    qed
  qed
qed

lemma read_extent_eq:
  assumes "pos \<le> s_maxbytes" "isize \<le> s_maxbytes"
  shows "read_extent isize (pos div PAGE_CACHE_SIZE) (pos mod PAGE_CACHE_SIZE) =
    (if isize \<le> pos then None else Some (min (PAGE_CACHE_SIZE - pos mod PAGE_CACHE_SIZE) (isize - pos)))"
proof -
  let ?S = PAGE_CACHE_SIZE
  define j off e r where "j = pos div ?S" and "off = pos mod ?S" and "e = (isize - Suc 0) div ?S" and "r = (isize - Suc 0) mod ?S"
  have S: "?S > 0"
    by (simp add: PAGE_CACHE_SIZE_def)
  have pos: "pos = j * ?S + off" "off < ?S"
    using S by (simp_all add: j_def off_def)
  have lst: "page_index (isize - Suc 0) = e" "r < ?S"
    using S assms(2) by (simp_all add: e_def r_def page_index_small)
  show ?thesis
    unfolding j_def [symmetric] off_def [symmetric]
  proof (cases "isize = 0")
    case True
    then show "read_extent isize j off = (if isize \<le> pos then None else Some (min (?S - off) (isize - pos)))"
      by (simp add: read_extent_def)
  next
    case False
    have R: "read_extent isize j off =
        (if e < j then None else let nr = if j = e then Suc r else ?S in if nr \<le> off then None else Some (nr - off))"
      using False by (simp add: read_extent_def lst(1) Let_def r_def)
    have isize: "isize = e * ?S + Suc r"
      using False by (simp add: e_def r_def)
    consider "e < j" | "j = e" | "j < e"
      by linarith
    then show "read_extent isize j off = (if isize \<le> pos then None else Some (min (?S - off) (isize - pos)))"
    proof cases
      case 1
      then have "Suc e * ?S \<le> j * ?S"
        by (intro mult_le_mono1) simp
      then show ?thesis
        using pos lst(2) R isize 1 by simp
    next
      case 2
      then show ?thesis
        using pos lst(2) R isize by auto
    next
      case 3
      then have "Suc j * ?S \<le> e * ?S"
        by (intro mult_le_mono1) simp
      then show ?thesis
        using pos lst(2) R isize 3 by auto
    qed
  qed
qed

lemma carry_eq:
  assumes "pos + n \<le> s_maxbytes"
  shows "carry (pos div PAGE_CACHE_SIZE) (pos mod PAGE_CACHE_SIZE + n) =
    ((pos + n) div PAGE_CACHE_SIZE, (pos + n) mod PAGE_CACHE_SIZE)"
proof -
  have S: "PAGE_CACHE_SIZE > 0"
    by (simp add: PAGE_CACHE_SIZE_def)
  have "pos + n = pos div PAGE_CACHE_SIZE * PAGE_CACHE_SIZE + (pos mod PAGE_CACHE_SIZE + n)"
    by simp
  then have "(pos + n) div PAGE_CACHE_SIZE = pos div PAGE_CACHE_SIZE + (pos mod PAGE_CACHE_SIZE + n) div PAGE_CACHE_SIZE"
    using S by (metis div_mult_self3 less_not_refl2)
  moreover have "(pos + n) div PAGE_CACHE_SIZE mod 2 ^ 32 = (pos + n) div PAGE_CACHE_SIZE"
    using page_index_small [OF assms] by (simp add: page_index_def)
  ultimately show ?thesis
    by (simp add: carry_def mod_add_left_eq)
qed

text \<open>Nothing visible of the file changed: at most the page cache grew.\<close>

definition file_same :: "addr \<Rightarrow> inode \<Rightarrow> inode \<Rightarrow> kernel \<Rightarrow> kernel \<Rightarrow> bool" where
  "file_same i x x' k k' \<longleftrightarrow> file_written i x x' k k' \<and> file_ok x' \<and> byte_at x' = byte_at x \<and> i_size x' = i_size x"

lemma file_same_trans: "file_same i x y k k' \<Longrightarrow> file_same i y z k' k'' \<Longrightarrow> file_same i x z k k''"
  by (auto simp: file_same_def intro: file_written_trans)

lemma file_same_content: "file_same i x x' k k' \<Longrightarrow> content x' = content x"
  by (simp add: file_same_def content_def)

lemma content_slice:
  assumes "file_ok x" "pos mod PAGE_CACHE_SIZE + n \<le> PAGE_CACHE_SIZE" "pos + n \<le> unat (i_size x)"
  shows "take n (drop (pos mod PAGE_CACHE_SIZE) (page_bytes (i_pages x (pos div PAGE_CACHE_SIZE)))) = take n (drop pos (content x))"
proof (rule nth_equalityI)
  show "length (take n (drop (pos mod PAGE_CACHE_SIZE) (page_bytes (i_pages x (pos div PAGE_CACHE_SIZE))))) =
      length (take n (drop pos (content x)))"
    using assms by simp
next
  fix m assume "m < length (take n (drop (pos mod PAGE_CACHE_SIZE) (page_bytes (i_pages x (pos div PAGE_CACHE_SIZE)))))"
  then have m: "m < n"
    by simp
  have "(pos + m) div PAGE_CACHE_SIZE = pos div PAGE_CACHE_SIZE \<and> (pos + m) mod PAGE_CACHE_SIZE = pos mod PAGE_CACHE_SIZE + m"
  proof -
    have "pos + m = pos div PAGE_CACHE_SIZE * PAGE_CACHE_SIZE + (pos mod PAGE_CACHE_SIZE + m)"
      by simp
    moreover have "pos mod PAGE_CACHE_SIZE + m < PAGE_CACHE_SIZE"
      using m assms(2) by simp
    ultimately show ?thesis
      by (metis div_mult_self3 div_less mod_mult_self3 mod_less add.right_neutral less_nat_zero_code)
  qed
  then show "take n (drop (pos mod PAGE_CACHE_SIZE) (page_bytes (i_pages x (pos div PAGE_CACHE_SIZE)))) ! m =
      take n (drop pos (content x)) ! m"
    using m assms by (simp add: content_nth byte_at_def)
qed

definition got :: "read_desc \<Rightarrow> bytes \<Rightarrow> read_desc" where
  "got rd bs = rd\<lparr>rd_buf := take (rd_written rd) (rd_buf rd) @ bs @ drop (rd_written rd + length bs) (rd_buf rd),
     rd_count := rd_count rd - length bs, rd_written := rd_written rd + length bs\<rparr>"

lemma got_Nil: "got rd [] = rd"
  by (simp add: got_def)

lemma got_got:
  assumes "rd_written rd + length a + length b \<le> length (rd_buf rd)"
  shows "got (got rd a) b = got rd (a @ b)"
  using assms by (simp add: got_def ac_simps)

lemma actor_eq:
  assumes "rd_written rd + rd_count rd \<le> length (rd_buf rd)" "offset + sz \<le> length (p_data page)"
  shows "file_read_actor rd page offset sz =
    (min sz (rd_count rd), got rd (take (min sz (rd_count rd)) (drop offset (p_data page))))"
proof -
  define n where "n = min sz (rd_count rd)"
  have "min n (length (rd_buf rd) - rd_written rd) = n" "\<not> (n < sz \<and> n < rd_count rd)" "length (take n (drop offset (p_data page))) = n"
    using assms by (auto simp: n_def)
  then show ?thesis
    by (auto simp: file_read_actor_def Let_def got_def n_def [symmetric])
qed

lemma take_take_drop: "take (n + m) xs = take n xs @ take m (drop n xs)"
  by (rule take_add)

lemma read_loop_ok:
  assumes "iobj k i = Some x" "file_ok x" "enough_memory k" "pos \<le> s_maxbytes"
    and "rd_count rd \<noteq> 0" "rd_written rd + rd_count rd \<le> length (rd_buf rd)"
  shows "\<exists>k' x'. generic_read_loop i (pos div PAGE_CACHE_SIZE, pos mod PAGE_CACHE_SIZE) rd k =
      Ok (pos + min (rd_count rd) (unat (i_size x) - pos), got rd (take (rd_count rd) (drop pos (content x))), k') \<and>
    file_same i x x' k k'"
  using assms
proof (induction "rd_count rd" arbitrary: pos rd k x rule: less_induct)
  case less
  let ?S = PAGE_CACHE_SIZE and ?c = "(pos div PAGE_CACHE_SIZE, pos mod PAGE_CACHE_SIZE)"
  let ?sz = "unat (i_size x)"
  obtain p x1 k1 where p: "read_page i (pos div ?S) k = Ok (Inr p, k1)" "file_same i x x1 k k1"
      "p_data p = page_bytes (i_pages x (pos div ?S))"
    using read_page_eq [OF less.prems(1-3), of "pos div ?S"] unfolding file_same_def by metis
  have x1: "iobj k1 i = Some x1" "file_ok x1" "enough_memory k1" "content x1 = content x" "i_size x1 = i_size x"
    using p(2) less.prems file_written_iobj file_written_memory file_same_content
    by (auto simp: file_same_def)
  have cp: "carry_pos ?c = pos"
    by (simp add: carry_pos_def)
  have sz: "?sz \<le> s_maxbytes"
    using less.prems(2) by (simp add: file_ok_def)
  note ext = read_extent_eq [OF less.prems(4) sz]
  show ?case
  proof (cases "?sz \<le> pos")
    case True
    then show ?thesis
      using p(1,2) x1 ext cp
      by (subst generic_read_loop.simps) (auto simp: inode_at_Some got_Nil)
  next
    case False
    define nr where "nr = min (?S - pos mod ?S) (?sz - pos)"
    define ret where "ret = min nr (rd_count rd)"
    define bs where "bs = take ret (drop pos (content x))"
    have S: "pos mod ?S < ?S"
      by (simp add: PAGE_CACHE_SIZE_def)
    then have nr: "0 < nr" "pos mod ?S + nr \<le> ?S" "pos + nr \<le> ?sz"
      using False by (auto simp: nr_def)
    have ret: "0 < ret" "ret \<le> nr" "ret \<le> rd_count rd" "length bs = ret"
      using nr less.prems(5) by (auto simp: ret_def bs_def)
    have slice: "take ret (drop (pos mod ?S) (p_data p)) = bs"
      unfolding bs_def p(3) using less.prems(2) nr ret by (intro content_slice) auto
    have "file_read_actor rd p (pos mod ?S) nr = (ret, got rd bs)"
      using actor_eq [OF less.prems(6), of "pos mod ?S" nr p] nr page_bytes_length [OF less.prems(2), of "pos div ?S"]
      by (simp add: ret_def [symmetric] slice flip: p(3))
    moreover have "carry (pos div ?S) (pos mod ?S + ret) = ((pos + ret) div ?S, (pos + ret) mod ?S)"
      using nr ret sz by (intro carry_eq) simp
    moreover have "rd_count (got rd bs) = rd_count rd - ret"
      using ret(4) by (simp add: got_def)
    ultimately have step: "generic_read_loop i ?c rd k =
        (if ret = nr \<and> rd_count rd - ret \<noteq> 0
         then generic_read_loop i ((pos + ret) div ?S, (pos + ret) mod ?S) (got rd bs) k1
         else Ok (pos + ret, got rd bs, k1))"
      using p(1) x1 ext False ret(4)
      by (subst generic_read_loop.simps)
        (auto simp: inode_at_Some nr_def [symmetric] carry_pos_def Let_def)
    show ?thesis
    proof (cases "ret = nr \<and> rd_count rd - ret \<noteq> 0")
      case True
      have g: "rd_count (got rd bs) = rd_count rd - ret" "rd_written (got rd bs) = rd_written rd + ret"
          "length (rd_buf (got rd bs)) = length (rd_buf rd)"
        using ret less.prems(6) by (auto simp: got_def)
      obtain k' x' where IH: "generic_read_loop i ((pos + ret) div ?S, (pos + ret) mod ?S) (got rd bs) k1 =
            Ok (pos + ret + min (rd_count rd - ret) (?sz - (pos + ret)),
                got (got rd bs) (take (rd_count rd - ret) (drop (pos + ret) (content x))), k')"
          "file_same i x1 x' k1 k'"
        using less.hyps [of "got rd bs" k1 x1 "pos + ret"] x1 g True ret nr less.prems(5,6) sz by auto
      have "got (got rd bs) (take (rd_count rd - ret) (drop (pos + ret) (content x))) =
          got rd (take (rd_count rd) (drop pos (content x)))"
      proof -
        have "take (rd_count rd) (drop pos (content x)) =
            bs @ take (rd_count rd - ret) (drop (pos + ret) (content x))"
          using take_add [of ret "rd_count rd - ret" "drop pos (content x)"] ret
          by (simp add: bs_def add.commute)
        then show ?thesis
          using got_got [of rd bs] ret less.prems(6) by simp
      qed
      moreover have "pos + ret + min (rd_count rd - ret) (?sz - (pos + ret)) = pos + min (rd_count rd) (?sz - pos)"
        using ret nr by auto
      ultimately show ?thesis
        using step True IH file_same_trans [OF p(2) IH(2)] by auto
    next
      case stop: False
      then have r: "ret = min (rd_count rd) (?sz - pos)"
        using ret(3) by (auto simp: ret_def nr_def min_def split: if_splits)
      then have "bs = take (rd_count rd) (drop pos (content x))"
        by (simp add: bs_def min_def)
      then show ?thesis
        using step stop p(2) r by auto
    qed
  qed
qed

section \<open>Properties\<close>

lemma write_bytes_in: "take (length bs) (drop pos (write_bytes pos bs c)) = bs"
proof -
  have "length (take pos c @ replicate (pos - length c) NUL) = pos"
    by simp
  then show ?thesis
    using append_eq_conv_conj [of "take pos c @ replicate (pos - length c) NUL"]
    by (simp only: write_bytes_def append_assoc [symmetric]) simp
qed

lemma buffered_write_ok:
  assumes "iobj k i = Some x" "file_ok x" "enough_memory k" "src \<noteq> []" "pos + length src \<le> s_maxbytes"
  shows "\<exists>k' x'. generic_file_buffered_write i pos ppos src k = Ok (int (length src), pos + length src, k') \<and>
    file_written i x x' k k' \<and> file_ok x' \<and> content x' = write_bytes pos src (content x)"
proof -
  obtain k' x' where "perform_write_loop i pos src 0 k = Ok (0, length src, k')" "file_written i x x' k k'" "file_ok x'"
      "\<And>n. byte_at x' n = (if pos \<le> n \<and> n < pos + length src then src ! (n - pos) else byte_at x n)"
      "unat (i_size x') = max (unat (i_size x)) (pos + length src)"
    using perform_write_ok [OF assms(1-3,5), of 0] assms(4) by auto
  then show ?thesis
    using content_write_bytes [OF assms(2,4)] assms(4)
    by (auto simp: generic_file_buffered_write_def generic_perform_write_def)
qed

lemma write_checks_le:
  assumes "generic_write_checks f isize pos n = Inr (p, m)"
  shows "m \<le> n" "p + m \<le> s_maxbytes" "p = (if f_append f then isize else pos)"
    "f_limit f = Some lim \<Longrightarrow> p + m \<le> lim" "\<not> f_largefile f \<Longrightarrow> p + m \<le> MAX_NON_LFS"
proof -
  define q where "q = (if f_append f then isize else pos)"
  define a where "a = (case f_limit f of None \<Rightarrow> n | Some lim \<Rightarrow> min n (lim - q))"
  define l where "l = (if q + a > MAX_NON_LFS \<and> \<not> f_largefile f then min a (MAX_NON_LFS - q) else a)"
  have e: "generic_write_checks f isize pos n =
      (if (case f_limit f of None \<Rightarrow> False | Some limit \<Rightarrow> q \<ge> limit) then Inl (- EFBIG)
       else if q + a > MAX_NON_LFS \<and> \<not> f_largefile f \<and> q \<ge> MAX_NON_LFS then Inl (- EFBIG)
       else if q \<ge> s_maxbytes \<and> (l \<noteq> 0 \<or> q > s_maxbytes) then Inl (- EFBIG)
       else Inr (q, if q + l > s_maxbytes then s_maxbytes - q else l))"
    unfolding generic_write_checks_def Let_def q_def a_def l_def by (rule refl)
  have c: "\<not> (case f_limit f of None \<Rightarrow> False | Some limit \<Rightarrow> q \<ge> limit)"
      "\<not> (q + a > MAX_NON_LFS \<and> \<not> f_largefile f \<and> q \<ge> MAX_NON_LFS)"
      "\<not> (q \<ge> s_maxbytes \<and> (l \<noteq> 0 \<or> q > s_maxbytes))"
      "p = q" "m = (if q + l > s_maxbytes then s_maxbytes - q else l)"
    using assms unfolding e by (auto split: if_splits)
  have a: "a \<le> n"
    by (simp add: a_def split: option.split)
  have la: "l \<le> a"
    by (simp add: l_def)
  have lim: "p < lim \<and> l \<le> lim - p" if "f_limit f = Some lim" for lim
    using that c(1,4) la by (simp add: a_def)
  have big: "p + l \<le> MAX_NON_LFS" if "\<not> f_largefile f"
    using that c(2,4) by (auto simp: l_def)
  have m: "m \<le> l"
    using c(3-5) by auto
  show "m \<le> n" "p = (if f_append f then isize else pos)"
    using m a la c(4) by (simp_all add: q_def)
  show "p + m \<le> s_maxbytes"
    using c(3-5) by auto
  show "p + m \<le> lim" if "f_limit f = Some lim"
    using lim [OF that] m by linarith
  show "p + m \<le> MAX_NON_LFS" if "\<not> f_largefile f"
    using big [OF that] m by linarith
qed
lemma aio_write_ok:
  assumes "iobj k i = Some x" "file_ok x" "enough_memory k" "0 \<le> sint len" "unat len \<le> length buf"
    and "generic_write_checks f (unat (i_size x)) pos (unat len) = Inr (p, n)" "n \<noteq> 0"
  shows "\<exists>k' x'. generic_file_aio_write f i buf len pos k = Ok (int n, p + n, k') \<and> iobj k' i = Some x' \<and>
    file_ok x' \<and> content x' = write_bytes p (take n buf) (content x) \<and>
    (\<forall>j. j \<noteq> i \<longrightarrow> iobj k' j = iobj k j) \<and> dents k' = dents k \<and> enough_memory k'"
proof -
  let ?y = "x\<lparr>i_mtime := clock k, i_ctime := clock k\<rparr>" and ?k = "set_inode i (x\<lparr>i_mtime := clock k, i_ctime := clock k\<rparr>) k"
  have n: "n \<le> unat len" "p + n \<le> s_maxbytes"
    by (rule write_checks_le [OF assms(6)])+
  have bytes: "byte_at ?y = byte_at x"
    by (simp add: byte_at_def fun_eq_iff)
  then have y: "iobj ?k i = Some ?y" "file_ok ?y" "enough_memory ?k" "content ?y = content x"
    using assms(1-3) obj_Some_length [OF assms(1)]
    by (simp_all add: file_ok_def content_def enough_memory_def set_inode_def)
  have t: "length (take n buf) = n" "take n buf \<noteq> []"
    using n(1) assms(5,7) by auto
  then obtain k' x' where "generic_file_buffered_write i p pos (take n buf) ?k = Ok (int n, p + n, k')"
      and fw: "file_written i ?y x' ?k k'" and "file_ok x'" "content x' = write_bytes p (take n buf) (content x)"
    using buffered_write_ok [OF y(1-3), of "take n buf" p pos] n(2) y(4) by auto
  moreover have "\<not> sint len < 0" "n \<le> length buf"
    using assms(4,5) n(1) by simp_all
  then have "generic_file_aio_write f i buf len pos k = generic_file_buffered_write i p pos (take n buf) ?k"
    using assms(7) by (simp add: generic_file_aio_write_def inode_at_Some [OF assms(1)] assms(6) file_update_time_def upd_inode_def)
  ultimately show ?thesis
    using file_written_iobj [OF fw y(1)] file_written_fields(1,2) [OF fw] file_written_memory [OF fw y(3)] by auto
qed

lemma aio_read_ok:
  assumes "iobj k i = Some x" "file_ok x" "enough_memory k" "0 < sint len" "unat len \<le> length buf" "pos \<le> s_maxbytes"
  defines "bs \<equiv> take (unat len) (drop pos (content x))"
  shows "\<exists>k' x'. generic_file_aio_read i buf len pos k =
      Ok (int (length bs), pos + length bs, bs @ drop (length bs) buf, k') \<and>
    iobj k' i = Some x' \<and> file_ok x' \<and> content x' = content x \<and>
    (\<forall>j. j \<noteq> i \<longrightarrow> iobj k' j = iobj k j) \<and> dents k' = dents k"
proof -
  have len: "\<not> sint len < 0" "len \<noteq> 0" "unat len \<noteq> 0"
    using assms(4) by (auto simp: unat_eq_zero)
  let ?rd = "\<lparr>rd_written = 0, rd_count = unat len, rd_error = 0, rd_buf = buf\<rparr>"
  obtain k' x' where loop: "generic_read_loop i (pos div PAGE_CACHE_SIZE, pos mod PAGE_CACHE_SIZE) ?rd k =
        Ok (pos + min (unat len) (unat (i_size x) - pos), got ?rd bs, k')" and same: "file_same i x x' k k'"
    using read_loop_ok [OF assms(1-3,6), of ?rd] len(3) assms(5) unfolding bs_def by auto
  have fw: "file_written i x x' k k'"
    using same by (simp add: file_same_def)
  have "length bs = min (unat len) (unat (i_size x) - pos)"
    by (simp add: bs_def min.commute)
  then have "generic_file_aio_read i buf len pos k = Ok (int (length bs), pos + length bs, bs @ drop (length bs) buf, k')"
    using loop len assms(6)
    by (auto simp: generic_file_aio_read_def do_generic_file_read_def page_index_small got_def)
  then show ?thesis
    using file_written_iobj [OF fw assms(1)] file_written_fields(1,2) [OF fw] file_same_content [OF same] same
    by (auto simp: file_same_def)
qed


text \<open>The file \<open>a\<close> of the example, empty and after \<open>hello\<close> was written to it.\<close>

definition open0 :: open_file where
  "open0 = \<lparr>f_dentry = 2, f_append = False, f_largefile = False, f_limit = None\<rparr>"

definition kernel2 :: kernel where
  "kernel2 = set_inode 2 (write_page 0 ''hello'' (ex_inode 3 0x81A4 1 FileOps)) kernel1"

lemma ex_inode_file: "file_ok (ex_inode ino m n ops)" "content (ex_inode ino m n ops) = []"
  by (simp_all add: file_ok_def ex_inode_def inode_init_always_def byte_at_def page_bytes_def content_def PAGE_CACHE_SIZE_def)

lemma enough_memory_examples: "enough_memory kernel1" "enough_memory kernel2"
  by (simp_all add: enough_memory_def kernel1_def kernel0_def kernel2_def set_inode_def)

lemma kernel1_file:
  "iobj kernel1 2 = Some (ex_inode 3 0x81A4 1 FileOps)" "file_ok (ex_inode 3 0x81A4 1 FileOps)" "enough_memory kernel1"
  "generic_write_checks open0 (unat (i_size (ex_inode 3 0x81A4 1 FileOps))) 3 (unat (5 :: u32)) = Inr (3, 5)"
  by (simp_all add: ex_inode_file enough_memory_examples)
    (simp add: generic_write_checks_def open0_def MAX_NON_LFS_def s_maxbytes_def PAGE_CACHE_SIZE_def)

lemma kernel2_file:
  "iobj kernel2 2 = Some (write_page 0 ''hello'' (ex_inode 3 0x81A4 1 FileOps))"
  "file_ok (write_page 0 ''hello'' (ex_inode 3 0x81A4 1 FileOps))" "enough_memory kernel2"
  "content (write_page 0 ''hello'' (ex_inode 3 0x81A4 1 FileOps)) = ''hello''"
  "unat (i_size (write_page 0 ''hello'' (ex_inode 3 0x81A4 1 FileOps))) = 5"
proof -
  let ?x = "ex_inode 3 0x81A4 1 FileOps"
  have p: "0 mod PAGE_CACHE_SIZE + length ''hello'' \<le> PAGE_CACHE_SIZE" "0 + length ''hello'' \<le> s_maxbytes"
    by (simp_all add: PAGE_CACHE_SIZE_def s_maxbytes_def)
  show "iobj kernel2 2 = Some (write_page 0 ''hello'' ?x)"
    by (simp add: kernel2_def obj_Some_length [OF kernel1_iobjs(3)])
  show "file_ok (write_page 0 ''hello'' ?x)"
    using ex_inode_file(1) p by (rule write_page_ok)
  have "content (write_page 0 ''hello'' ?x) = write_bytes 0 ''hello'' (content ?x)"
    using write_page_byte [OF ex_inode_file(1) p(1)] write_page_size [OF p(2), of ?x] ex_inode_file(1)
    by (intro content_write_bytes) (simp_all)
  then show c: "content (write_page 0 ''hello'' ?x) = ''hello''"
    by (simp add: ex_inode_file write_bytes_def)
  show "unat (i_size (write_page 0 ''hello'' ?x)) = 5"
    using arg_cong [OF c, of length] by simp
qed (rule enough_memory_examples)

text \<open>
  C6.  \<open>generic_file_aio_write\<close> implements writing to a list of bytes: with memory available
  it writes the \<open>n\<close> bytes that \<open>generic_write_checks\<close> admits at the position it gives,
  returns \<open>n\<close>, moves the file position behind them, fills a gap with zeros and changes no
  other inode and no dentry.
\<close>

theorem aio_write_splices:
  assumes "iobj k i = Some x" "file_ok x" "enough_memory k" "0 \<le> sint len" "unat len \<le> length buf"
    and "generic_write_checks f (unat (i_size x)) pos (unat len) = Inr (p, n)" "n \<noteq> 0"
  shows "\<exists>k' x'. generic_file_aio_write f i buf len pos k = Ok (int n, p + n, k') \<and> iobj k' i = Some x' \<and>
    file_ok x' \<and> content x' = write_bytes p (take n buf) (content x) \<and>
    (\<forall>j. j \<noteq> i \<longrightarrow> iobj k' j = iobj k j) \<and> dents k' = dents k"
  using aio_write_ok [OF assms] by blast

theorem aio_write_splices_witness:
  "\<exists>k' x'. generic_file_aio_write open0 2 ''hello'' 5 3 kernel1 = Ok (int 5, 3 + 5, k') \<and> iobj k' 2 = Some x' \<and>
    file_ok x' \<and> content x' = write_bytes 3 (take 5 ''hello'') (content (ex_inode 3 0x81A4 1 FileOps)) \<and>
    (\<forall>j. j \<noteq> 2 \<longrightarrow> iobj k' j = iobj kernel1 j) \<and> dents k' = dents kernel1"
  using aio_write_splices [of kernel1 2 _ 5 "''hello''" open0 3 3 5] kernel1_file by auto

text \<open>
  C7.  \<open>generic_file_aio_read\<close> implements reading from a list of bytes: with memory available
  and a user buffer that may be written it stores the bytes of the file from the position
  on, as many as were asked for and the file has, returns their number, moves the position
  behind them and leaves the content of every file as it is, even though it may add pages
  to the cache.
\<close>

theorem aio_read_returns:
  assumes "iobj k i = Some x" "file_ok x" "enough_memory k" "0 < sint len" "unat len \<le> length buf" "pos \<le> s_maxbytes"
  defines "bs \<equiv> take (unat len) (drop pos (content x))"
  shows "\<exists>k' x'. generic_file_aio_read i buf len pos k =
      Ok (int (length bs), pos + length bs, bs @ drop (length bs) buf, k') \<and>
    iobj k' i = Some x' \<and> file_ok x' \<and> content x' = content x \<and>
    (\<forall>j. j \<noteq> i \<longrightarrow> iobj k' j = iobj k j) \<and> dents k' = dents k"
  using aio_read_ok [OF assms(1-6)] unfolding bs_def by blast

theorem aio_read_returns_witness:
  "\<exists>k' x'. generic_file_aio_read 2 ''xxxxxx'' 4 1 kernel2 = Ok (int 4, 5, ''elloxx'', k') \<and>
    iobj k' 2 = Some x' \<and> file_ok x' \<and> content x' = ''hello'' \<and>
    (\<forall>j. j \<noteq> 2 \<longrightarrow> iobj k' j = iobj kernel2 j) \<and> dents k' = dents kernel2"
  using aio_read_returns [of kernel2 2 _ 4 "''xxxxxx''" 1] kernel2_file by (simp add: s_maxbytes_def PAGE_CACHE_SIZE_def)

text \<open>
  C14.  What is written is read back: after a write of \<open>len\<close> bytes at \<open>pos\<close>, a read of as many
  bytes at the same position returns exactly them.
\<close>

theorem write_read_roundtrip:
  assumes "iobj k i = Some x" "file_ok x" "enough_memory k" "0 < sint len" "unat len \<le> length src"
    and "generic_write_checks f (unat (i_size x)) pos (unat len) = Inr (pos, unat len)" "unat len \<le> length buf"
  shows "\<exists>k1 k2. generic_file_aio_write f i src len pos k = Ok (int (unat len), pos + unat len, k1) \<and>
    generic_file_aio_read i buf len pos k1 =
      Ok (int (unat len), pos + unat len, take (unat len) src @ drop (unat len) buf, k2)"
proof -
  let ?n = "unat len"
  have n: "?n \<noteq> 0" "0 \<le> sint len" "pos \<le> s_maxbytes"
    using assms(4) write_checks_le(2) [OF assms(6)] by (auto simp: unat_eq_zero)
  obtain k1 x1 where w: "generic_file_aio_write f i src len pos k = Ok (int ?n, pos + ?n, k1)"
      "iobj k1 i = Some x1" "file_ok x1" "content x1 = write_bytes pos (take ?n src) (content x)" "enough_memory k1"
    using aio_write_ok [OF assms(1-3) n(2) assms(5,6) n(1)] by blast
  have "take ?n (drop pos (content x1)) = take ?n src"
    using write_bytes_in [of "take ?n src" pos "content x"] assms(5) by (simp add: w(4) min_absorb2)
  then show ?thesis
    using aio_read_ok [OF w(2,3,5) assms(4,7) n(3)] w(1) assms(5) by auto
qed

theorem write_read_roundtrip_witness:
  "\<exists>k1 k2. generic_file_aio_write open0 2 ''hello'' 5 3 kernel1 = Ok (int 5, 8, k1) \<and>
    generic_file_aio_read 2 ''xxxxxx'' 5 3 k1 = Ok (int 5, 8, ''hellox'', k2)"
  using write_read_roundtrip [of kernel1 2 _ 5 "''hello''" open0 3 "''xxxxxx''"] kernel1_file by auto

text \<open>
  C23.  \<open>generic_write_checks\<close> never admits more than was asked for, nor a write past the
  largest file size, past the task's limit or, without \<open>O_LARGEFILE\<close>, past \<open>2 ^ 31 - 1\<close>.
\<close>

theorem write_checks_bounds:
  assumes "generic_write_checks f isize pos n = Inr (p, m)"
  shows "m \<le> n \<and> p + m \<le> s_maxbytes \<and> p = (if f_append f then isize else pos) \<and>
    (\<forall>l. f_limit f = Some l \<longrightarrow> p + m \<le> l) \<and> (\<not> f_largefile f \<longrightarrow> p + m \<le> MAX_NON_LFS)"
  using write_checks_le(1-3) [OF assms] write_checks_le(4,5) [OF assms] by auto

theorem write_checks_bounds_witness:
  "generic_write_checks open0 0 3 5 = Inr (3, 5) \<and> (3 :: nat) + 5 \<le> s_maxbytes"
proof -
  have "generic_write_checks open0 0 3 5 = Inr (3, 5)"
    using kernel1_file(4) by (simp add: ex_inode_def inode_init_always_def)
  then show ?thesis
    using write_checks_bounds [of open0 0 3 5 3 5] by blast
qed

end
