(* ===== verification/Handlers.thy ===== *)
theory Handlers
  imports InodeOps Lookup TreeSearch FileContent
begin

unbundle bit_operations_syntax

text \<open>
  The server's side of the four requests, \<open>rdma_create\<close>, \<open>rdma_remove\<close>, \<open>rdma_read\<close> and
  \<open>rdma_write\<close>, with the functions they are made of, and the file methods \<open>wjfs_read\<close> and
  \<open>wjfs_write\<close>, which send requests for files of the peer.

  A handler takes its uninitialised locals as an argument, the frame \<open>fr\<close> of its parser and
  the buffer of \<open>get_file_message\<close>.  Where it uses a pointer that may be \<open>NULL\<close> or an
  error pointer without a test, the model has a fault.
\<close>

section \<open>Creating the link of a remote file (\<open>wjfs_create.c\<close>)\<close>

definition wjfs_mknod_rdma :: "addr \<Rightarrow> addr \<Rightarrow> u32 \<Rightarrow> u32 \<Rightarrow> kernel \<Rightarrow> (int \<times> kernel) res" where
  "wjfs_mknod_rdma dir d mode dev k =
     bindR (dentry_at k d) (\<lambda>_.
     bindR (inode_at k dir) (\<lambda>dx.
     bindR (wjfs_get_inode (i_sb dx) mode dev k) (\<lambda>(inode, k).
       case inode of
         None \<Rightarrow> Ok (- ENOSPC, k)
       | Some i \<Rightarrow> bindR (attach_inode dir d mode i k) (\<lambda>k. Ok (0, k)))))"

text \<open>
  \<open>wjfs_create_by_name\<close> reads \<open>d_count\<close> of what \<open>lookup_one_len\<close> returned before any test,
  and tests the address of its variable instead of its value.
\<close>

definition wjfs_create_by_name :: "bytes \<Rightarrow> u32 \<Rightarrow> addr option \<Rightarrow> kernel \<Rightarrow> (int \<times> addr \<times> kernel) res" where
  "wjfs_create_by_name name mode parent k =
     bindR (deref NullDeref (if parent = None then rroot_dentry k else parent)) (\<lambda>p.
     bindR (strlen name) (\<lambda>len.
     bindR (lookup_one_len name p len k) (\<lambda>(r, k).
       case r of
         Inl e \<Rightarrow> Fault BadPointer
       | Inr d \<Rightarrow>
           bindR (dentry_at k d) (\<lambda>_.
           bindR (d_inode_of k p) (\<lambda>dir.
           bindR (if (ucast mode :: u16) AND S_IFMT = S_IFDIR
                  then wjfs_mknod_rdma dir d (mode OR ucast S_IFDIR) 0 k
                  else wjfs_mknod_rdma dir d (mode OR ucast S_IFREG) 0 k) (\<lambda>(error, k).
             Ok (error, d, k)))))))"

text \<open>The callers pass neither data nor file operations.\<close>

definition wjfs_create_file :: "bytes \<Rightarrow> u32 \<Rightarrow> addr option \<Rightarrow> kernel \<Rightarrow> (addr option \<times> kernel) res" where
  "wjfs_create_file name mode parent k =
     bindR (wjfs_create_by_name name mode parent k) (\<lambda>(error, d, k).
       if error \<noteq> 0 then Ok (None, k)
       else bindR (dentry_at k d) (\<lambda>_. Ok (Some d, k)))"

definition wjfs_create_dir :: "bytes \<Rightarrow> addr option \<Rightarrow> kernel \<Rightarrow> (addr option \<times> kernel) res" where
  "wjfs_create_dir name parent = wjfs_create_file name 0x41ED parent"

text \<open>The parent of the new link: the root, or whatever has the name.\<close>

definition parent_dentry :: "bytes \<Rightarrow> kernel \<Rightarrow> addr res" where
  "parent_dentry name_parent k =
     bindR (deref NullDeref (rroot_dentry k)) (\<lambda>root.
     bindR (dentry_at k root) (\<lambda>x.
     bindR (strcmp (d_name x) name_parent) (\<lambda>c.
       if c = 0 then Ok root
       else bindR (find_from_all_dentry k root name_parent) (deref NullDeref))))"

definition register_link :: "addr \<Rightarrow> u32 \<Rightarrow> addr \<Rightarrow> u32 \<Rightarrow> bytes option \<Rightarrow> kernel \<Rightarrow> kernel res" where
  "register_link new ino p ino_parent ip k =
     bindR (dentry_at k new) (\<lambda>x.
     bindR (d_inode_of k new) (\<lambda>i.
     bindR (inode_at k i) (\<lambda>y.
     bindR (d_inode_of k p) (\<lambda>pi.
     bindR (inode_at k pi) (\<lambda>py.
     bindR (deref NullDeref ip) (\<lambda>ip.
     bindR (table_insert (reg_ino_mapp_table k) (d_name x) (i_ino y) ino (i_ino py) ino_parent ip) (\<lambda>t.
       Ok (k\<lparr>reg_ino_mapp_table := t\<rparr>))))))))"

definition rdma_create :: "frame \<Rightarrow> bytes \<Rightarrow> bytes option \<Rightarrow> kernel \<Rightarrow> kernel res" where
  "rdma_create fr buf ip k =
     bindR (parse_entry fr buf) (\<lambda>rq.
     bindR (parent_dentry (rq_name_parent rq) k) (\<lambda>p.
     bindR (d_inode_of k p) (\<lambda>pi.
     bindR (inode_at k pi) (\<lambda>_.
     bindR (if rq_mode rq \<noteq> 0 then wjfs_create_dir (rq_name rq) (Some p) k
            else wjfs_create_file (rq_name rq) 0x8124 (Some p) k) (\<lambda>(new, k).
     bindR (deref NullDeref new) (\<lambda>d.
     bindR (upd_dentry d (\<lambda>x. x\<lparr>d_count := d_count x - 1\<rparr>) k) (\<lambda>k.
       register_link d (rq_ino rq) p (rq_ino_parent rq) ip k)))))))"

section \<open>Removing the link of a remote file (\<open>wjfs_remove.c\<close>)\<close>

definition wjfs_rmdir_rdma :: "addr option \<Rightarrow> addr \<Rightarrow> kernel \<Rightarrow> (int \<times> kernel) res" where
  "wjfs_rmdir_rdma dir d k =
     bindR (simple_empty d k) (\<lambda>empty.
       if \<not> empty then Ok (- ENOTEMPTY, k)
       else
         bindR (d_inode_of k d) (\<lambda>i.
         bindR (drop_nlink i k) (\<lambda>k.
         bindR (deref NullDeref dir) (\<lambda>dir.
         bindR (simple_unlink dir d k) (\<lambda>(_, k).
         bindR (drop_nlink dir k) (\<lambda>k. Ok (0, k)))))))"

definition wjfs_unlink_rdma :: "addr option \<Rightarrow> addr \<Rightarrow> kernel \<Rightarrow> (int \<times> kernel) res" where
  "wjfs_unlink_rdma dir d k =
     bindR (d_inode_of k d) (\<lambda>i.
     bindR (deref NullDeref dir) (\<lambda>dir.
     bindR (upd_inode dir (\<lambda>x. x\<lparr>i_ctime := clock k, i_mtime := clock k\<rparr>) k) (\<lambda>k.
     bindR (upd_inode i (\<lambda>x. x\<lparr>i_ctime := clock k\<rparr>) k) (\<lambda>k.
     bindR (drop_nlink i k) (\<lambda>k.
     bindR (dput (Some d) k) (\<lambda>k. Ok (0, k)))))))"

definition rdma_remove :: "frame \<Rightarrow> bytes \<Rightarrow> kernel \<Rightarrow> kernel res" where
  "rdma_remove fr buf k =
     bindR (parse_entry fr buf) (\<lambda>rq.
       case table_remove (reg_ino_mapp_table k) (rq_ino rq) (rq_ino_parent rq) of
         (my_ino, my_parent_ino, t) \<Rightarrow>
           let k = k\<lparr>reg_ino_mapp_table := t\<rparr>
           in bindR (deref NullDeref (rroot_dentry k)) (\<lambda>root.
              bindR (find_dentry_by_ino k root my_ino) (\<lambda>found.
                case found of
                  None \<Rightarrow> Ok k
                | Some d \<Rightarrow>
                    bindR (dentry_at k d) (\<lambda>x.
                    bindR (dentry_at k (d_parent x)) (\<lambda>px.
                    bindR (if rq_mode rq \<noteq> 0 then wjfs_rmdir_rdma (d_inode px) d k
                           else wjfs_unlink_rdma (d_inode px) d k) (\<lambda>(_, k).
                      Ok k))))))"

section \<open>Reading and writing a file for the peer\<close>

text \<open>
  \<open>get_file_message\<close> copies the first page, up to the end of the file, into a buffer of 1024
  bytes and from there as a string into \<open>message\<close>.  An empty file leaves \<open>message\<close> alone.
\<close>

definition get_file_message :: "addr \<Rightarrow> bytes \<Rightarrow> bytes \<Rightarrow> kernel \<Rightarrow> bytes res" where
  "get_file_message d message buf k =
     bindR (d_inode_of k d) (\<lambda>i.
     bindR (inode_at k i) (\<lambda>x.
       let page = find_get_page x 0; isize = unat (i_size x)
       in if isize = 0 then Ok message
          else
            let end_index = page_index (isize - 1);
                nr = (if end_index = 0 then (isize - 1) mod PAGE_CACHE_SIZE + 1 else PAGE_CACHE_SIZE)
            in bindR (deref NullDeref page) (\<lambda>p.
               bindR (memcpy buf (p_data p) nr) (\<lambda>buf.
               bindR (strlen buf) (\<lambda>_.
                 strcpy message buf)))))"

definition rdma_read :: "frame \<Rightarrow> bytes \<Rightarrow> bytes \<Rightarrow> kernel \<Rightarrow> bytes res" where
  "rdma_read fr gbuf buf k =
     bindR (parse_read fr buf) (\<lambda>rq.
     bindR (deref NullDeref (rroot_dentry k)) (\<lambda>root.
     bindR (find_dentry_by_ino k root (rq_ino rq)) (\<lambda>found.
       case found of
         None \<Rightarrow> Ok buf
       | Some d \<Rightarrow>
           bindR (get_file_message d (rq_message rq) gbuf k) (\<lambda>message.
           bindR (memset buf NUL 1024) (\<lambda>buf.
             strcpy buf message)))))"

text \<open>
  \<open>put_file_message\<close> writes the string at the start of the file.  It does not test whether
  \<open>simple_write_begin\<close> found a page; \<open>page\<close> is then uninitialised.
\<close>

definition put_file_message :: "addr \<Rightarrow> bytes \<Rightarrow> kernel \<Rightarrow> kernel res" where
  "put_file_message d message k =
     bindR (strlen message) (\<lambda>bytes.
     bindR (d_inode_of k d) (\<lambda>i.
     bindR (simple_write_begin i 0 bytes k) (\<lambda>(status, k).
       if status \<noteq> 0 then Fault BadPointer
       else bindR (page_store i (page_index 0) 0 (take bytes message) k) (\<lambda>k.
            bindR (simple_write_end i 0 bytes bytes k) (\<lambda>(_, k). Ok k)))))"

definition rdma_write :: "frame \<Rightarrow> bytes \<Rightarrow> kernel \<Rightarrow> kernel res" where
  "rdma_write fr buf k =
     bindR (parse_write fr buf) (\<lambda>rq.
     bindR (deref NullDeref (rroot_dentry k)) (\<lambda>root.
     bindR (find_dentry_by_ino k root (rq_ino rq)) (\<lambda>found.
       case found of
         None \<Rightarrow> Ok k
       | Some d \<Rightarrow> put_file_message d (rq_message rq) k)))"

section \<open>The file methods\<close>

text \<open>
  The result of \<open>wjfs_read\<close> is what it returns, the position and the user's buffer.  A file
  of this machine is read by \<open>generic_file_aio_read\<close>, which returns neither
  \<open>- EIOCBRETRY\<close> nor \<open>- EIOCBQUEUED\<close>, so that the loop around it runs once.  For a file of
  the peer the answer is copied with \<open>strcpy\<close>, and every second call returns 0, which
  ends the loop of a program that reads to the end of the file.
\<close>

definition wjfs_read ::
  "client_frame \<Rightarrow> bytes \<Rightarrow> open_file \<Rightarrow> bytes \<Rightarrow> u32 \<Rightarrow> nat \<Rightarrow> kernel \<Rightarrow> (int \<times> nat \<times> bytes \<times> kernel) res" where
  "wjfs_read cf message f buf len ppos k =
     bindR (is_my_file k (f_dentry f)) (\<lambda>mine.
       if mine \<noteq> 0 then bindR (d_inode_of k (f_dentry f)) (\<lambda>i. generic_file_aio_read i buf len ppos k)
       else
         bindR (memset message NUL 1024) (\<lambda>message.
         bindR (tell (f_dentry f) k (\<lambda>ino name pino pname.
                  wjfs_client_read cf test_ip test_port ino name pino pname message k)) (\<lambda>(_, message, k).
         bindR (memset buf NUL 1024) (\<lambda>buf.
         bindR (strcpy buf message) (\<lambda>buf.
         bindR (if read_k k mod 2 \<noteq> 0 then strlen buf else Ok 0) (\<lambda>ret.
           Ok (int ret, ppos, buf, k\<lparr>read_k := read_k k + 1\<rparr>)))))))"

definition wjfs_write ::
  "client_frame \<Rightarrow> bytes \<Rightarrow> open_file \<Rightarrow> bytes \<Rightarrow> u32 \<Rightarrow> nat \<Rightarrow> kernel \<Rightarrow> (int \<times> nat \<times> kernel) res" where
  "wjfs_write cf message f buf len ppos k =
     bindR (is_my_file k (f_dentry f)) (\<lambda>mine.
       if mine \<noteq> 0 then bindR (d_inode_of k (f_dentry f)) (\<lambda>i. generic_file_aio_write f i buf len ppos k)
       else
         bindR (memset message NUL 1024) (\<lambda>message.
         bindR (memcpy message buf (unat len)) (\<lambda>message.
         bindR (tell (f_dentry f) k (\<lambda>ino name pino pname.
                  wjfs_client_write cf test_ip test_port ino name pino pname message k)) (\<lambda>(_, k).
         bindR (strlen message) (\<lambda>ret.
           Ok (int ret, ppos, k))))))"

end
