(* ===== verification/Server.thy ===== *)
theory Server
  imports Handlers
begin

unbundle bit_operations_syntax

text \<open>
  The server thread \<open>wjfs_server\<close>: it binds the port, listens, and then serves one
  connection after the other until accepting fails or a request starts with \<open>quit\<close>.

  The uninitialised locals of round \<open>n\<close> are the server frame number \<open>n\<close>: those of the four
  handlers and the memory \<open>inet_ntoa\<close> allocates.  The loop need not end; \<open>server_loop\<close> is
  \<open>None\<close> when it does not.
\<close>

record server_frame =
  sf_read :: frame
  sf_gbuf :: bytes
  sf_write :: frame
  sf_create :: frame
  sf_remove :: frame
  sf_ip :: bytes

text \<open>\<open>memcmp(buf, cmd, n) == 0\<close> for a string literal of \<open>n\<close> bytes.\<close>

definition starts_with :: "bytes \<Rightarrow> string \<Rightarrow> bool res" where
  "starts_with buf cmd = bindR (memcmp buf (cmd @ [NUL]) (length cmd)) (\<lambda>r. Ok (r = 0))"

text \<open>
  The four tests on a request.  \<open>rdma_read\<close> overwrites the buffer with the file's text, and
  the tests after it look at the buffer again.
\<close>

definition serve_read :: "server_frame \<Rightarrow> addr \<Rightarrow> bytes \<Rightarrow> kernel \<Rightarrow> (bytes \<times> kernel) res" where
  "serve_read sf sk buf k =
     bindR (starts_with buf ''RD'') (\<lambda>b.
       if b then
         bindR (rdma_read (sf_read sf) (sf_gbuf sf) buf k) (\<lambda>buf.
         bindR (strlen buf) (\<lambda>len.
         bindR (ksend (Some sk) buf len k) (\<lambda>(_, k). Ok (buf, k))))
       else Ok (buf, k))"

definition serve_write :: "server_frame \<Rightarrow> bytes \<Rightarrow> kernel \<Rightarrow> kernel res" where
  "serve_write sf buf k = bindR (starts_with buf ''WR'') (\<lambda>b. if b then rdma_write (sf_write sf) buf k else Ok k)"

definition serve_create :: "server_frame \<Rightarrow> bytes \<Rightarrow> bytes option \<Rightarrow> kernel \<Rightarrow> kernel res" where
  "serve_create sf buf tmp k =
     bindR (starts_with buf ''CR'') (\<lambda>b. if b then rdma_create (sf_create sf) buf tmp k else Ok k)"

definition serve_remove :: "server_frame \<Rightarrow> bytes \<Rightarrow> kernel \<Rightarrow> kernel res" where
  "serve_remove sf buf k = bindR (starts_with buf ''RM'') (\<lambda>b. if b then rdma_remove (sf_remove sf) buf k else Ok k)"

definition serve_request :: "server_frame \<Rightarrow> addr \<Rightarrow> bytes \<Rightarrow> bytes option \<Rightarrow> kernel \<Rightarrow> kernel res" where
  "serve_request sf sk buf tmp k =
     bindR (serve_read sf sk buf k) (\<lambda>(buf, k).
     bindR (serve_write sf buf k) (\<lambda>k.
     bindR (serve_create sf buf tmp k) (\<lambda>k.
       serve_remove sf buf k)))"

text \<open>One round: the next state of the machine, or the value the server returns.\<close>

datatype round = Again kernel | Return int kernel

definition server_round :: "server_frame \<Rightarrow> addr \<Rightarrow> kernel \<Rightarrow> round res" where
  "server_round sf srv k =
     bindR (kaccept (Some srv) k) (\<lambda>(cli, peer, k).
       case cli of
         None \<Rightarrow> Ok (Return (- 1) k)
       | Some sk \<Rightarrow>
           bindR (inet_ntoa peer (sf_ip sf) k) (\<lambda>(tmp, k).
           bindR (krecv (Some sk) (replicate 1024 NUL) 1024 k) (\<lambda>(_, buf, k).
           bindR (starts_with buf ''quit'') (\<lambda>quit.
             if quit then bindR (kclose (Some srv) k) (\<lambda>(_, k). Ok (Return 0 k))
             else
               bindR (serve_request sf sk buf tmp k) (\<lambda>k.
               bindR (kclose (Some sk) k) (\<lambda>(_, k). Ok (Again k)))))))"

partial_function (option) server_loop ::
  "(nat \<Rightarrow> server_frame) \<Rightarrow> nat \<Rightarrow> addr \<Rightarrow> kernel \<Rightarrow> (int \<times> kernel) res option" where
  "server_loop frames n srv k =
     (case server_round (frames n) srv k of
        Fault e \<Rightarrow> Some (Fault e)
      | Ok r \<Rightarrow>
          (case r of
             Return v k \<Rightarrow> Some (Ok (v, k))
           | Again k \<Rightarrow> server_loop frames (Suc n) srv k))"

definition wjfs_server :: "(nat \<Rightarrow> server_frame) \<Rightarrow> kernel \<Rightarrow> (int \<times> kernel) res option" where
  "wjfs_server frames k =
     (case ksocket k of
        (None, k) \<Rightarrow> Some (Ok (- 1, k))
      | (Some srv, k) \<Rightarrow>
          (case kbind (Some srv) 0 (htons test_port) k of
             Fault e \<Rightarrow> Some (Fault e)
           | Ok (ret, k) \<Rightarrow>
               if ret < 0 then Some (Ok (- 1, k))
               else
                 (case klisten (Some srv) 10 k of
                    Fault e \<Rightarrow> Some (Fault e)
                  | Ok (ret, k) \<Rightarrow>
                      if ret < 0 then Some (Ok (- 1, k)) else server_loop frames 0 srv k)))"

end
