(* ===== verification/Serving.thy ===== *)
theory Serving
  imports Handlers
begin

unbundle bit_operations_syntax

text \<open>
  What the server's handlers for entries do on a well-formed machine: a create request links
  and registers a new entry, and a remove request takes it away.
\<close>

section \<open>Creating\<close>

lemma wjfs_mknod_rdma_eq:
  assumes "entry_free k dir d x px dx" "mem k (mem_no k)"
  shows "wjfs_mknod_rdma dir d mode dev k = Ok (0, made dir dx d x mode dev k)"
proof -
  have "dobj k d = Some x" "iobj k dir = Some dx"
    using assms(1) by (auto simp: entry_free_def)
  then show ?thesis
    using assms(2) attach_fresh(1) [OF assms(1)]
    by (simp add: wjfs_mknod_rdma_def wjfs_get_inode_eq dentry_at_Some inode_at_Some)
qed

definition new_dentry :: "addr \<Rightarrow> string \<Rightarrow> dentry" where
  "new_dentry p s = (fresh_dentry p s)\<lparr>d_op_delete := True\<rparr>"

lemma new_dentry_simps [simp]:
  "d_count (new_dentry p s) = 1" "d_name (new_dentry p s) = s @ [NUL]" "d_len (new_dentry p s) = length s"
  "d_inode (new_dentry p s) = None" "d_parent (new_dentry p s) = p" "d_subdirs (new_dentry p s) = []"
  by (simp_all add: new_dentry_def)

lemma looked_up_simps [simp]:
  "inodes (looked_up p x s n k) = inodes k" "last_ino (looked_up p x s n k) = last_ino k" "clock (looked_up p x s n k) = clock k"
  "mem (looked_up p x s n k) = mem k" "reg_ino_mapp_table (looked_up p x s n k) = reg_ino_mapp_table k"
  "rroot_dentry (looked_up p x s n k) = rroot_dentry k" "socks (looked_up p x s n k) = socks k" "dhash (looked_up p x s n k) = length (dents k) # dhash k"
  "fsuid (looked_up p x s n k) = fsuid k" "fsgid (looked_up p x s n k) = fsgid k"
  by (simp_all add: looked_up_def Let_def)

lemma looked_up_dobj:
  assumes "dobj k p = Some x"
  shows "dobj (looked_up p x s n k) = (dobj k)(p := Some (with_child (length (dents k)) x), length (dents k) := Some (new_dentry p s))"
  using obj_Some_length [OF assms]
  by (auto simp: looked_up_def Let_def fun_eq_iff new_dentry_def obj_append obj_fun_upd [OF assms])

text \<open>The directory in which the link of a remote entry is made, and the name, which is not taken.\<close>

definition place_free :: "kernel \<Rightarrow> addr \<Rightarrow> dentry \<Rightarrow> addr \<Rightarrow> inode \<Rightarrow> string \<Rightarrow> bool" where
  "place_free k p px dir dx s \<longleftrightarrow> searchable k p px dir dx \<and> short_name px \<and> good_name s \<and>
     (\<forall>d\<in>set (dhash k). \<not> named k p s d)"

lemma place_free_entry:
  assumes "place_free k p px dir dx s"
  shows "entry_free (looked_up p px s n k) dir (length (dents k)) (new_dentry p s) (with_child (length (dents k)) px) dx"
proof -
  have s: "searchable k p px dir dx"
    using assms by (simp add: place_free_def)
  note x = searchableD [OF s]
  have "fs_ok (looked_up p px s n k)"
    using fs_ok_looked_up [OF x(1,2,9)] assms by (simp add: place_free_def good_name_def)
  then show ?thesis
    using assms x obj_Some_length [OF x(2)]
    by (auto simp: entry_free_def looked_up_dobj [OF x(2)] place_free_def short_name_def good_name_def with_child_def)
qed

definition link_mode :: "u32 \<Rightarrow> u32" where
  "link_mode mode = (if mode \<noteq> 0 then 0x41ED else 0x8124)"

definition linked :: "addr \<Rightarrow> dentry \<Rightarrow> string \<Rightarrow> addr \<Rightarrow> inode \<Rightarrow> u32 \<Rightarrow> nat \<Rightarrow> kernel \<Rightarrow> kernel" where
  "linked p px s dir dx mode n k =
     made dir dx (length (dents k)) (new_dentry p s) (link_mode mode) 0 (looked_up p px s n k)"

lemma create_link_eq:
  assumes "place_free k p px dir dx s" "\<forall>n. mem k n" "holds name s"
  shows "\<exists>n. (if mode \<noteq> 0 then wjfs_create_dir name (Some p) k else wjfs_create_file name 0x8124 (Some p) k) =
    Ok (Some (length (dents k)), linked p px s dir dx mode n k)"
proof -
  let ?d = "length (dents k)"
  have s: "searchable k p px dir dx" "good_name s" "\<forall>d\<in>set (dhash k). \<not> named k p s d"
    using assms(1) by (auto simp: place_free_def)
  note x = searchableD [OF s(1)]
  obtain n where n: "lookup_one_len name p (length s) k = Ok (Inr ?d, looked_up p px s n k)"
    using lookup_makes [OF s(1) assms(3) s(2,3) assms(2)] by blast
  note free = place_free_entry [OF assms(1), of n]
  have p: "dobj (looked_up p px s n k) p = Some (with_child ?d px)" "dobj (looked_up p px s n k) ?d = Some (new_dentry p s)"
    using obj_Some_length [OF x(2)] by (simp_all add: looked_up_dobj [OF x(2)])
  have mk: "wjfs_mknod_rdma dir ?d m 0 (looked_up p px s n k) = Ok (0, made dir dx ?d (new_dentry p s) m 0 (looked_up p px s n k))" for m
    using wjfs_mknod_rdma_eq [OF free] assms(2) by simp
  have d: "dobj (made dir dx ?d (new_dentry p s) m 0 (looked_up p px s n k)) ?d \<noteq> None" for m
    using made_objs(2) [OF free] by simp
  have "(if mode \<noteq> 0 then wjfs_create_dir name (Some p) k else wjfs_create_file name 0x8124 (Some p) k) =
      wjfs_create_file name (link_mode mode) (Some p) k"
    by (simp add: wjfs_create_dir_def link_mode_def)
  also have "wjfs_create_by_name name (link_mode mode) (Some p) k = Ok (0, ?d, linked p px s dir dx mode n k)"
    using n p x(3) mk strlen_holds [OF assms(3)]
    by (simp add: wjfs_create_by_name_def d_inode_of_def dentry_at_Some with_child_def linked_def link_mode_def S_IFMT_def
        S_IFDIR_def S_IFREG_def del: bindR_eq_Ok)
  then have "wjfs_create_file name (link_mode mode) (Some p) k = Ok (Some ?d, linked p px s dir dx mode n k)"
    using d [of "link_mode mode"] by (auto simp: wjfs_create_file_def linked_def dentry_at_Some)
  finally show ?thesis ..
qed

text \<open>The dentries \<open>rdma_create\<close> takes for the parent: the root or one that can be reached, by name.\<close>

definition candidate :: "kernel \<Rightarrow> addr \<Rightarrow> string \<Rightarrow> addr \<Rightarrow> bool" where
  "candidate k r ps p \<longleftrightarrow> (p = r \<or> reaches k r p) \<and> name_of k p = ps"

lemma parent_dentry_eq:
  assumes "fs_ok k" "rroot_dentry k = Some r" "dobj k r = Some x" "holds np ps"
  shows "(\<exists>p. parent_dentry np k = Ok p \<and> candidate k r ps p) \<or>
    parent_dentry np k = Fault NullDeref \<and> (\<forall>p. \<not> candidate k r ps p)"
proof -
  note t = fs_okD(1) [OF assms(1)]
  obtain c where c: "strcmp (d_name x) np = Ok c" "c = 0 \<longleftrightarrow> cstring (d_name x) = ps"
    using strcmp_holds [OF _ assms(4)] names_okD [OF tree_okD(5) [OF t] assms(3)] by blast
  obtain f where f: "find_from_all_dentry k r np = Ok f"
      "case f of None \<Rightarrow> \<forall>a. reaches k r a \<longrightarrow> name_of k a \<noteq> ps | Some a \<Rightarrow> reaches k r a \<and> name_of k a = ps"
    using search_complete [where test = "name_is np" and P = "\<lambda>a. name_of k a = ps" and d = r,
        OF t _ name_is_visible [OF t assms(4)]] assms(3)
    unfolding find_from_all_dentry_def by auto
  have r: "name_of k r = cstring (d_name x)"
    using assms(3) by (simp add: name_of_def)
  show ?thesis
  proof (cases "c = 0")
    case True
    then show ?thesis
      using assms(2,3) c r by (auto simp: parent_dentry_def dentry_at_Some candidate_def)
  next
    case False
    then show ?thesis
      using assms(2,3) c r f
      by (cases f) (auto simp: parent_dentry_def dentry_at_Some candidate_def simp del: bindR_eq_Ok)
  qed
qed

lemma linked_objs:
  assumes "place_free k p px dir dx s"
  shows "dobj (linked p px s dir dx mode n k) = (dobj k)(p := Some (with_child (length (dents k)) px),
      length (dents k) := Some ((new_dentry p s)\<lparr>d_inode := Some (length (inodes k)), d_count := 2\<rparr>))"
    and "iobj (linked p px s dir dx mode n k) = (iobj k)
      (dir := Some (dx\<lparr>i_mtime := clock k, i_ctime := clock k\<rparr>),
       length (inodes k) := Some (inherit dx (link_mode mode) (fresh_inode (i_sb dx) (link_mode mode) 0 k)))"
    and "fs_ok (linked p px s dir dx mode n k)"
    and "dhash (linked p px s dir dx mode n k) = length (dents k) # dhash k"
    and "reg_ino_mapp_table (linked p px s dir dx mode n k) = reg_ino_mapp_table k"
    and "rroot_dentry (linked p px s dir dx mode n k) = rroot_dentry k"
    and "socks (linked p px s dir dx mode n k) = socks k"
proof -
  have s: "searchable k p px dir dx"
    using assms by (simp add: place_free_def)
  note x = searchableD [OF s]
  let ?k = "looked_up p px s n k"
  note free = place_free_entry [OF assms, of n]
  show "fs_ok (linked p px s dir dx mode n k)"
    unfolding linked_def by (rule attach_fresh(2) [OF free])
  have z: "fresh_inode (i_sb dx) m 0 ?k = fresh_inode (i_sb dx) m 0 k" for m
    by (simp add: fresh_inode_def)
  have d: "dobj ?k (length (dents k)) = Some (new_dentry p s)"
    by (simp add: looked_up_dobj [OF x(2)])
  show "dobj (linked p px s dir dx mode n k) = (dobj k)(p := Some (with_child (length (dents k)) px),
      length (dents k) := Some ((new_dentry p s)\<lparr>d_inode := Some (length (inodes k)), d_count := 2\<rparr>))"
    by (simp add: linked_def made_def Let_def obj_fun_upd [OF d] looked_up_dobj [OF x(2)])
  show "iobj (linked p px s dir dx mode n k) = (iobj k)
      (dir := Some (dx\<lparr>i_mtime := clock k, i_ctime := clock k\<rparr>),
       length (inodes k) := Some (inherit dx (link_mode mode) (fresh_inode (i_sb dx) (link_mode mode) 0 k)))"
    using obj_Some_length [OF x(4)]
    by (auto simp: linked_def made_def Let_def z fun_eq_iff obj_append list_update_append)
  show "dhash (linked p px s dir dx mode n k) = length (dents k) # dhash k"
    and "reg_ino_mapp_table (linked p px s dir dx mode n k) = reg_ino_mapp_table k"
    and "rroot_dentry (linked p px s dir dx mode n k) = rroot_dentry k"
    and "socks (linked p px s dir dx mode n k) = socks k"
    by (simp_all add: linked_def made_def Let_def attached_def set_inode_def set_dentry_def with_inode_def)
qed

text \<open>The link: the dentry holds the one reference of the cache.\<close>

definition link_dentry :: "addr \<Rightarrow> string \<Rightarrow> addr \<Rightarrow> dentry" where
  "link_dentry p s i = (new_dentry p s)\<lparr>d_inode := Some i\<rparr>"

lemma rdma_create_eq:
  assumes "parse_entry fr buf = Ok rq" "parent_dentry (rq_name_parent rq) k = Ok p" "place_free k p px dir dx s"
    and "\<forall>n. mem k n" "holds (rq_name rq) s" "mode = rq_mode rq"
  shows "\<exists>n. rdma_create fr buf (Some ip) k =
    bindR (table_insert (reg_ino_mapp_table k) (s @ [NUL]) (last_ino k + 1) (rq_ino rq) (i_ino dx) (rq_ino_parent rq) ip)
      (\<lambda>t. Ok ((set_dentry (length (dents k)) (link_dentry p s (length (inodes k))) (linked p px s dir dx mode n k))
              \<lparr>reg_ino_mapp_table := t\<rparr>))"
proof -
  let ?d = "length (dents k)" and ?i = "length (inodes k)"
  have s: "searchable k p px dir dx"
    using assms(3) by (simp add: place_free_def)
  note x = searchableD [OF s]
  obtain n where n: "(if rq_mode rq \<noteq> 0 then wjfs_create_dir (rq_name rq) (Some p) k
      else wjfs_create_file (rq_name rq) 0x8124 (Some p) k) = Ok (Some ?d, linked p px s dir dx mode n k)"
    using create_link_eq [OF assms(3,4,5)] assms(6) by blast
  let ?k1 = "linked p px s dir dx mode n k"
  note o = linked_objs [OF assms(3), of mode n]
  let ?k2 = "set_dentry ?d (link_dentry p s ?i) ?k1"
  have d1: "dobj ?k1 ?d = Some ((new_dentry p s)\<lparr>d_inode := Some ?i, d_count := 2\<rparr>)"
    using o(1) by simp
  have "((new_dentry p s)\<lparr>d_inode := Some ?i, d_count := 2\<rparr>)\<lparr>d_count := 1\<rparr> = link_dentry p s ?i"
    by (simp add: link_dentry_def new_dentry_def fresh_dentry_def)
  then have upd: "upd_dentry ?d (\<lambda>x. x\<lparr>d_count := d_count x - 1\<rparr>) ?k1 = Ok ?k2"
    using d1 by (simp add: upd_dentry_def dentry_at_Some)
  have d2: "dobj ?k2 ?d = Some (link_dentry p s ?i)" "dobj ?k2 p = Some (with_child ?d px)"
    using d1 o(1) obj_Some_length [OF x(2)] by (simp_all add: obj_fun_upd [OF d1])
  have i2: "iobj ?k2 ?i = Some (inherit dx (link_mode mode) (fresh_inode (i_sb dx) (link_mode mode) 0 k))"
    "iobj ?k2 dir = Some (dx\<lparr>i_mtime := clock k, i_ctime := clock k\<rparr>)"
    using o(2) obj_Some_length [OF x(4)] by simp_all
  have "reg_ino_mapp_table ?k2 = reg_ino_mapp_table k"
    using o(5) by (simp add: set_dentry_def)
  then have "register_link ?d (rq_ino rq) p (rq_ino_parent rq) (Some ip) ?k2 =
      bindR (table_insert (reg_ino_mapp_table k) (s @ [NUL]) (last_ino k + 1) (rq_ino rq) (i_ino dx) (rq_ino_parent rq) ip)
      (\<lambda>t. Ok (?k2\<lparr>reg_ino_mapp_table := t\<rparr>))"
    using d2 i2 x(3)
    by (simp add: register_link_def dentry_at_Some d_inode_of_def inode_at_Some link_dentry_def with_child_def del: bindR_eq_Ok)
  then show ?thesis
    using assms(1,2) x(2,3,4) n upd
    by (intro exI [of _ n]) (simp add: rdma_create_def d_inode_of_def dentry_at_Some inode_at_Some del: bindR_eq_Ok)
qed

section \<open>Requests as they arrive\<close>

text \<open>Numbers and names that survive the wire.\<close>

definition sendable :: "u32 \<Rightarrow> string \<Rightarrow> u32 \<Rightarrow> string \<Rightarrow> bool" where
  "sendable ino s pino ps \<longleftrightarrow> 0 \<le> sint ino \<and> 0 \<le> sint pino \<and> word_ok s \<and> length s < 20 \<and> word_ok ps \<and> length ps < 20"

definition entry_request :: "string \<Rightarrow> u32 \<Rightarrow> string \<Rightarrow> u32 \<Rightarrow> string \<Rightarrow> u32 \<Rightarrow> bytes" where
  "entry_request op ino s pino ps mode =
     (let t = blanks (entry_words op ino s pino ps) @ mode_word mode in received (length t) t)"

lemma entry_request_text:
  assumes "sendable ino s pino ps" "length op < 8"
  shows "entry_request op ino s pino ps mode =
    (let t = blanks (entry_words op ino s pino ps) @ mode_word mode in t @ NUL # replicate (1023 - length t) NUL)"
proof -
  have "length (blanks (entry_words op ino s pino ps) @ mode_word mode) < 1024"
    using assms entry_words_length [of s ps op ino pino] by (simp add: sendable_def mode_word_ok)
  from received_text [OF this, of "[]"] show ?thesis
    by (simp add: entry_request_def Let_def)
qed

lemma entry_request_parsed:
  assumes "sendable ino s pino ps" "frame_ok 6 fr" "word_ok op" "length op < 8"
  shows "\<exists>rq. parse_entry fr (entry_request op ino s pino ps mode) = Ok rq \<and> rq_ino rq = ino \<and>
    rq_ino_parent rq = pino \<and> (rq_mode rq = 0 \<longleftrightarrow> mode = 0) \<and> holds (rq_name rq) s \<and> holds (rq_name_parent rq) ps"
proof -
  have ok: "\<forall>w \<in> {op, print_int ino, s, print_int pino, ps, mode_word mode}. word_ok w \<and> length w < 20"
    using assms by (simp add: sendable_def mode_word_ok print_int_word)
  show ?thesis
    using assms parse_entry_words [OF assms(2) ok] mode_word_value [of mode]
    by (simp add: entry_request_text Let_def mode_word_ok put_row_holds word_ok_no_NUL print_int_word entry_words_def
        sendable_def del: blanks.simps)
qed

lemma fs_ok_link:
  assumes "place_free k p px dir dx s"
  shows "fs_ok ((set_dentry (length (dents k)) (link_dentry p s (length (inodes k))) (linked p px s dir dx mode n k))
    \<lparr>reg_ino_mapp_table := t\<rparr>)"
proof -
  note o = linked_objs [OF assms, of mode n]
  have d: "dobj (linked p px s dir dx mode n k) (length (dents k)) =
      Some ((new_dentry p s)\<lparr>d_inode := Some (length (inodes k)), d_count := 2\<rparr>)"
    using o(1) by simp
  have "fs_ok (set_dentry (length (dents k)) (link_dentry p s (length (inodes k))) (linked p px s dir dx mode n k))"
    by (rule fs_ok_set_dentry [OF o(3) d]) (simp_all add: same_place_def link_dentry_def)
  then show ?thesis
    by (rule fs_ok_cong) simp_all
qed

lemma rdma_create_ok:
  assumes "sendable ino s pino ps" "frame_ok 6 fr" "length s < 16" "holds ip a" "length a < 16"
    and "rroot_dentry k = Some r" "dobj k r = Some x" "fs_ok k" "\<forall>n. mem k n" "candidate k r ps q"
    and "\<forall>p. candidate k r ps p \<longrightarrow> (\<exists>px dir dx. place_free k p px dir dx s)"
    and "table_ok (reg_ino_mapp_table k)" "size (regs (reg_ino_mapp_table k)) < 1024"
  shows "\<exists>p px dir dx k'. candidate k r ps p \<and> place_free k p px dir dx s \<and>
    rdma_create fr (entry_request ''CR'' ino s pino ps mode) (Some ip) k = Ok k' \<and> fs_ok k' \<and>
    dobj k' = (dobj k)(p := Some (with_child (length (dents k)) px),
      length (dents k) := Some (link_dentry p s (length (inodes k)))) \<and>
    dhash k' = length (dents k) # dhash k \<and>
    rroot_dentry k' = rroot_dentry k \<and> socks k' = socks k \<and>
    (\<exists>z. iobj k' = (iobj k)(dir := Some (dx\<lparr>i_mtime := clock k, i_ctime := clock k\<rparr>), length (inodes k) := Some z) \<and>
      i_ino z = last_ino k + 1 \<and> i_ops z = (if mode = 0 then FileOps else DirOps) \<and> i_count z = 1 \<and> i_mode z \<noteq> 0) \<and>
    table_ok (reg_ino_mapp_table k') \<and> regs (reg_ino_mapp_table k') =
      add_mset \<lparr>r_name = s, r_local = (last_ino k + 1, i_ino dx), r_remote = (ino, pino), r_ip = a\<rparr>
        (regs (reg_ino_mapp_table k))"
proof -
  have cr: "word_ok ''CR''"
    by (simp add: separator_def newline_def)
  obtain rq where rq: "parse_entry fr (entry_request ''CR'' ino s pino ps mode) = Ok rq" "rq_ino rq = ino"
    "rq_ino_parent rq = pino" "rq_mode rq = 0 \<longleftrightarrow> mode = 0" "holds (rq_name rq) s" "holds (rq_name_parent rq) ps"
    using entry_request_parsed [OF assms(1,2) cr] by auto
  obtain p where p: "parent_dentry (rq_name_parent rq) k = Ok p" "candidate k r ps p"
    using parent_dentry_eq [OF assms(8,6,7) rq(6)] assms(10) by blast
  then obtain px dir dx where free: "place_free k p px dir dx s"
    using assms(11) by blast
  have nm: "holds (s @ [NUL]) s"
    using rq(5) by (auto simp: holds_iff)
  obtain t where t: "table_insert (reg_ino_mapp_table k) (s @ [NUL]) (last_ino k + 1) ino (i_ino dx) pino ip = Ok t"
    "table_ok t" "regs t = add_mset \<lparr>r_name = s, r_local = (last_ino k + 1, i_ino dx), r_remote = (ino, pino), r_ip = a\<rparr>
        (regs (reg_ino_mapp_table k))"
    using table_insert_ok [OF assms(12,13) nm assms(3,4,5)] by blast
  from rdma_create_eq [OF rq(1) p(1) free assms(9) rq(5) refl, of ip] rq(2,3) t(1)
  obtain n where n: "rdma_create fr (entry_request ''CR'' ino s pino ps mode) (Some ip) k =
      Ok ((set_dentry (length (dents k)) (link_dentry p s (length (inodes k))) (linked p px s dir dx (rq_mode rq) n k))
        \<lparr>reg_ino_mapp_table := t\<rparr>)" (is "_ = Ok ?k")
    by auto
  note o = linked_objs [OF free, of "rq_mode rq" n]
  have d: "dobj (linked p px s dir dx (rq_mode rq) n k) (length (dents k)) \<noteq> None"
    using o(1) by simp
  then have dob: "dobj ?k = (dobj k)(p := Some (with_child (length (dents k)) px),
      length (dents k) := Some (link_dentry p s (length (inodes k))))"
    using o(1) by (auto simp: obj_fun_upd)
  let ?z = "inherit dx (link_mode (rq_mode rq)) (fresh_inode (i_sb dx) (link_mode (rq_mode rq)) 0 k)"
  have "iobj ?k = (iobj k)(dir := Some (dx\<lparr>i_mtime := clock k, i_ctime := clock k\<rparr>), length (inodes k) := Some ?z)"
    using o(2) by simp
  moreover have "i_ino ?z = last_ino k + 1" "i_ops ?z = (if mode = 0 then FileOps else DirOps)" "i_count ?z = 1" "i_mode ?z \<noteq> 0"
    using rq(4)
    by (auto simp: inherit_def fresh_inode_def type_ops_def link_mode_def Let_def S_IFMT_def S_IFREG_def S_IFDIR_def S_IFLNK_def S_ISGID_def)
  moreover have "rroot_dentry ?k = rroot_dentry k" "socks ?k = socks k"
    using o(6,7) by (simp_all add: set_dentry_def)
  moreover have "dhash ?k = length (dents k) # dhash k"
    using o(4) by (simp add: set_dentry_def)
  moreover have "table_ok (reg_ino_mapp_table ?k)" "regs (reg_ino_mapp_table ?k) =
      add_mset \<lparr>r_name = s, r_local = (last_ino k + 1, i_ino dx), r_remote = (ino, pino), r_ip = a\<rparr>
        (regs (reg_ino_mapp_table k))"
    using t(2,3) by simp_all
  ultimately show ?thesis
    using p(2) free n fs_ok_link [OF free, where mode = "rq_mode rq" and n = n and t = t] dob by blast
qed

text \<open>
  C4.  A create request as a client sends it, on a server in the invariant with memory and room
  in the table, whose candidates for the parent are directories in which the name is free:
  \<open>rdma_create\<close> returns; under one of the candidates there is a new hashed dentry with the
  name and one reference, whose inode is fresh and is a directory or a file as the request
  says; nothing else in the tree changes, the invariant is kept, and the entry is registered
  with the local and the sender's numbers and the sender's address.
\<close>

theorem create_request_links:
  assumes "sendable ino s pino ps" "frame_ok 6 fr" "length s < 16" "holds ip a" "length a < 16"
    and "rroot_dentry k = Some r" "dobj k r = Some x" "fs_ok k" "\<forall>n. mem k n" "candidate k r ps q"
    and "\<forall>p. candidate k r ps p \<longrightarrow> (\<exists>px dir dx. place_free k p px dir dx s)"
    and "table_ok (reg_ino_mapp_table k)" "size (regs (reg_ino_mapp_table k)) < 1024"
  shows "\<exists>p px dir dx k'. candidate k r ps p \<and> place_free k p px dir dx s \<and>
    rdma_create fr (entry_request ''CR'' ino s pino ps mode) (Some ip) k = Ok k' \<and> fs_ok k' \<and>
    dobj k' = (dobj k)(p := Some (with_child (length (dents k)) px),
      length (dents k) := Some (link_dentry p s (length (inodes k)))) \<and>
    dhash k' = length (dents k) # dhash k \<and>
    map_option i_ino (iobj k' (length (inodes k))) = Some (last_ino k + 1) \<and>
    map_option i_ops (iobj k' (length (inodes k))) = Some (if mode = 0 then FileOps else DirOps) \<and>
    table_ok (reg_ino_mapp_table k') \<and> regs (reg_ino_mapp_table k') =
      add_mset \<lparr>r_name = s, r_local = (last_ino k + 1, i_ino dx), r_remote = (ino, pino), r_ip = a\<rparr>
        (regs (reg_ino_mapp_table k))"
proof -
  obtain p px dir dx k' where "candidate k r ps p" "place_free k p px dir dx s"
    "rdma_create fr (entry_request ''CR'' ino s pino ps mode) (Some ip) k = Ok k'" "fs_ok k'"
    "dobj k' = (dobj k)(p := Some (with_child (length (dents k)) px),
      length (dents k) := Some (link_dentry p s (length (inodes k))))"
    "dhash k' = length (dents k) # dhash k"
    "\<exists>z. iobj k' = (iobj k)(dir := Some (dx\<lparr>i_mtime := clock k, i_ctime := clock k\<rparr>), length (inodes k) := Some z) \<and>
      i_ino z = last_ino k + 1 \<and> i_ops z = (if mode = 0 then FileOps else DirOps) \<and> i_count z = 1 \<and> i_mode z \<noteq> 0"
    "table_ok (reg_ino_mapp_table k')" "regs (reg_ino_mapp_table k') =
      add_mset \<lparr>r_name = s, r_local = (last_ino k + 1, i_ino dx), r_remote = (ino, pino), r_ip = a\<rparr>
        (regs (reg_ino_mapp_table k))"
    using rdma_create_ok [OF assms, of mode] by blast
  moreover from this(7) have "map_option i_ino (iobj k' (length (inodes k))) = Some (last_ino k + 1)"
    "map_option i_ops (iobj k' (length (inodes k))) = Some (if mode = 0 then FileOps else DirOps)"
    by auto
  ultimately show ?thesis
    by blast
qed

lemma kernel1_root: "rroot_dentry kernel1 = Some 0" "reg_ino_mapp_table kernel1 = blank_table" "last_ino kernel1 = 4"
  by (simp_all add: kernel1_def kernel0_def)

lemma kernel1_place_free:
  "place_free kernel1 0 (ex_dentry ''/'' 4 (Some 0) 0 [4, 3, 1]) 0 (ex_inode 1 0x41ED 4 DirOps) ''b''"
proof -
  have "\<not> named kernel1 0 ''b'' d" for d
    by (auto simp: named_def kernel1_dobj cstring_def)
  then show ?thesis
    using kernel1_searchable by (simp add: place_free_def short_name_def good_name_def)
qed

lemma kernel1_candidate: "candidate kernel1 0 ''/'' p \<longleftrightarrow> p = 0"
  by (cases "dobj kernel1 p") (auto simp: candidate_def name_of_def kernel1_dobj cstring_def intro: gr0I)

lemma sendable_example: "sendable 7 ''b'' 3 ''/''"
  by (simp add: sendable_def separator_def newline_def)

theorem create_request_links_witness:
  "\<exists>k'. rdma_create fr6 (entry_request ''CR'' 7 ''b'' 3 ''/'' 0) (Some (''10.0.0.1'' @ [NUL])) kernel1 = Ok k' \<and> fs_ok k' \<and>
    dobj k' 5 = Some (link_dentry 0 ''b'' 4) \<and> regs (reg_ino_mapp_table k') =
      {#\<lparr>r_name = ''b'', r_local = (5, 1), r_remote = (7, 3), r_ip = ''10.0.0.1''\<rparr>#}"
proof -
  have len: "length (dents kernel1) = 5" "length (inodes kernel1) = 4"
    by (simp_all add: kernel1_def)
  have place: "\<forall>p. candidate kernel1 0 ''/'' p \<longrightarrow> (\<exists>px dir dx. place_free kernel1 p px dir dx ''b'')"
    using kernel1_place_free by (auto simp: kernel1_candidate)
  have table: "table_ok (reg_ino_mapp_table kernel1)" "size (regs (reg_ino_mapp_table kernel1)) < 1024"
    by (simp_all add: kernel1_root blank_table_ok)
  obtain p px dir dx k' where k': "candidate kernel1 0 ''/'' p" "place_free kernel1 p px dir dx ''b''"
    "rdma_create fr6 (entry_request ''CR'' 7 ''b'' 3 ''/'' 0) (Some (''10.0.0.1'' @ [NUL])) kernel1 = Ok k'" "fs_ok k'"
    "dobj k' = (dobj kernel1)(p := Some (with_child (length (dents kernel1)) px),
      length (dents kernel1) := Some (link_dentry p ''b'' (length (inodes kernel1))))"
    "regs (reg_ino_mapp_table k') =
      add_mset \<lparr>r_name = ''b'', r_local = (last_ino kernel1 + 1, i_ino dx), r_remote = (7, 3), r_ip = ''10.0.0.1''\<rparr>
        (regs (reg_ino_mapp_table kernel1))"
    using create_request_links [OF sendable_example fr6_ok _ table_holds_example(2) _ kernel1_root(1) kernel1_dobjs(1) kernel1_ok
        _ _ place table, of 0 0] kernel1_memory
    by (auto simp: kernel1_candidate)
  have p: "p = 0"
    using k'(1) by (simp add: kernel1_candidate)
  then have "i_ino dx = 1"
    using k'(2) by (auto simp: place_free_def searchable_def kernel1_dobj kernel1_iobj)
  then show ?thesis
    using k'(3-6) p by (simp add: len kernel1_root blank_table_ok)
qed

text \<open>
  C31.  A create request whose parent name nobody in the tree has crashes the server: the
  search's null result is used without a test.
\<close>

theorem create_request_without_parent:
  assumes "sendable ino s pino ps" "frame_ok 6 fr" "rroot_dentry k = Some r" "dobj k r = Some x" "fs_ok k"
    and "\<forall>p. \<not> candidate k r ps p"
  shows "rdma_create fr (entry_request ''CR'' ino s pino ps mode) ip k = Fault NullDeref"
proof -
  have cr: "word_ok ''CR''"
    by (simp add: separator_def newline_def)
  obtain rq where rq: "parse_entry fr (entry_request ''CR'' ino s pino ps mode) = Ok rq" "holds (rq_name_parent rq) ps"
    using entry_request_parsed [OF assms(1,2) cr] by auto
  then have "parent_dentry (rq_name_parent rq) k = Fault NullDeref"
    using parent_dentry_eq [OF assms(5,3,4) rq(2)] assms(6) by blast
  then show ?thesis
    using rq(1) by (simp add: rdma_create_def)
qed

theorem create_request_without_parent_witness:
  "rdma_create fr6 (entry_request ''CR'' 7 ''b'' 3 ''nowhere'' 0) (Some (''10.0.0.1'' @ [NUL])) kernel1 = Fault NullDeref"
proof (rule create_request_without_parent [OF _ fr6_ok kernel1_root(1) kernel1_dobjs(1) kernel1_ok])
  show "sendable 7 ''b'' 3 ''nowhere''"
    by (simp add: sendable_def separator_def newline_def)
  have "\<not> candidate kernel1 0 ''nowhere'' p" for p
    by (cases "dobj kernel1 p") (auto simp: candidate_def name_of_def kernel1_dobj cstring_def)
  then show "\<forall>p. \<not> candidate kernel1 0 ''nowhere'' p" ..
qed

section \<open>Dropping the last reference\<close>

lemma d_kill_table: "d_kill d k = Ok (p, k') \<Longrightarrow> reg_ino_mapp_table k' = reg_ino_mapp_table k \<and> rroot_dentry k' = rroot_dentry k"
  by (auto simp: d_kill_def list_del_child_def dentry_iput_def iput_def generic_delete_inode_def upd_eq_Ok set_dentry_def
      set_inode_def split: option.splits if_splits)

text \<open>
  A dentry without children whose only reference goes: it is unhashed and freed, its inode
  is released, and the parent, which has other references, loses one.
\<close>

lemma dput_last:
  assumes "fs_ok k" "dobj k d = Some x" "d_count x = 1" "d_op_delete x" "d_subdirs x = []" "d_parent x \<noteq> d"
    and "dobj k (d_parent x) = Some px" "d_count px - 1 \<noteq> 0"
  shows "\<exists>k'. dput (Some d) k = Ok k' \<and> fs_ok k' \<and>
    dobj k' = (dobj k)(d := None, d_parent x := Some (px\<lparr>d_subdirs := filter (\<lambda>c. c \<noteq> d) (d_subdirs px), d_count := d_count px - 1\<rparr>)) \<and>
    dhash k' = filter (\<lambda>e. e \<noteq> d) (dhash k) \<and> iobj k' = released (d_inode x) (iobj k) \<and>
    reg_ino_mapp_table k' = reg_ino_mapp_table k \<and> rroot_dentry k' = rroot_dentry k"
proof -
  let ?p = "d_parent x" and ?x = "x\<lparr>d_count := 0\<rparr>" and ?px = "px\<lparr>d_subdirs := filter (\<lambda>c. c \<noteq> d) (d_subdirs px)\<rparr>"
  let ?k = "d_drop d (set_dentry d ?x k)"
  have ok: "fs_ok ?k"
    using fs_ok_d_drop [OF fs_ok_set_count [OF assms(1,2), of 0]] assms(5) by simp
  have x: "dobj ?k d = Some ?x"
    using obj_Some_length [OF assms(2)] by (simp add: d_drop_def)
  have "d \<notin> set (dhash ?k)"
    by (simp add: d_drop_def)
  then obtain k1 where k1: "d_kill d ?k = Ok (Some ?p, k1)" "fs_ok k1" "dobj k1 = unlinked d ?x (dobj ?k)" "dhash k1 = dhash ?k"
      "iobj k1 = released (d_inode x) (iobj ?k)"
    using d_kill_ok [OF ok x] assms(5,6) by auto
  have D: "dobj ?k = (dobj k)(d := Some ?x)"
    using assms(2) by (simp add: d_drop_def obj_fun_upd)
  have p: "dobj k1 ?p = Some ?px"
    using k1(3) assms(6,7) by (simp add: D unlinked_def)
  let ?k' = "set_dentry ?p (?px\<lparr>d_count := d_count px - 1\<rparr>) k1"
  have "dput (Some ?p) k1 = Ok ?k'"
    using dput_kept [OF p] assms(8) by simp
  then have "dput (Some d) k = Ok ?k'"
    using assms(2-4) k1(1) by (subst dput.simps) (simp add: dentry_at_Some Let_def del: bindR_eq_Ok)
  moreover have "fs_ok ?k'"
  proof -
    have "d \<in> set (d_subdirs px)"
      using parent_child [OF fs_okD(1) [OF assms(1)] assms(2) refl assms(7,6)] .
    moreover have "length (d_subdirs px) \<le> unat (d_count px)"
      using fs_okD(2) [OF assms(1)] assms(7) by (auto simp: refs_ok_def)
    ultimately have "length (d_subdirs ?px) < unat (d_count ?px)"
      using length_filter_less [of d "d_subdirs px" "\<lambda>c. c \<noteq> d"] by simp
    then show ?thesis
      using dput_ok [OF k1(2) p] \<open>dput (Some ?p) k1 = Ok ?k'\<close> by simp
  qed
  moreover have "dobj ?k' = (dobj k)(d := None, ?p := Some (?px\<lparr>d_count := d_count px - 1\<rparr>))"
    using assms(6,7) by (auto simp: obj_fun_upd [OF p] k1(3) D unlinked_def fun_eq_iff)
  moreover have "dhash ?k' = filter (\<lambda>e. e \<noteq> d) (dhash k)"
    using k1(4) by (simp add: d_drop_def)
  moreover have "iobj ?k' = released (d_inode x) (iobj k)"
    using k1(5) by (simp add: d_drop_def)
  moreover have "reg_ino_mapp_table ?k' = reg_ino_mapp_table k" "rroot_dentry ?k' = rroot_dentry k"
    using d_kill_table [OF k1(1)] by (simp_all add: d_drop_def set_dentry_def)
  ultimately show ?thesis
    by auto
qed

section \<open>Removing\<close>

text \<open>The link of a remote entry, with the one reference of the cache, without children.\<close>

definition link_at :: "kernel \<Rightarrow> addr \<Rightarrow> dentry \<Rightarrow> dentry \<Rightarrow> addr \<Rightarrow> inode \<Rightarrow> addr \<Rightarrow> inode \<Rightarrow> bool" where
  "link_at k d x px dir dx i z \<longleftrightarrow> fs_ok k \<and> dobj k d = Some x \<and> d_count x = 1 \<and> d_op_delete x \<and> d_subdirs x = [] \<and>
     d_parent x \<noteq> d \<and> d_inode x = Some i \<and> iobj k i = Some z \<and> i_count z = 1 \<and> dobj k (d_parent x) = Some px \<and>
     d_count px - 1 \<noteq> 0 \<and> d_inode px = Some dir \<and> iobj k dir = Some dx \<and> i \<noteq> dir"

lemma link_atD:
  assumes "link_at k d x px dir dx i z"
  shows "fs_ok k" "dobj k d = Some x" "d_count x = 1" "d_op_delete x" "d_subdirs x = []" "d_parent x \<noteq> d"
    "dobj k (d_parent x) = Some px" "d_count px - 1 \<noteq> 0"
    "d_inode x = Some i" "iobj k i = Some z" "i_count z = 1" "d_inode px = Some dir" "iobj k dir = Some dx" "i \<noteq> dir"
  using assms by (auto simp: link_at_def)

definition unlinked_state :: "kernel \<Rightarrow> addr \<Rightarrow> dentry \<Rightarrow> dentry \<Rightarrow> addr \<Rightarrow> inode \<Rightarrow> addr \<Rightarrow> u32 \<Rightarrow> kernel \<Rightarrow> bool" where
  "unlinked_state k d x px dir dx i n k' \<longleftrightarrow> fs_ok k' \<and>
    dobj k' = (dobj k)(d := None, d_parent x := Some (px\<lparr>d_subdirs := filter (\<lambda>c. c \<noteq> d) (d_subdirs px), d_count := d_count px - 1\<rparr>)) \<and>
    dhash k' = filter (\<lambda>e. e \<noteq> d) (dhash k) \<and>
    iobj k' = (iobj k)(i := None, dir := Some (dx\<lparr>i_ctime := clock k, i_mtime := clock k, i_nlink := i_nlink dx - n\<rparr>)) \<and>
    reg_ino_mapp_table k' = reg_ino_mapp_table k \<and> rroot_dentry k' = rroot_dentry k"

lemma unlink_rdma_ok:
  assumes "link_at k d x px dir dx i z"
  shows "\<exists>k'. wjfs_unlink_rdma (Some dir) d k = Ok (0, k') \<and> unlinked_state k d x px dir dx i 0 k'"
proof -
  note x = link_atD [OF assms]
  let ?dx = "dx\<lparr>i_ctime := clock k, i_mtime := clock k\<rparr>"
  let ?k1 = "set_inode dir ?dx k"
  let ?z2 = "z\<lparr>i_ctime := clock k\<rparr>"
  let ?k2 = "set_inode i ?z2 ?k1"
  let ?z3 = "z\<lparr>i_ctime := clock k, i_nlink := i_nlink z - 1\<rparr>"
  let ?k3 = "set_inode i ?z3 ?k2"
  have 1: "fs_ok ?k1"
    by (rule fs_ok_set_inode_same [OF x(1,13)]) simp
  have i1: "iobj ?k1 i = Some z"
    using x by simp
  have 2: "fs_ok ?k2"
    by (rule fs_ok_set_inode_same [OF 1 i1]) simp
  have i2: "iobj ?k2 i = Some ?z2"
    using x obj_Some_length [OF x(10)] by simp
  have 3: "fs_ok ?k3"
    by (rule fs_ok_set_inode_same [OF 2 i2]) simp
  have clock: "clock ?k1 = clock k"
    by (simp add: set_inode_def)
  have I: "iobj ?k3 = (iobj k)(dir := Some ?dx, i := Some ?z3)"
    using x by (simp add: obj_fun_upd)
  have d3: "dobj ?k3 = dobj k" "dhash ?k3 = dhash k" "reg_ino_mapp_table ?k3 = reg_ino_mapp_table k" "rroot_dentry ?k3 = rroot_dentry k"
    by (simp_all add: set_inode_def)
  obtain k' where k': "dput (Some d) ?k3 = Ok k'" "fs_ok k'"
    "dobj k' = (dobj k)(d := None, d_parent x := Some (px\<lparr>d_subdirs := filter (\<lambda>c. c \<noteq> d) (d_subdirs px), d_count := d_count px - 1\<rparr>))"
    "dhash k' = filter (\<lambda>e. e \<noteq> d) (dhash k)" "iobj k' = released (Some i) (iobj ?k3)"
    "reg_ino_mapp_table k' = reg_ino_mapp_table k" "rroot_dentry k' = rroot_dentry k"
    using dput_last [OF 3, of d x px] x d3 by auto
  have "iobj k' = (iobj k)(i := None, dir := Some (dx\<lparr>i_ctime := clock k, i_mtime := clock k, i_nlink := i_nlink dx - 0\<rparr>))"
    using x(11,14) unfolding k'(5) I by (simp add: released_def fun_upd_twist)
  moreover have "wjfs_unlink_rdma (Some dir) d k = Ok (0, k')"
    using x i1 i2 k'(1) clock
    by (simp add: wjfs_unlink_rdma_def d_inode_of_def dentry_at_Some upd_inode_Some drop_nlink_def del: bindR_eq_Ok)
  ultimately show ?thesis
    using k' by (auto simp: unlinked_state_def)
qed

lemma simple_unlink_rdma: "simple_unlink dir d k = wjfs_unlink_rdma (Some dir) d k"
  by (simp add: simple_unlink_def wjfs_unlink_rdma_def)

lemma rmdir_rdma_ok:
  assumes "link_at k d x px dir dx i z"
  shows "\<exists>k'. wjfs_rmdir_rdma (Some dir) d k = Ok (0, k') \<and> unlinked_state k d x px dir dx i 1 k'"
proof -
  note x = link_atD [OF assms]
  let ?z = "z\<lparr>i_nlink := i_nlink z - 1\<rparr>"
  let ?k = "set_inode i ?z k"
  have f: "dobj ?k = dobj k" "dhash ?k = dhash k" "clock ?k = clock k" "reg_ino_mapp_table ?k = reg_ino_mapp_table k"
    "rroot_dentry ?k = rroot_dentry k" and I: "iobj ?k = (iobj k)(i := Some ?z)"
    using x(10) by (simp_all add: set_inode_def obj_fun_upd)
  have "fs_ok ?k"
    by (rule fs_ok_set_inode_same [OF x(1,10)]) simp
  then have "link_at ?k d x px dir dx i ?z"
    using assms f I unfolding link_at_def by simp
  from unlink_rdma_ok [OF this] obtain k1 where k1: "wjfs_unlink_rdma (Some dir) d ?k = Ok (0, k1)"
    "unlinked_state ?k d x px dir dx i 0 k1"
    by blast
  let ?dx = "dx\<lparr>i_ctime := clock k, i_mtime := clock k\<rparr>"
  let ?k' = "set_inode dir (?dx\<lparr>i_nlink := i_nlink dx - 1\<rparr>) k1"
  have u: "fs_ok k1" "dhash k1 = filter (\<lambda>e. e \<noteq> d) (dhash k)" "iobj k1 = (iobj k)(i := None, dir := Some ?dx)"
    "dobj k1 = (dobj k)(d := None, d_parent x := Some (px\<lparr>d_subdirs := filter (\<lambda>c. c \<noteq> d) (d_subdirs px), d_count := d_count px - 1\<rparr>))"
    "reg_ino_mapp_table k1 = reg_ino_mapp_table k" "rroot_dentry k1 = rroot_dentry k"
    using k1(2) unfolding unlinked_state_def f I by simp_all
  have dir: "iobj k1 dir = Some ?dx"
    using u(3) by simp
  have "fs_ok ?k'"
    by (rule fs_ok_set_inode_same [OF u(1) dir]) simp
  then have "unlinked_state k d x px dir dx i 1 ?k'"
    using u by (simp add: unlinked_state_def obj_fun_upd [OF dir]) (simp add: set_inode_def)
  moreover have "simple_empty d k = Ok True"
    using x(2,5) by (simp add: simple_empty_def dentry_at_Some)
  then have "wjfs_rmdir_rdma (Some dir) d k = Ok (0, ?k')"
    using x(2,9,10) k1(1) dir
    by (simp add: wjfs_rmdir_rdma_def d_inode_of_def dentry_at_Some drop_nlink_def upd_inode_Some simple_unlink_rdma
        del: bindR_eq_Ok)
  ultimately show ?thesis
    by blast
qed

lemma unlinked_state_table:
  "unlinked_state (k\<lparr>reg_ino_mapp_table := t\<rparr>) d x px dir dx i n k' \<Longrightarrow>
    reg_ino_mapp_table k' = t \<and> unlinked_state k d x px dir dx i n (k'\<lparr>reg_ino_mapp_table := reg_ino_mapp_table k\<rparr>)"
  using fs_ok_cong [of k' "k'\<lparr>reg_ino_mapp_table := reg_ino_mapp_table k\<rparr>"] by (simp add: unlinked_state_def)

text \<open>The handler, when the only dentries with the registered number are links.\<close>

lemma rdma_remove_eq:
  assumes "parse_entry fr buf = Ok rq" "table_remove (reg_ino_mapp_table k) (rq_ino rq) (rq_ino_parent rq) = (l, lp, t)"
    and "rroot_dentry k = Some r" "find_dentry_by_ino (k\<lparr>reg_ino_mapp_table := t\<rparr>) r l = Ok (Some d)"
    and "link_at k d x px dir dx i z"
  shows "\<exists>k'. rdma_remove fr buf k = Ok k' \<and> reg_ino_mapp_table k' = t \<and>
    unlinked_state k d x px dir dx i (if rq_mode rq = 0 then 0 else 1) (k'\<lparr>reg_ino_mapp_table := reg_ino_mapp_table k\<rparr>)"
proof -
  note x = link_atD [OF assms(5)]
  let ?k = "k\<lparr>reg_ino_mapp_table := t\<rparr>"
  have "link_at ?k d x px dir dx i z"
    using assms(5) fs_ok_cong [of k ?k] by (simp add: link_at_def)
  from unlink_rdma_ok [OF this] rmdir_rdma_ok [OF this]
  obtain k' where "(if rq_mode rq \<noteq> 0 then wjfs_rmdir_rdma (Some dir) d ?k else wjfs_unlink_rdma (Some dir) d ?k) = Ok (0, k')"
    "unlinked_state ?k d x px dir dx i (if rq_mode rq = 0 then 0 else 1) k'"
    by (cases "rq_mode rq = 0") auto
  moreover from this have "rdma_remove fr buf k = Ok k'"
    using assms(1-4) x(2,7,12)
    by (cases "rq_mode rq = 0") (simp_all add: rdma_remove_def dentry_at_Some Let_def del: bindR_eq_Ok)
  ultimately show ?thesis
    using unlinked_state_table by blast
qed

lemma table_update_tree [simp]:
  "visible_child (k\<lparr>reg_ino_mapp_table := t\<rparr>) = visible_child k" "is_dir (k\<lparr>reg_ino_mapp_table := t\<rparr>) = is_dir k"
  "ino_of (k\<lparr>reg_ino_mapp_table := t\<rparr>) = ino_of k"
  by (auto simp: fun_eq_iff visible_child_def is_dir_def ino_of_def split: option.split)

lemma reaches_mono:
  assumes "reaches k r d" "\<And>c x. dobj k c = Some x \<Longrightarrow> \<exists>y. dobj k' c = Some y \<and> set (d_subdirs x) \<subseteq> set (d_subdirs y)"
    and "\<And>c. visible_child k c \<Longrightarrow> visible_child k' c" "\<And>c. is_dir k c \<Longrightarrow> is_dir k' c"
  shows "reaches k' r d"
  using assms(1)
proof induction
  case (child d x c)
  obtain y where "dobj k' d = Some y" "set (d_subdirs x) \<subseteq> set (d_subdirs y)"
    using assms(2) [OF child(1)] by blast
  then show ?case
    using child(2) by (intro reaches.child [OF _ _ assms(3) [OF child(3)], where x = y]) auto
next
  case (below d x c a)
  obtain y where y: "dobj k' d = Some y" "set (d_subdirs x) \<subseteq> set (d_subdirs y)"
    using assms(2) [OF below(1)] by blast
  then have "c \<in> set (d_subdirs y)"
    using below(2) by auto
  then show ?case
    by (rule reaches.below [OF y(1) _ assms(3) [OF below(3)] assms(4) [OF below(4)] below(6)])
qed

lemma reaches_table [simp]: "reaches (k\<lparr>reg_ino_mapp_table := t\<rparr>) r d \<longleftrightarrow> reaches k r d"
proof
  show "reaches k r d" if "reaches (k\<lparr>reg_ino_mapp_table := t\<rparr>) r d"
    using that by (rule reaches_mono) auto
  show "reaches (k\<lparr>reg_ino_mapp_table := t\<rparr>) r d" if "reaches k r d"
    using that by (rule reaches_mono) auto
qed

lemma find_by_ino_ok:
  assumes "fs_ok k" "dobj k r \<noteq> None"
  shows "\<exists>f. find_dentry_by_ino k r l = Ok f \<and>
    (case f of None \<Rightarrow> \<forall>a. reaches k r a \<longrightarrow> ino_of k a \<noteq> Some l | Some a \<Rightarrow> reaches k r a \<and> ino_of k a = Some l)"
  unfolding find_dentry_by_ino_def
  using search_complete [where test = "ino_is l" and P = "\<lambda>a. ino_of k a = Some l", OF fs_okD(1) [OF assms(1)] assms(2) ino_is_visible]
  by auto

lemma find_by_ino_hit:
  assumes "fs_ok k" "dobj k r \<noteq> None" "reaches k r e" "ino_of k e = Some l"
  shows "\<exists>d. find_dentry_by_ino (k\<lparr>reg_ino_mapp_table := t\<rparr>) r l = Ok (Some d) \<and> reaches k r d \<and> ino_of k d = Some l"
proof -
  have "fs_ok (k\<lparr>reg_ino_mapp_table := t\<rparr>)"
    using assms(1) by (rule fs_ok_cong) simp_all
  then show ?thesis
    using find_by_ino_ok [of "k\<lparr>reg_ino_mapp_table := t\<rparr>" r l] assms(2-4) by (auto split: option.splits)
qed

lemma rdma_remove_ok:
  assumes "sendable ino s pino ps" "frame_ok 6 fr" "rroot_dentry k = Some r" "dobj k r \<noteq> None" "fs_ok k"
    and "table_ok (reg_ino_mapp_table k)" "g \<in># regs (reg_ino_mapp_table k)" "r_remote g = (ino, pino)"
    and "\<forall>h. h \<in># regs (reg_ino_mapp_table k) \<and> r_remote h = (ino, pino) \<longrightarrow> h = g"
    and "reaches k r e" "ino_of k e = Some (fst (r_local g))"
    and "\<forall>d. reaches k r d \<and> ino_of k d = Some (fst (r_local g)) \<longrightarrow> (\<exists>x px dir dx i z. link_at k d x px dir dx i z)"
  shows "\<exists>d x px dir dx i z k'. reaches k r d \<and> ino_of k d = Some (fst (r_local g)) \<and> link_at k d x px dir dx i z \<and>
    rdma_remove fr (entry_request ''RM'' ino s pino ps mode) k = Ok k' \<and> fs_ok k' \<and>
    dobj k' = (dobj k)(d := None, d_parent x := Some (px\<lparr>d_subdirs := filter (\<lambda>c. c \<noteq> d) (d_subdirs px), d_count := d_count px - 1\<rparr>)) \<and>
    dhash k' = filter (\<lambda>e. e \<noteq> d) (dhash k) \<and> iobj k' i = None \<and>
    (\<exists>n. iobj k' = (iobj k)(i := None, dir := Some (dx\<lparr>i_ctime := clock k, i_mtime := clock k, i_nlink := i_nlink dx - n\<rparr>))) \<and>
    rroot_dentry k' = rroot_dentry k \<and> table_ok (reg_ino_mapp_table k') \<and>
    regs (reg_ino_mapp_table k') = regs (reg_ino_mapp_table k) - {#g#}"
proof -
  have rm: "word_ok ''RM''"
    by (simp add: separator_def newline_def)
  obtain rq where rq: "parse_entry fr (entry_request ''RM'' ino s pino ps mode) = Ok rq" "rq_ino rq = ino" "rq_ino_parent rq = pino"
    using entry_request_parsed [OF assms(1,2) rm] by auto
  obtain lp t where t: "table_remove (reg_ino_mapp_table k) ino pino = (fst (r_local g), lp, t)" "regs t = regs (reg_ino_mapp_table k) - {#g#}" "table_ok t"
    using tab.remove_in [OF assms(6,7,8)] assms(9) by fastforce
  obtain d where d: "find_dentry_by_ino (k\<lparr>reg_ino_mapp_table := t\<rparr>) r (fst (r_local g)) = Ok (Some d)"
      "reaches k r d" "ino_of k d = Some (fst (r_local g))"
    using find_by_ino_hit [OF assms(5,4,10,11)] by blast
  then obtain x px dir dx i z where l: "link_at k d x px dir dx i z"
    using assms(12) by blast
  obtain k' where k': "rdma_remove fr (entry_request ''RM'' ino s pino ps mode) k = Ok k'" "reg_ino_mapp_table k' = t"
    "unlinked_state k d x px dir dx i (if rq_mode rq = 0 then 0 else 1) (k'\<lparr>reg_ino_mapp_table := reg_ino_mapp_table k\<rparr>)"
    using rdma_remove_eq [OF rq(1) _ assms(3) d(1) l] t(1) rq(2,3) by auto
  have "fs_ok k'"
    by (rule fs_ok_cong [of "k'\<lparr>reg_ino_mapp_table := reg_ino_mapp_table k\<rparr>"]) (use k'(3) in \<open>simp_all add: unlinked_state_def\<close>)
  moreover have "iobj k' i = None"
    using k'(3) link_atD(14) [OF l] by (simp add: unlinked_state_def)
  moreover have "dobj k' = (dobj k)(d := None, d_parent x := Some (px\<lparr>d_subdirs := filter (\<lambda>c. c \<noteq> d) (d_subdirs px), d_count := d_count px - 1\<rparr>))"
    "dhash k' = filter (\<lambda>e. e \<noteq> d) (dhash k)"
    using k'(3) by (simp_all add: unlinked_state_def)
  moreover have "rroot_dentry k' = rroot_dentry k" and I: "iobj k' = (iobj k)(i := None, dir := Some (dx\<lparr>i_ctime := clock k,
      i_mtime := clock k, i_nlink := i_nlink dx - (if rq_mode rq = 0 then 0 else 1)\<rparr>))"
    using k'(3) unfolding unlinked_state_def by simp_all
  moreover have "\<exists>n. iobj k' = (iobj k)(i := None, dir := Some (dx\<lparr>i_ctime := clock k, i_mtime := clock k, i_nlink := i_nlink dx - n\<rparr>))"
    using I by (rule exI)
  ultimately show ?thesis
    using k'(1) d(2,3) l t(2,3) unfolding k'(2) [symmetric] by blast
qed

text \<open>
  C5.  A remove request as a client sends it, for an entry registered once under the sender's
  numbers, on a server where the only dentries with the local number are links that nobody
  uses: \<open>rdma_remove\<close> returns; the link is unhashed and freed and so is its inode, the parent
  loses the child and the reference it held and no other dentry changes, the registration is
  gone, and the invariant is kept.
\<close>

theorem remove_request_unlinks:
  assumes "sendable ino s pino ps" "frame_ok 6 fr" "rroot_dentry k = Some r" "dobj k r \<noteq> None" "fs_ok k"
    and "table_ok (reg_ino_mapp_table k)" "g \<in># regs (reg_ino_mapp_table k)" "r_remote g = (ino, pino)"
    and "\<forall>h. h \<in># regs (reg_ino_mapp_table k) \<and> r_remote h = (ino, pino) \<longrightarrow> h = g"
    and "reaches k r e" "ino_of k e = Some (fst (r_local g))"
    and "\<forall>d. reaches k r d \<and> ino_of k d = Some (fst (r_local g)) \<longrightarrow> (\<exists>x px dir dx i z. link_at k d x px dir dx i z)"
  shows "\<exists>d x px dir dx i z k'. reaches k r d \<and> ino_of k d = Some (fst (r_local g)) \<and> link_at k d x px dir dx i z \<and>
    rdma_remove fr (entry_request ''RM'' ino s pino ps mode) k = Ok k' \<and> fs_ok k' \<and>
    dobj k' = (dobj k)(d := None, d_parent x := Some (px\<lparr>d_subdirs := filter (\<lambda>c. c \<noteq> d) (d_subdirs px), d_count := d_count px - 1\<rparr>)) \<and>
    dhash k' = filter (\<lambda>e. e \<noteq> d) (dhash k) \<and> iobj k' i = None \<and>
    regs (reg_ino_mapp_table k') = regs (reg_ino_mapp_table k) - {#g#}"
  using rdma_remove_ok [OF assms, of mode] by blast

lemma kernel1_dir: "S_ISDIR 0x41ED"
  by (simp add: S_ISDIR_def S_IFMT_def S_IFDIR_def)

text \<open>The example machine when nobody holds \<open>dir/a\<close>, with a table.\<close>

definition kernel3 :: "entry list \<Rightarrow> kernel" where
  "kernel3 t = (set_dentry 2 (ex_dentry ''a'' 1 (Some 2) 1 []) kernel1)\<lparr>reg_ino_mapp_table := t\<rparr>"

lemma kernel3_dobj: "dobj (kernel3 t) = (dobj kernel1)(2 := Some (ex_dentry ''a'' 1 (Some 2) 1 []))"
  by (simp add: kernel3_def obj_fun_upd [OF kernel1_dobjs(3)])

lemma kernel3_fields [simp]:
  "iobj (kernel3 t) = iobj kernel1" "reg_ino_mapp_table (kernel3 t) = t" "rroot_dentry (kernel3 t) = Some 0"
  by (simp_all add: kernel3_def set_dentry_def kernel1_def)

lemma kernel3_ok: "fs_ok (kernel3 t)"
proof -
  have "fs_ok (set_dentry 2 ((ex_dentry ''a'' 2 (Some 2) 1 [])\<lparr>d_count := 1\<rparr>) kernel1)"
    by (rule fs_ok_set_count [OF kernel1_ok kernel1_dobjs(3)]) simp
  then show ?thesis
    by (rule fs_ok_cong) (simp_all add: kernel3_def ex_dentry_def)
qed

lemma kernel3_link:
  "link_at (kernel3 t) 2 (ex_dentry ''a'' 1 (Some 2) 1 []) (ex_dentry ''dir'' 2 (Some 1) 0 [2]) 1 (ex_inode 2 0x41ED 2 DirOps)
     2 (ex_inode 3 0x81A4 1 FileOps)"
  using kernel3_ok by (simp add: link_at_def kernel3_dobj) (simp add: ex_dentry_def)

lemma kernel3_ino: "ino_of (kernel3 t) d = Some 3 \<longleftrightarrow> d = 2"
  by (cases "dobj kernel1 d") (auto simp: ino_of_def kernel3_dobj kernel1_dobj split: option.splits if_splits)

lemma kernel3_reaches: "reaches (kernel3 t) 0 2"
proof (rule reaches.below)
  show "dobj (kernel3 t) 0 = Some (ex_dentry ''/'' 4 (Some 0) 0 [4, 3, 1])"
    by (simp add: kernel3_dobj)
  show "1 \<in> set (d_subdirs (ex_dentry ''/'' 4 (Some 0) 0 [4, 3, 1]))"
    by simp
  show "visible_child (kernel3 t) 1" "is_dir (kernel3 t) 1"
    by (simp_all add: visible_child_def is_dir_def kernel3_dobj kernel1_dir)
  show "reaches (kernel3 t) 1 2"
    by (rule reaches.child [where x = "ex_dentry ''dir'' 2 (Some 1) 0 [2]"])
      (simp_all add: kernel3_dobj visible_child_def)
qed

theorem remove_request_unlinks_witness:
  "\<exists>t k'. table_insert blank_table (''a'' @ [NUL]) 3 7 2 1 (''10.0.0.1'' @ [NUL]) = Ok t \<and>
    rdma_remove fr6 (entry_request ''RM'' 7 ''a'' 1 ''dir'' 0) (kernel3 t) = Ok k' \<and> fs_ok k' \<and> dobj k' 2 = None \<and>
    regs (reg_ino_mapp_table k') = {#}"
proof -
  let ?g = "\<lparr>r_name = ''a'', r_local = (3, 2), r_remote = (7, 1), r_ip = ''10.0.0.1''\<rparr>"
  obtain t where t: "table_insert blank_table (''a'' @ [NUL]) 3 7 2 1 (''10.0.0.1'' @ [NUL]) = Ok t" "table_ok t" "regs t = {# ?g #}"
    using table_insert_ok [OF blank_table_ok(1) _ table_holds_example(1) _ table_holds_example(2), of 3 7 2 1] by (auto simp: blank_table_ok)
  have send: "sendable 7 ''a'' 1 ''dir''"
    by (simp add: sendable_def separator_def newline_def)
  have tab: "dobj (kernel3 t) 0 \<noteq> None" "table_ok (reg_ino_mapp_table (kernel3 t))" "?g \<in># regs (reg_ino_mapp_table (kernel3 t))"
    "r_remote ?g = (7, 1)" "\<forall>h. h \<in># regs (reg_ino_mapp_table (kernel3 t)) \<and> r_remote h = (7, 1) \<longrightarrow> h = ?g"
    "ino_of (kernel3 t) 2 = Some (fst (r_local ?g))"
    using t by (simp_all add: kernel3_dobj kernel3_ino)
  have links: "\<forall>d. reaches (kernel3 t) 0 d \<and> ino_of (kernel3 t) d = Some (fst (r_local ?g)) \<longrightarrow>
      (\<exists>x px dir dx i z. link_at (kernel3 t) d x px dir dx i z)"
  proof (intro allI impI)
    fix d assume "reaches (kernel3 t) 0 d \<and> ino_of (kernel3 t) d = Some (fst (r_local ?g))"
    then have "d = 2"
      by (simp add: kernel3_ino)
    then show "\<exists>x px dir dx i z. link_at (kernel3 t) d x px dir dx i z"
      using kernel3_link [of t] by blast
  qed
  obtain d x px dir dx i z k' where k': "ino_of (kernel3 t) d = Some (fst (r_local ?g))" "link_at (kernel3 t) d x px dir dx i z"
    "rdma_remove fr6 (entry_request ''RM'' 7 ''a'' 1 ''dir'' 0) (kernel3 t) = Ok k'" "fs_ok k'"
    "dobj k' = (dobj (kernel3 t))(d := None, d_parent x := Some (px\<lparr>d_subdirs := filter (\<lambda>c. c \<noteq> d) (d_subdirs px), d_count := d_count px - 1\<rparr>))"
    "regs (reg_ino_mapp_table k') = regs (reg_ino_mapp_table (kernel3 t)) - {#?g#}"
    using remove_request_unlinks [OF send fr6_ok kernel3_fields(3) tab(1) kernel3_ok tab(2-5) kernel3_reaches tab(6) links, of 0] by blast
  then have "d = 2" "dobj k' d = None"
    using link_atD(6) [OF k'(2)] by (simp_all add: kernel3_ino)
  then show ?thesis
    using k' t by auto
qed

section \<open>A removal undoes a creation\<close>

lemma reaches_child:
  assumes "p = r \<or> reaches k r p \<and> is_dir k p" "dobj k p = Some x" "c \<in> set (d_subdirs x)" "visible_child k c"
  shows "reaches k r c"
proof -
  have "reaches k p c"
    using assms(2-4) by (rule reaches.child)
  moreover have "reaches k q c" if "reaches k q p" "is_dir k p" "reaches k p c" for q
    using that(1,2,3) by (induction rule: reaches.induct) (blast intro: reaches.below)+
  ultimately show ?thesis
    using assms(1) by blast
qed

lemma candidate_dir:
  assumes "place_free k p px dir dx s"
  shows "is_dir k p"
  using assms by (auto simp: place_free_def searchable_def is_dir_def)

text \<open>The new link can be reached, and it is the only dentry with its number.\<close>

lemma created_link:
  assumes "candidate k r ps p" "place_free k p px dir dx s" "fs_ok k'" "rroot_dentry k = Some r"
    and "dobj k' = (dobj k)(p := Some (with_child (length (dents k)) px),
      length (dents k) := Some (link_dentry p s (length (inodes k))))"
    and "iobj k' = (iobj k)(dir := Some (dx\<lparr>i_mtime := clock k, i_ctime := clock k\<rparr>), length (inodes k) := Some z)"
    and "i_ino z = last_ino k + 1" "i_count z = 1" "i_mode z \<noteq> 0"
    and "\<forall>i z. iobj k i = Some z \<longrightarrow> i_ino z \<noteq> last_ino k + 1"
  shows "reaches k' r (length (dents k))"
    and "ino_of k' d = Some (last_ino k + 1) \<longleftrightarrow> d = length (dents k)"
    and "link_at k' (length (dents k)) (link_dentry p s (length (inodes k))) (with_child (length (dents k)) px) dir
      (dx\<lparr>i_mtime := clock k, i_ctime := clock k\<rparr>) (length (inodes k)) z"
proof -
  let ?d = "length (dents k)" and ?i = "length (inodes k)"
  have s: "searchable k p px dir dx"
    using assms(2) by (simp add: place_free_def)
  note x = searchableD [OF s]
  have lt: "p < ?d" "dir < ?i"
    using obj_Some_length [OF x(2)] obj_Some_length [OF x(4)] by simp_all
  have old: "\<exists>y. dobj k' c = Some y \<and> set (d_subdirs x) \<subseteq> set (d_subdirs y) \<and> d_inode y = d_inode x"
    if "dobj k c = Some x" for c x
    using that obj_Some_length [OF that] \<open>dobj k p = Some px\<close> unfolding assms(5) by (auto simp: with_child_def)
  have oldi: "\<exists>y. iobj k' i = Some y \<and> i_mode y = i_mode z" if "iobj k i = Some z" for i z
    using that obj_Some_length [OF that] x(4) unfolding assms(6) by auto
  have vis: "visible_child k' c" if v: "visible_child k c" for c
  proof -
    from v obtain y i z where "dobj k c = Some y" "d_inode y = Some i" "iobj k i = Some z" "i_mode z \<noteq> 0"
      by (rule visible_childE)
    then show ?thesis
      using old [of c y] oldi [of i z] by (auto simp: visible_child_def)
  qed
  have dir: "is_dir k' c" if v: "is_dir k c" for c
  proof -
    from v obtain y i z where "dobj k c = Some y" "d_inode y = Some i" "iobj k i = Some z" "S_ISDIR (i_mode z)"
      by (auto simp: is_dir_def)
    then show ?thesis
      using old [of c y] oldi [of i z] by (auto simp: is_dir_def)
  qed
  have "reaches k' r p" if "reaches k r p"
    using that by (rule reaches_mono) (use old vis dir in blast)+
  then have "p = r \<or> reaches k' r p \<and> is_dir k' p"
    using assms(1) dir [OF candidate_dir [OF assms(2)]] unfolding candidate_def by blast
  moreover have p': "dobj k' p = Some (with_child ?d px)" and d': "dobj k' ?d = Some (link_dentry p s ?i)" and i': "iobj k' ?i = Some z"
    and dir': "iobj k' dir = Some (dx\<lparr>i_mtime := clock k, i_ctime := clock k\<rparr>)"
    using lt by (simp_all add: assms(5,6))
  moreover have "visible_child k' ?d"
    using d' i' assms(9) by (simp add: visible_child_def link_dentry_def)
  ultimately show "reaches k' r ?d"
    by (intro reaches_child [of p r k' "with_child ?d px"]) (simp_all add: with_child_def)
  show "link_at k' ?d (link_dentry p s ?i) (with_child ?d px) dir (dx\<lparr>i_mtime := clock k, i_ctime := clock k\<rparr>) ?i z"
    using assms(3,8) p' d' i' dir' x(3,8) lt
    by (simp add: link_at_def link_dentry_def with_child_def) (simp add: new_dentry_def)
  show "ino_of k' d = Some (last_ino k + 1) \<longleftrightarrow> d = ?d"
  proof
    assume "d = ?d"
    then show "ino_of k' d = Some (last_ino k + 1)"
      using d' i' assms(7) by (simp add: ino_of_def link_dentry_def)
  next
    assume "ino_of k' d = Some (last_ino k + 1)"
    then obtain y i w where y: "dobj k' d = Some y" "d_inode y = Some i" "iobj k' i = Some w" "i_ino w = last_ino k + 1"
      by (auto simp: ino_of_def split: option.splits)
    have "i = ?i"
      using y(3,4) assms(10) x(4) unfolding assms(6) by (auto split: if_splits)
    show "d = ?d"
    proof (rule ccontr)
      assume "d \<noteq> ?d"
      then obtain y0 where "dobj k d = Some y0" "d_inode y0 = Some ?i"
        using y(1,2) \<open>i = ?i\<close> x(2) unfolding assms(5) by (auto simp: with_child_def split: if_splits)
      then obtain w where "iobj k ?i = Some w"
        using inodes_okD [OF tree_okD(4) [OF fs_okD(1) [OF x(1)]]] by blast
      from obj_Some_length [OF this] show False
        by simp
    qed
  qed
qed

text \<open>
  C13.  Create and remove requests with the same numbers cancel out: after both, the dentries,
  the hash and the registrations are as they were, no inode but the parent directory's has
  changed, and the invariant holds.  The parent's link count is as it was for a file; for a
  directory it is one too low, because \<open>rdma_create\<close> does not count the new directory's
  link and \<open>rdma_remove\<close> drops it.
\<close>

theorem remove_undoes_create:
  assumes "sendable ino s pino ps" "frame_ok 6 fr" "frame_ok 6 fr'" "length s < 16" "holds ip a" "length a < 16"
    and "rroot_dentry k = Some r" "dobj k r = Some x" "fs_ok k" "\<forall>n. mem k n" "candidate k r ps q"
    and "\<forall>p. candidate k r ps p \<longrightarrow> (\<exists>px dir dx. place_free k p px dir dx s)"
    and "table_ok (reg_ino_mapp_table k)" "size (regs (reg_ino_mapp_table k)) < 1024"
    and "\<forall>g. g \<in># regs (reg_ino_mapp_table k) \<longrightarrow> r_remote g \<noteq> (ino, pino)"
    and "\<forall>i z. iobj k i = Some z \<longrightarrow> i_ino z \<noteq> last_ino k + 1"
  shows "\<exists>k1 k2 dir dx. rdma_create fr (entry_request ''CR'' ino s pino ps mode) (Some ip) k = Ok k1 \<and>
    rdma_remove fr' (entry_request ''RM'' ino s pino ps mode) k1 = Ok k2 \<and> fs_ok k2 \<and>
    dobj k2 = dobj k \<and> dhash k2 = dhash k \<and> regs (reg_ino_mapp_table k2) = regs (reg_ino_mapp_table k) \<and>
    (\<forall>j. j \<noteq> dir \<longrightarrow> iobj k2 j = iobj k j) \<and> iobj k dir = Some dx \<and>
    map_option i_nlink (iobj k2 dir) = Some (i_nlink dx - (if mode = 0 then 0 else 1))"
proof -
  let ?d = "length (dents k)" and ?i = "length (inodes k)"
  obtain p px dir dx k1 z where k1: "candidate k r ps p" "place_free k p px dir dx s"
    "rdma_create fr (entry_request ''CR'' ino s pino ps mode) (Some ip) k = Ok k1" "fs_ok k1"
    "dobj k1 = (dobj k)(p := Some (with_child ?d px), ?d := Some (link_dentry p s ?i))" "dhash k1 = ?d # dhash k"
    "rroot_dentry k1 = rroot_dentry k"
    "iobj k1 = (iobj k)(dir := Some (dx\<lparr>i_mtime := clock k, i_ctime := clock k\<rparr>), ?i := Some z)"
    "i_ino z = last_ino k + 1" "i_count z = 1" "i_mode z \<noteq> 0"
    "table_ok (reg_ino_mapp_table k1)" "regs (reg_ino_mapp_table k1) =
      add_mset \<lparr>r_name = s, r_local = (last_ino k + 1, i_ino dx), r_remote = (ino, pino), r_ip = a\<rparr>
        (regs (reg_ino_mapp_table k))"
    using rdma_create_ok [OF assms(1,2,4-14), of mode] by blast
  let ?g = "\<lparr>r_name = s, r_local = (last_ino k + 1, i_ino dx), r_remote = (ino, pino), r_ip = a\<rparr>"
  note link = created_link [OF k1(1,2,4) assms(7) k1(5,8-11) assms(16)]
  have s: "searchable k p px dir dx"
    using k1(2) by (simp add: place_free_def)
  note x = searchableD [OF s]
  have rm: "word_ok ''RM''"
    by (simp add: separator_def newline_def)
  obtain rq where rq: "parse_entry fr' (entry_request ''RM'' ino s pino ps mode) = Ok rq" "rq_ino rq = ino" "rq_ino_parent rq = pino"
      "rq_mode rq = 0 \<longleftrightarrow> mode = 0"
    using entry_request_parsed [OF assms(1,3) rm] by auto
  have "?g \<in># regs (reg_ino_mapp_table k1)" "r_remote ?g = (ino, pino)"
    using k1(13) by simp_all
  from tab.remove_in [OF k1(12) this] obtain h lp t where h: "h \<in># regs (reg_ino_mapp_table k1)" "r_remote h = (ino, pino)"
    "table_remove (reg_ino_mapp_table k1) ino pino = (fst (r_local h), lp, t)" "regs t = regs (reg_ino_mapp_table k1) - {#h#}"
    by (metis fst_conv)
  have "h = ?g"
    using h(1,2) assms(15) unfolding k1(13) by auto
  then have t: "table_remove (reg_ino_mapp_table k1) (rq_ino rq) (rq_ino_parent rq) = (last_ino k + 1, lp, t)"
      "regs t = regs (reg_ino_mapp_table k)"
    using h(3,4) k1(13) rq(2,3) by simp_all
  have "dobj k1 r \<noteq> None"
    using assms(8) k1(5) by simp
  from find_by_ino_hit [OF k1(4) this link(1), of "last_ino k + 1" t] link(2)
  have find: "find_dentry_by_ino (k1\<lparr>reg_ino_mapp_table := t\<rparr>) r (last_ino k + 1) = Ok (Some ?d)"
    by auto
  have root: "rroot_dentry k1 = Some r"
    using k1(7) assms(7) by simp
  obtain k2 where k2: "rdma_remove fr' (entry_request ''RM'' ino s pino ps mode) k1 = Ok k2" "reg_ino_mapp_table k2 = t"
    "unlinked_state k1 ?d (link_dentry p s ?i) (with_child ?d px) dir (dx\<lparr>i_mtime := clock k, i_ctime := clock k\<rparr>) ?i
      (if rq_mode rq = 0 then 0 else 1) (k2\<lparr>reg_ino_mapp_table := reg_ino_mapp_table k1\<rparr>)"
    using rdma_remove_eq [OF rq(1) t(1) root find link(3)] by blast
  have fresh: "?d \<notin> set (d_subdirs px)" "?d \<notin> set (dhash k)" "dobj k ?d = None" "iobj k ?i = None"
  proof -
    show "dobj k ?d = None" "iobj k ?i = None"
      by (simp_all add: obj_def)
    then show "?d \<notin> set (d_subdirs px)" "?d \<notin> set (dhash k)"
      using children_okD(2) [OF tree_okD(1) [OF fs_okD(1) [OF x(1)]] x(2), of ?d] tree_okD(6) [OF fs_okD(1) [OF x(1)]]
      by (auto simp: hash_ok_def)
  qed
  have "fs_ok k2"
    by (rule fs_ok_cong [of "k2\<lparr>reg_ino_mapp_table := reg_ino_mapp_table k1\<rparr>"]) (use k2(3) in \<open>simp_all add: unlinked_state_def\<close>)
  moreover have "dobj k2 = dobj k"
  proof -
    have "filter (\<lambda>c. c \<noteq> ?d) (d_subdirs px) = d_subdirs px"
      using fresh(1) by (intro filter_True) auto
    then have "(with_child ?d px)\<lparr>d_subdirs := filter (\<lambda>c. c \<noteq> ?d) (d_subdirs (with_child ?d px)),
        d_count := d_count (with_child ?d px) - 1\<rparr> = px"
      by (simp add: with_child_def)
    then show ?thesis
      using k2(3) fresh(3) x(2) by (auto simp: unlinked_state_def k1(5) link_dentry_def fun_eq_iff)
  qed
  moreover have "dhash k2 = dhash k"
    using k2(3) k1(6) fresh(2) by (auto simp: unlinked_state_def filter_id_conv)
  moreover have "\<forall>j. j \<noteq> dir \<longrightarrow> iobj k2 j = iobj k j"
    using k2(3) k1(8) fresh(4) by (simp add: unlinked_state_def)
  moreover have "map_option i_nlink (iobj k2 dir) = Some (i_nlink dx - (if mode = 0 then 0 else 1))"
    using k2(3) rq(4) by (simp add: unlinked_state_def)
  ultimately show ?thesis
    using k1(3) k2(1) t(2) x(4) unfolding k2(2) [symmetric] by blast
qed

theorem remove_undoes_create_witness:
  "\<exists>k1 k2 dir dx. rdma_create fr6 (entry_request ''CR'' 7 ''b'' 3 ''/'' 1) (Some (''10.0.0.1'' @ [NUL])) kernel1 = Ok k1 \<and>
    rdma_remove fr6 (entry_request ''RM'' 7 ''b'' 3 ''/'' 1) k1 = Ok k2 \<and> fs_ok k2 \<and>
    dobj k2 = dobj kernel1 \<and> dhash k2 = dhash kernel1 \<and> regs (reg_ino_mapp_table k2) = regs (reg_ino_mapp_table kernel1) \<and>
    (\<forall>j. j \<noteq> dir \<longrightarrow> iobj k2 j = iobj kernel1 j) \<and> iobj kernel1 dir = Some dx \<and>
    map_option i_nlink (iobj k2 dir) = Some (i_nlink dx - (if (1 :: u32) = 0 then 0 else 1))"
proof (rule remove_undoes_create [OF sendable_example fr6_ok fr6_ok _ table_holds_example(2) _ kernel1_root(1) kernel1_dobjs(1) kernel1_ok])
  show "\<forall>p. candidate kernel1 0 ''/'' p \<longrightarrow> (\<exists>px dir dx. place_free kernel1 p px dir dx ''b'')"
    using kernel1_place_free by (auto simp: kernel1_candidate)
  show "candidate kernel1 0 ''/'' 0"
    by (simp add: kernel1_candidate)
  show "\<forall>i z. iobj kernel1 i = Some z \<longrightarrow> i_ino z \<noteq> last_ino kernel1 + 1"
    by (auto simp: kernel1_iobj kernel1_root)
qed (simp_all add: kernel1_root blank_table_ok kernel1_memory)

end
