(* ===== verification/FileServing.thy ===== *)
theory FileServing
  imports Serving
begin

text \<open>
  The file requests on a well-formed machine: what \<open>rdma_write\<close> stores and \<open>rdma_read\<close>
  answers, in terms of the content of the file.
\<close>

section \<open>Writing\<close>

definition names :: "kernel \<Rightarrow> addr \<Rightarrow> addr \<Rightarrow> inode \<Rightarrow> bool" where
  "names k d i x \<longleftrightarrow> (\<exists>y. dobj k d = Some y \<and> d_inode y = Some i) \<and> iobj k i = Some x"

lemma names_inode: "names k d i x \<Longrightarrow> d_inode_of k d = Ok i"
  by (auto simp: names_def d_inode_of_def dentry_at_Some)

lemma put_file_message_ok:
  assumes "names k d i x" "file_ok x" "enough_memory k" "holds message bs" "bs \<noteq> []" "length bs \<le> PAGE_CACHE_SIZE"
  shows "\<exists>k' x'. put_file_message d message k = Ok k' \<and> file_written i x x' k k' \<and> file_ok x' \<and>
    content x' = write_bytes 0 bs (content x)"
proof -
  have x: "iobj k i = Some x" and t: "take (length bs) message = bs"
    using assms(1,4) holds_take by (auto simp: names_def)
  have len: "0 mod PAGE_CACHE_SIZE + length bs \<le> PAGE_CACHE_SIZE" "0 + length bs \<le> s_maxbytes"
    using assms(6) by (simp_all add: PAGE_CACHE_SIZE_def s_maxbytes_def)
  obtain k1 k2 m where w: "simple_write_begin i 0 (length bs) k = Ok (0, k1)"
    "page_store i (page_index 0) (0 mod PAGE_CACHE_SIZE) bs k1 = Ok k2"
    "simple_write_end i 0 (length bs) (length bs) k2 = Ok (length bs, (set_inode i (write_page 0 bs x) k)\<lparr>mem_no := m\<rparr>)" "mem_no k \<le> m"
    by (rule write_chunk [OF x assms(2,3) len])
  have "put_file_message d message k = Ok ((set_inode i (write_page 0 bs x) k)\<lparr>mem_no := m\<rparr>)"
    using w t assms(4) by (simp add: put_file_message_def names_inode [OF assms(1)] del: bindR_eq_Ok)
  moreover have "content (write_page 0 bs x) = write_bytes 0 bs (content x)"
    by (rule content_write_bytes [OF assms(2,5)]) (simp_all add: write_page_byte [OF assms(2) len(1)] write_page_size [OF len(2)])
  ultimately show ?thesis
    using write_page_written [OF w(4)] write_page_ok [OF assms(2) len] by blast
qed

definition write_request :: "u32 \<Rightarrow> string \<Rightarrow> u32 \<Rightarrow> string \<Rightarrow> string \<Rightarrow> bytes" where
  "write_request ino s pino ps m =
     (let t = blanks (entry_words ''WR'' ino s pino ps) @ m in received (length t) t)"

lemma write_request_parsed:
  assumes "sendable ino s pino ps" "frame_ok 6 fr" "NUL \<notin> set m" "m \<noteq> []" "length m < 900"
  shows "if length (visible m) < 20
    then \<exists>rq. parse_write fr (write_request ino s pino ps m) = Ok rq \<and> rq_ino rq = ino \<and> holds (rq_message rq) (visible m)
    else parse_write fr (write_request ino s pino ps m) = Fault OutOfBounds"
proof -
  let ?t = "blanks (entry_words ''WR'' ino s pino ps) @ m"
  have "length ?t < 1024"
    using assms print_int_length [of ino] print_int_length [of pino] by (simp add: entry_words_def sendable_def)
  from received_text [OF this, of "[]"]
  have r: "write_request ino s pino ps m = ?t @ NUL # replicate (1023 - length ?t) NUL"
    by (simp add: write_request_def Let_def)
  have ok: "\<forall>w \<in> {''WR'', print_int ino, s, print_int pino, ps}. word_ok w \<and> length w < 20"
    using assms(1) by (simp add: sendable_def print_int_word separator_def newline_def)
  have "NUL \<notin> set (visible m)"
    using assms(3) by (auto simp: visible_def)
  then show ?thesis
    using assms parse_write_words [OF assms(2) ok assms(3,4)]
    by (simp add: r put_row_holds print_int_word sendable_def entry_words_def del: blanks.simps)
qed

lemma find_by_ino_files:
  assumes "fs_ok k" "rroot_dentry k = Some r" "dobj k r \<noteq> None" "reaches k r e" "ino_of k e = Some l"
    and "\<forall>d. reaches k r d \<and> ino_of k d = Some l \<longrightarrow> names k d i x"
  shows "\<exists>d. find_dentry_by_ino k r l = Ok (Some d) \<and> names k d i x"
  using find_by_ino_ok [OF assms(1,3), of l] assms(4-6) by (auto split: option.splits)

lemma rdma_write_ok:
  assumes "sendable ino s pino ps" "frame_ok 6 fr" "NUL \<notin> set m" "visible m \<noteq> []" "length m < 900"
    and "fs_ok k" "rroot_dentry k = Some r" "dobj k r \<noteq> None" "reaches k r e" "ino_of k e = Some ino"
    and "\<forall>d. reaches k r d \<and> ino_of k d = Some ino \<longrightarrow> names k d i x" "file_ok x" "enough_memory k" "length (visible m) < 20"
  shows "\<exists>k' x'. rdma_write fr (write_request ino s pino ps m) k = Ok k' \<and> iobj k' i = Some x' \<and> file_ok x' \<and>
      content x' = write_bytes 0 (visible m) (content x) \<and> fs_ok k' \<and> (\<forall>j. j \<noteq> i \<longrightarrow> iobj k' j = iobj k j) \<and>
      dents k' = dents k \<and> dhash k' = dhash k \<and> rroot_dentry k' = rroot_dentry k \<and>
      reg_ino_mapp_table k' = reg_ino_mapp_table k \<and> i_count x' = i_count x"
proof -
  have m: "m \<noteq> []"
    using assms(4) by (auto simp: visible_def)
  obtain rq where rq: "parse_write fr (write_request ino s pino ps m) = Ok rq" "rq_ino rq = ino" "holds (rq_message rq) (visible m)"
    using write_request_parsed [OF assms(1-3) m assms(5)] assms(14) by auto
  obtain d where d: "find_dentry_by_ino k r ino = Ok (Some d)" "names k d i x"
    using find_by_ino_files [OF assms(6-11)] by blast
  have "length (visible m) \<le> PAGE_CACHE_SIZE"
    using assms(14) by (simp add: PAGE_CACHE_SIZE_def)
  from put_file_message_ok [OF d(2) assms(12,13) rq(3) assms(4) this]
  obtain k' x' where k': "put_file_message d (rq_message rq) k = Ok k'" "file_written i x x' k k'" "file_ok x'"
    "content x' = write_bytes 0 (visible m) (content x)"
    by blast
  note f = file_written_fields [OF k'(2)]
  have x: "iobj k i = Some x"
    using d(2) by (simp add: names_def)
  have "fs_ok k'"
    by (rule fs_ok_cong [OF fs_ok_set_inode_same [OF assms(6) x f(8)]]) (simp_all add: f set_inode_def)
  moreover have "rdma_write fr (write_request ino s pino ps m) k = Ok k'"
    using rq d(1) k'(1) assms(7) by (simp add: rdma_write_def)
  ultimately show ?thesis
    using k'(3,4) file_written_iobj [OF k'(2) x] f(1,2,3,5,6,8) by auto
qed

text \<open>
  C33.  A write request as a client sends it, for a number that the reachable dentries of one file
  have: when the message keeps fewer than 20 bytes without its line breaks, \<open>rdma_write\<close>
  overwrites the start of the file with them and leaves everything else as it is; with 20 or
  more the server overruns a buffer.
\<close>

theorem write_request_stores:
  assumes "sendable ino s pino ps" "frame_ok 6 fr" "NUL \<notin> set m" "visible m \<noteq> []" "length m < 900"
    and "fs_ok k" "rroot_dentry k = Some r" "dobj k r \<noteq> None" "reaches k r e" "ino_of k e = Some ino"
    and "\<forall>d. reaches k r d \<and> ino_of k d = Some ino \<longrightarrow> names k d i x" "file_ok x" "enough_memory k"
  shows "if length (visible m) < 20
    then \<exists>k' x'. rdma_write fr (write_request ino s pino ps m) k = Ok k' \<and> iobj k' i = Some x' \<and> file_ok x' \<and>
      content x' = write_bytes 0 (visible m) (content x) \<and> fs_ok k' \<and> (\<forall>j. j \<noteq> i \<longrightarrow> iobj k' j = iobj k j) \<and> dents k' = dents k
    else rdma_write fr (write_request ino s pino ps m) k = Fault OutOfBounds"
proof (cases "length (visible m) < 20")
  case True
  then show ?thesis
    using rdma_write_ok [OF assms True] by auto
next
  case False
  have "m \<noteq> []"
    using assms(4) by (auto simp: visible_def)
  then have "parse_write fr (write_request ino s pino ps m) = Fault OutOfBounds"
    using write_request_parsed [OF assms(1-3) _ assms(5)] False by simp
  then show ?thesis
    using False by (simp add: rdma_write_def)
qed

lemma names_kernel1: "names kernel1 2 2 (ex_inode 3 0x81A4 1 FileOps)"
  by (simp add: names_def)

lemma kernel1_ino: "ino_of kernel1 d = Some 3 \<longleftrightarrow> d = 2"
  by (cases "dobj kernel1 d") (auto simp: ino_of_def kernel1_dobj)

lemma kernel1_reaches: "reaches kernel1 0 2"
proof (rule reaches.below)
  show "dobj kernel1 0 = Some (ex_dentry ''/'' 4 (Some 0) 0 [4, 3, 1])"
    by simp
  show "1 \<in> set (d_subdirs (ex_dentry ''/'' 4 (Some 0) 0 [4, 3, 1]))"
    by simp
  show "visible_child kernel1 1" "is_dir kernel1 1"
    by (simp_all add: visible_child_def is_dir_def kernel1_dir)
  show "reaches kernel1 1 2"
    by (rule reaches.child [where x = "ex_dentry ''dir'' 2 (Some 1) 0 [2]"]) (simp_all add: visible_child_def)
qed

theorem write_request_stores_witness:
  "\<exists>k' x'. rdma_write fr6 (write_request 3 ''a'' 2 ''dir'' ''hello'') kernel1 = Ok k' \<and> iobj k' 2 = Some x' \<and>
    content x' = ''hello''"
proof -
  have "sendable 3 ''a'' 2 ''dir''"
    by (simp add: sendable_def separator_def newline_def)
  moreover have "\<forall>d. reaches kernel1 0 d \<and> ino_of kernel1 d = Some 3 \<longrightarrow> names kernel1 d 2 (ex_inode 3 0x81A4 1 FileOps)"
    using names_kernel1 by (simp add: kernel1_ino)
  moreover have "visible ''hello'' = ''hello''"
    by (simp add: visible_def newline_def)
  moreover have "content (ex_inode 3 0x81A4 1 FileOps) = []"
    by (simp add: content_def ex_inode_def inode_init_always_def)
  ultimately show ?thesis
    using write_request_stores [of 3 "''a''" 2 "''dir''" fr6 "''hello''" kernel1 0 2 2 "ex_inode 3 0x81A4 1 FileOps"]
      fr6_ok kernel1_ok kernel1_root kernel1_reaches kernel1_file(2,3)
    by (auto simp: kernel1_ino write_bytes_def)
qed

section \<open>Reading\<close>

text \<open>
  What \<open>get_file_message\<close> puts into its buffer: the file, and behind it whatever the
  uninitialised buffer held.
\<close>

lemma page_zero_content:
  assumes "file_ok x" "unat (i_size x) \<le> PAGE_CACHE_SIZE"
  shows "take (unat (i_size x)) (page_bytes (i_pages x 0)) = content x"
  using content_slice [of x 0 "unat (i_size x)"] assms by simp

lemma get_file_message_eq:
  assumes "names k d i x" "file_ok x" "i_pages x 0 = Some p" "p_uptodate p" "0 < unat (i_size x)" "unat (i_size x) \<le> PAGE_CACHE_SIZE"
    and "length gbuf = 1024"
  shows "get_file_message d message gbuf k =
    (if unat (i_size x) \<le> 1024
     then bindR (strlen (content x @ drop (unat (i_size x)) gbuf)) (\<lambda>_. strcpy message (content x @ drop (unat (i_size x)) gbuf))
     else Fault OutOfBounds)"
proof -
  let ?n = "unat (i_size x)"
  have len: "length (p_data p) = PAGE_CACHE_SIZE" and x: "iobj k i = Some x"
    using assms(1-3) by (auto simp: file_ok_def names_def)
  have c: "take ?n (p_data p) = content x"
    using page_zero_content [OF assms(2,6)] assms(3,4) by (simp add: page_bytes_def)
  have "?n - 1 < PAGE_CACHE_SIZE" "0 < PAGE_CACHE_SIZE"
    using assms(5,6) by simp_all
  then have nr: "page_index (?n - 1) = 0" "(?n - 1) mod PAGE_CACHE_SIZE + 1 = ?n"
    using assms(5) by (simp_all add: page_index_def)
  show ?thesis
    unfolding get_file_message_def names_inode [OF assms(1)] inode_at_Some [OF x] Let_def nr bindR.simps
    using assms(3,5-7) len c by (simp add: find_get_page_def memcpy_eq)
qed

definition read_request :: "u32 \<Rightarrow> string \<Rightarrow> u32 \<Rightarrow> string \<Rightarrow> bytes" where
  "read_request ino s pino ps = (let t = blanks [''RD'', print_int ino, s, print_int pino] @ ps in received (length t) t)"

lemma read_request_parsed:
  assumes "sendable ino s pino ps" "frame_ok 5 fr" "ps \<noteq> []"
  shows "\<exists>rq. parse_read fr (read_request ino s pino ps) = Ok rq \<and> rq_ino rq = ino \<and> rq_message rq = message0 fr"
    and "length (read_request ino s pino ps) = 1024"
proof -
  let ?t = "blanks [''RD'', print_int ino, s, print_int pino] @ ps"
  have lt: "length ?t < 1024"
    using assms print_int_length [of ino] print_int_length [of pino] by (simp add: sendable_def)
  from received_text [OF this, of "[]"]
  have r: "read_request ino s pino ps = ?t @ NUL # replicate (1023 - length ?t) NUL"
    by (simp add: read_request_def Let_def)
  with lt show "length (read_request ino s pino ps) = 1024"
    by simp
  have ok: "\<forall>w \<in> {''RD'', print_int ino, s, print_int pino, ps}. word_ok w \<and> length w < 20"
    using assms(1) by (simp add: sendable_def print_int_word separator_def newline_def)
  show "\<exists>rq. parse_read fr (read_request ino s pino ps) = Ok rq \<and> rq_ino rq = ino \<and> rq_message rq = message0 fr"
    using assms parse_read_words [OF assms(2) ok assms(3)] by (simp add: r print_int_word sendable_def del: blanks.simps)
qed

lemma rdma_read_eq:
  assumes "sendable ino s pino ps" "frame_ok 5 fr" "ps \<noteq> []" "rroot_dentry k = Some r"
    and "find_dentry_by_ino k r ino = Ok (Some d)"
  shows "rdma_read fr gbuf (read_request ino s pino ps) k =
    bindR (get_file_message d (message0 fr) gbuf k) (strcpy (replicate 1024 NUL))"
  using read_request_parsed [OF assms(1-3)] assms(4,5)
  by (auto simp: rdma_read_def simp del: bindR_eq_Ok)

lemma rdma_read_ok:
  assumes "sendable ino s pino ps" "frame_ok 5 fr" "ps \<noteq> []"
    and "fs_ok k" "rroot_dentry k = Some r" "dobj k r \<noteq> None" "reaches k r e" "ino_of k e = Some ino"
    and "\<forall>d. reaches k r d \<and> ino_of k d = Some ino \<longrightarrow> names k d i x" "file_ok x"
    and "i_pages x 0 = Some p" "p_uptodate p" "0 < unat (i_size x)" "unat (i_size x) \<le> PAGE_CACHE_SIZE"
    and "length gbuf = 1024" "holds (content x @ drop (length (content x)) gbuf) t"
  shows "rdma_read fr gbuf (read_request ino s pino ps) k =
    (if unat (i_size x) \<le> 1024 then Ok (t @ NUL # replicate (1023 - length t) NUL) else Fault OutOfBounds)"
proof -
  obtain d where d: "find_dentry_by_ino k r ino = Ok (Some d)" "names k d i x"
    using find_by_ino_files [OF assms(4-9)] by blast
  note eq = rdma_read_eq [OF assms(1-3,5) d(1)] get_file_message_eq [OF d(2) assms(10-15)]
  show ?thesis
  proof (cases "unat (i_size x) \<le> 1024")
    case True
    have "length t < 1024"
      using holds_length [OF assms(16)] assms(15) True by simp
    moreover have "length (message0 fr) = 1024"
      using assms(2) by (simp add: frame_ok_def)
    moreover have "holds (t @ NUL # drop (Suc (length t)) (message0 fr)) t"
      using assms(16) by (intro holdsI) (simp add: holds_def)
    ultimately show ?thesis
      using True assms(16) by (simp add: eq strcpy_holds drop_replicate)
  qed (simp add: eq)
qed


text \<open>
  C35.  A read request for an empty file is answered with memory of the server that nobody wrote:
  the string that the stack variable \<open>message\<close> of \<open>rdma_read\<close> happens to hold.
\<close>

theorem read_request_leaks:
  assumes "sendable ino s pino ps" "frame_ok 5 fr" "ps \<noteq> []"
    and "fs_ok k" "rroot_dentry k = Some r" "dobj k r \<noteq> None" "reaches k r e" "ino_of k e = Some ino"
    and "\<forall>d. reaches k r d \<and> ino_of k d = Some ino \<longrightarrow> names k d i x" "i_size x = 0" "holds (message0 fr) t"
  shows "rdma_read fr gbuf (read_request ino s pino ps) k = Ok (t @ NUL # replicate (1023 - length t) NUL)"
proof -
  obtain d where d: "find_dentry_by_ino k r ino = Ok (Some d)" "names k d i x"
    using find_by_ino_files [OF assms(4-9)] by blast
  have "inode_at k i = Ok x"
    using d(2) by (simp add: names_def inode_at_Some)
  then have "get_file_message d (message0 fr) gbuf k = Ok (message0 fr)"
    using assms(10) by (simp add: get_file_message_def names_inode [OF d(2)] Let_def)
  moreover have "length t < 1024"
    using holds_length [OF assms(11)] assms(2) by (simp add: frame_ok_def)
  ultimately show ?thesis
    using assms(11) by (simp add: rdma_read_eq [OF assms(1-3,5) d(1)] strcpy_holds drop_replicate)
qed

definition fr5 :: frame where
  "fr5 = \<lparr>tmp_name0 = replicate 5 (replicate 20 NUL), name0 = replicate 20 NUL, name_parent0 = replicate 20 NUL,
     message0 = ''secret'' @ replicate 1018 NUL\<rparr>"

lemma fr5_ok: "frame_ok 5 fr5" "holds (message0 fr5) ''secret''"
  by (simp_all add: fr5_def frame_ok_def holds_def)

lemma sendable_a: "sendable 3 ''a'' 2 ''dir''"
  by (simp add: sendable_def separator_def newline_def)

lemma kernel1_names_all: "\<forall>d. reaches kernel1 0 d \<and> ino_of kernel1 d = Some 3 \<longrightarrow> names kernel1 d 2 (ex_inode 3 0x81A4 1 FileOps)"
  using names_kernel1 by (simp add: kernel1_ino)

theorem read_request_leaks_witness:
  "rdma_read fr5 [] (read_request 3 ''a'' 2 ''dir'') kernel1 = Ok (''secret'' @ NUL # replicate (1023 - length ''secret'') NUL)"
proof (rule read_request_leaks [OF sendable_a fr5_ok(1) _ kernel1_ok kernel1_root(1) _ kernel1_reaches _ kernel1_names_all _ fr5_ok(2)])
  show "ino_of kernel1 2 = Some 3"
    by (simp add: kernel1_ino)
qed (simp_all add: ex_inode_def inode_init_always_def)

lemma reaches_same_modes:
  assumes "reaches k r d" "dobj k' = dobj k" "\<And>i. map_option i_mode (iobj k' i) = map_option i_mode (iobj k i)"
  shows "reaches k' r d"
proof (rule reaches_mono [OF assms(1)])
  have z: "\<exists>z'. iobj k' i = Some z' \<and> i_mode z' = i_mode z" if "iobj k i = Some z" for i z
    using assms(3) [of i] that by (cases "iobj k' i") auto
  show "visible_child k' c" if "visible_child k c" for c
    using that z unfolding visible_child_def assms(2) by metis
  show "is_dir k' c" if "is_dir k c" for c
    using that z unfolding is_dir_def assms(2) by metis
qed (simp add: assms(2))

text \<open>The same machine after \<open>hello\<close> was written to the file.\<close>

lemma kernel2_fields: "dobj kernel2 = dobj kernel1" "rroot_dentry kernel2 = Some 0"
  "iobj kernel2 = (iobj kernel1)(2 := Some (write_page 0 ''hello'' (ex_inode 3 0x81A4 1 FileOps)))"
  by (simp_all add: kernel2_def obj_fun_upd [OF kernel1_iobjs(3)]) (simp_all add: set_inode_def kernel1_def)

lemma kernel2_ok: "fs_ok kernel2"
  using fs_ok_set_inode_same [OF kernel1_ok kernel1_iobjs(3), of "write_page 0 ''hello'' (ex_inode 3 0x81A4 1 FileOps)"]
  by (simp add: kernel2_def write_page_def)


end
