(* ===== verification/ServerLoop.thy ===== *)
theory ServerLoop
  imports Server FileServing
begin

unbundle bit_operations_syntax

text \<open>
  The server thread as a state machine: its rounds as a step relation, what one round does
  with a connection, when the thread ends, and how the text of a file can give it orders.
\<close>

section \<open>Rounds\<close>

text \<open>
  \<open>rounds frames srv n k m k'\<close>: the server, at the start of round \<open>n\<close> in the state \<open>k\<close>,
  goes through rounds that each ask for another one and is at the start of round \<open>m\<close> in
  the state \<open>k'\<close>.
\<close>

inductive rounds :: "(nat \<Rightarrow> server_frame) \<Rightarrow> addr \<Rightarrow> nat \<Rightarrow> kernel \<Rightarrow> nat \<Rightarrow> kernel \<Rightarrow> bool" for frames srv where
  stay: "rounds frames srv n k n k"
| next_round: "server_round (frames n) srv k = Ok (Again k1) \<Longrightarrow> rounds frames srv (Suc n) k1 m k' \<Longrightarrow>
    rounds frames srv n k m k'"

inductive_cases roundsE: "rounds frames srv n k m k'"

text \<open>The value with which a round ends the loop.\<close>

fun verdict :: "round res \<Rightarrow> (int \<times> kernel) res option" where
  "verdict (Fault e) = Some (Fault e)"
| "verdict (Ok (Return v k)) = Some (Ok (v, k))"
| "verdict (Ok (Again k)) = None"

lemma server_loop_round:
  "server_loop frames n srv k =
    (case server_round (frames n) srv k of Ok (Again k1) \<Rightarrow> server_loop frames (Suc n) srv k1 | r \<Rightarrow> verdict r)"
  by (subst server_loop.simps) (auto split: res.split round.split)

lemma server_loop_rounds:
  assumes "rounds frames srv n k m k'" "verdict (server_round (frames m) srv k') = Some r"
  shows "server_loop frames n srv k = Some r"
  using assms
proof induction
  case (stay n k)
  then show ?case
    by (subst server_loop_round) (auto split: res.splits round.splits)
next
  case (next_round n k k1 m k')
  then show ?case
    by (subst server_loop_round) simp
qed

lemma server_loop_ends:
  assumes "server_loop frames n srv k = Some r"
  shows "\<exists>m k'. rounds frames srv n k m k' \<and> verdict (server_round (frames m) srv k') = Some r"
proof (rule server_loop.raw_induct [where P = "\<lambda>f n s k r. \<exists>m k'. rounds f s n k m k' \<and> verdict (server_round (f m) s k') = Some r", OF _ assms])
  fix loop f n s k r
  assume IH: "\<And>f n s k r. loop f n s k = Some r \<Longrightarrow> \<exists>m k'. rounds f s n k m k' \<and> verdict (server_round (f m) s k') = Some r"
    and r: "(case server_round (f n) s k of Ok (Again k) \<Rightarrow> loop f (Suc n) s k | Ok (Return v k) \<Rightarrow> Some (Ok (v, k))
      | Fault e \<Rightarrow> Some (Fault e)) = Some r"
  consider k1 where "server_round (f n) s k = Ok (Again k1)" | "verdict (server_round (f n) s k) = Some r"
    using r by (auto split: res.splits round.splits)
  then show "\<exists>m k'. rounds f s n k m k' \<and> verdict (server_round (f m) s k') = Some r"
  proof cases
    case (1 k1)
    then show ?thesis
      using r IH [of f "Suc n" s k1 r] by (auto intro: rounds.next_round)
  next
    case 2
    then show ?thesis
      using rounds.stay by blast
  qed
qed


section \<open>A connection\<close>

text \<open>The listening socket is open and the next connection is accepted.\<close>

definition connected :: "addr \<Rightarrow> kernel \<Rightarrow> bool" where
  "connected srv k \<longleftrightarrow> obj (socks k) srv = Some () \<and> 0 \<le> net_ret k (net_no k) \<and> 0 \<le> net_ret k (net_no k + 1) \<and>
     0 \<le> net_ret k (net_no k + 2)"

text \<open>The server's buffer after \<open>krecv\<close>, and its state.\<close>

definition incoming :: "kernel \<Rightarrow> bytes" where
  "incoming k = (let n = net_no k + 3; got = take (min 1024 (nat (net_ret k n))) (net_in k n)
     in got @ replicate (1024 - length got) NUL)"

definition opened :: "addr \<Rightarrow> kernel \<Rightarrow> kernel" where
  "opened srv k = (let s = length (socks k) in
     k\<lparr>socks := socks k @ [Some ()], net_no := net_no k + 4, mem_no := Suc (mem_no k),
       net_log := NRecv s 1024 # NGetname s # NAccept srv s # NCreate # net_log k\<rparr>)"

lemma incoming_length [simp]: "length (incoming k) = 1024"
  by (simp add: incoming_def Let_def)

lemma starts_with_eq:
  assumes "length cmd = n" "n \<le> length buf"
  shows "starts_with buf cmd = Ok (take n buf = cmd)"
  using memcmp_0 [of n buf "cmd @ [NUL]"] assms by (auto simp: starts_with_def)

lemma kaccept_eq:
  assumes "connected srv k"
  shows "kaccept (Some srv) k = Ok (Some (length (socks k)), net_peer k (net_no k + 2),
    k\<lparr>socks := socks k @ [Some ()], net_no := net_no k + 3,
      net_log := NGetname (length (socks k)) # NAccept srv (length (socks k)) # NCreate # net_log k\<rparr>)"
  using assms
  by (auto simp: connected_def kaccept_def sock_at_def sget_def obj_def sock_create_def net_call_ret_def net_enter_def
      numeral_3_eq_3 split: if_splits option.splits)

text \<open>The address of the peer as text, when there was memory for it.\<close>

definition peer_text :: "kernel \<Rightarrow> bytes option" where
  "peer_text k = (if mem k (mem_no k)
     then let t = ip_text (net_peer k (net_no k + 2)) in Some (t @ NUL # replicate (15 - length t) NUL) else None)"

lemma ip_text_no_NUL: "NUL \<notin> set (ip_text x)"
  by (simp add: ip_text_def dotted_def)

lemma peer_text_holds: "mem k (mem_no k) \<Longrightarrow> \<exists>ip. peer_text k = Some ip \<and> holds ip (ip_text (net_peer k (net_no k + 2)))"
  by (auto simp: peer_text_def Let_def intro: holdsI [OF ip_text_no_NUL])

lemma server_round_eq:
  assumes "connected srv k" "length (sf_ip sf) = 16"
  shows "server_round sf srv k =
    (if take 4 (incoming k) = ''quit''
     then bindR (kclose (Some srv) (opened srv k)) (\<lambda>(_, k). Ok (Return 0 k))
     else bindR (serve_request sf (length (socks k)) (incoming k) (peer_text k) (opened srv k)) (\<lambda>k'.
          bindR (kclose (Some (length (socks k))) k') (\<lambda>(_, k'). Ok (Again k'))))"
proof -
  let ?s = "length (socks k)"
  let ?k = "k\<lparr>socks := socks k @ [Some ()], net_no := net_no k + 3, net_log := NGetname ?s # NAccept srv ?s # NCreate # net_log k\<rparr>"
  have ntoa: "inet_ntoa (net_peer k (net_no k + 2)) (sf_ip sf) ?k = Ok (peer_text k, ?k\<lparr>mem_no := Suc (mem_no k)\<rparr>)"
    using inet_ntoa_eq [of ?k "sf_ip sf" "net_peer k (net_no k + 2)"] assms(2)
    by (cases "mem k (mem_no k)") (simp_all add: peer_text_def Let_def inet_ntoa_def kmem_alloc_def)
  have recv: "krecv (Some ?s) (replicate 1024 NUL) 1024 (?k\<lparr>mem_no := Suc (mem_no k)\<rparr>) =
      Ok (net_ret k (net_no k + 3), incoming k, opened srv k)"
    by (simp add: krecv_def sock_at_def sget_def net_enter_def incoming_def opened_def Let_def drop_replicate)
  have "starts_with (incoming k) ''quit'' = Ok (take 4 (incoming k) = ''quit'')"
    by (rule starts_with_eq) simp_all
  then show ?thesis
    unfolding server_round_def kaccept_eq [OF assms(1)] bindR.simps prod.case option.case ntoa recv
    by (simp del: bindR_eq_Ok)
qed

text \<open>What a request is, by its first two bytes.\<close>

lemma serve_entry:
  assumes "2 \<le> length buf"
  shows "take 2 buf = ''CR'' \<Longrightarrow> serve_request sf sk buf tmp k = rdma_create (sf_create sf) buf tmp k"
    and "take 2 buf = ''RM'' \<Longrightarrow> serve_request sf sk buf tmp k = rdma_remove (sf_remove sf) buf k"
    and "take 2 buf = ''WR'' \<Longrightarrow> serve_request sf sk buf tmp k = rdma_write (sf_write sf) buf k"
proof -
  have sw: "starts_with buf ''RD'' = Ok (take 2 buf = ''RD'')" "starts_with buf ''WR'' = Ok (take 2 buf = ''WR'')"
    "starts_with buf ''CR'' = Ok (take 2 buf = ''CR'')" "starts_with buf ''RM'' = Ok (take 2 buf = ''RM'')"
    using assms by (auto intro!: starts_with_eq)
  have rd: "serve_read sf sk buf k = Ok (buf, k)" if "take 2 buf \<noteq> ''RD''"
    unfolding serve_read_def sw(1) using that by (simp only: bindR.simps if_False)
  have wr: "serve_write sf buf k = (if take 2 buf = ''WR'' then rdma_write (sf_write sf) buf k else Ok k)"
    and cr: "serve_create sf buf tmp k = (if take 2 buf = ''CR'' then rdma_create (sf_create sf) buf tmp k else Ok k)"
    and rm: "serve_remove sf buf k = (if take 2 buf = ''RM'' then rdma_remove (sf_remove sf) buf k else Ok k)" for k
    unfolding serve_write_def serve_create_def serve_remove_def sw by (simp_all only: bindR.simps)
  note dispatch = serve_request_def rd wr cr rm
  show "serve_request sf sk buf tmp k = rdma_create (sf_create sf) buf tmp k" if "take 2 buf = ''CR''"
    by (cases "rdma_create (sf_create sf) buf tmp k") (simp_all add: dispatch that)
  show "serve_request sf sk buf tmp k = rdma_remove (sf_remove sf) buf k" if "take 2 buf = ''RM''"
    by (simp add: dispatch that)
  show "serve_request sf sk buf tmp k = rdma_write (sf_write sf) buf k" if "take 2 buf = ''WR''"
    by (cases "rdma_write (sf_write sf) buf k") (simp_all add: dispatch that)
qed

section \<open>The thread ends\<close>

text \<open>The socket was made, bound and put to listen.\<close>

definition listening :: "kernel \<Rightarrow> bool" where
  "listening k \<longleftrightarrow> 0 \<le> net_ret k (net_no k) \<and> 0 \<le> net_ret k (net_no k + 1) \<and> 0 \<le> net_ret k (net_no k + 2)"

definition started :: "kernel \<Rightarrow> kernel" where
  "started k = (let s = length (socks k) in
     k\<lparr>socks := socks k @ [Some ()], net_no := net_no k + 3,
       net_log := NListen s 10 # NBind s 0 (htons test_port) # NCreate # net_log k\<rparr>)"

lemma wjfs_server_started:
  assumes "listening k"
  shows "wjfs_server frames k = server_loop frames 0 (length (socks k)) (started k)"
proof -
  let ?s = "length (socks k)" and ?n = "net_no k"
  let ?k1 = "k\<lparr>net_no := ?n + 1, net_log := NCreate # net_log k, socks := socks k @ [Some ()]\<rparr>"
  let ?k2 = "?k1\<lparr>net_no := ?n + 2, net_log := NBind ?s 0 (htons test_port) # net_log ?k1\<rparr>"
  have "ksocket k = (Some ?s, ?k1)"
    using assms by (simp add: listening_def ksocket_def sock_create_def net_call_ret_def net_enter_def)
  moreover have "kbind (Some ?s) 0 (htons test_port) ?k1 = Ok (net_ret k (?n + 1), ?k2)"
    by (simp add: kbind_def sock_at_def sget_def net_call_ret_def net_enter_def)
  moreover have "klisten (Some ?s) 10 ?k2 = Ok (net_ret k (?n + 2), started k)"
    by (simp add: klisten_def sock_at_def sget_def net_call_ret_def net_enter_def started_def Let_def SOMAXCONN_def)
  ultimately show ?thesis
    using assms unfolding wjfs_server_def by (simp add: listening_def del: add_2_eq_Suc')
qed

definition accept_fails :: "addr \<Rightarrow> kernel \<Rightarrow> bool" where
  "accept_fails srv k \<longleftrightarrow> obj (socks k) srv = Some () \<and>
     (net_ret k (net_no k) < 0 \<or> net_ret k (net_no k + 1) < 0 \<or> net_ret k (net_no k + 2) < 0)"

lemma accept_fails_round:
  assumes "accept_fails srv k"
  shows "\<exists>k'. server_round sf srv k = Ok (Return (- 1) k') \<and> inodes k' = inodes k \<and> dents k' = dents k \<and>
    obj (socks k') srv = Some ()"
proof -
  have srv: "srv < length (socks k)" "obj (socks k) srv = Some ()"
    using assms obj_Some_length by (auto simp: accept_fails_def)
  let ?s = "length (socks k)"
  note [simp] = server_round_def kaccept_def sock_at_def sget_def sock_create_def net_call_ret_def net_enter_def sock_release_def
  consider "net_ret k (net_no k) < 0" | "0 \<le> net_ret k (net_no k)" "net_ret k (net_no k + 1) < 0"
    | "0 \<le> net_ret k (net_no k)" "0 \<le> net_ret k (net_no k + 1)" "net_ret k (net_no k + 2) < 0"
    using assms by (fastforce simp: accept_fails_def)
  then show ?thesis
  proof cases
    case 1
    then show ?thesis
      using srv by simp
  next
    case 2
    then show ?thesis
      using srv by (simp add: obj_append)
  next
    case 3
    then show ?thesis
      using srv by (simp add: obj_append)
  qed
qed

lemma quit_round:
  assumes "connected srv k" "length (sf_ip sf) = 16" "take 4 (incoming k) = ''quit''"
  shows "\<exists>k'. server_round sf srv k = Ok (Return 0 k') \<and> inodes k' = inodes k \<and> dents k' = dents k \<and>
    obj (socks k') srv = None \<and> obj (socks k') (length (socks k)) = Some ()"
proof -
  have srv: "srv < length (socks k)" "obj (socks k) srv = Some ()"
    using assms(1) obj_Some_length by (auto simp: connected_def)
  then have "obj (socks (opened srv k)) srv = Some ()"
    by (simp add: opened_def Let_def obj_append)
  then have "kclose (Some srv) (opened srv k) = Ok (net_ret k (net_no k + 4),
      sock_release srv (snd (net_call_ret (NRelease srv) (opened srv k))))"
    by (simp add: kclose_def sock_at_def sget_def net_call_ret_def net_enter_def opened_def Let_def)
  then show ?thesis
    using srv assms(3) unfolding server_round_eq [OF assms(1,2)]
    by (simp add: sock_release_def net_call_ret_def net_enter_def opened_def Let_def obj_append)
qed

text \<open>
  C32.  The thread ends: when the socket could be made, bound and put to listen, and after some
  rounds accepting a connection fails or a connection delivers \<open>quit\<close>, \<open>wjfs_server\<close>
  returns, - 1 or 0, with the file system as the last round left it.  It leaks a socket in
  both cases: the listening one when accepting fails, the peer's connection after \<open>quit\<close>.
\<close>

theorem server_returns:
  assumes "listening k" "rounds frames (length (socks k)) 0 (started k) m k1" "length (sf_ip (frames m)) = 16"
    and "accept_fails (length (socks k)) k1 \<or> connected (length (socks k)) k1 \<and> take 4 (incoming k1) = ''quit''"
  shows "\<exists>v k'. wjfs_server frames k = Some (Ok (v, k')) \<and> inodes k' = inodes k1 \<and> dents k' = dents k1 \<and>
    (v = - 1 \<and> obj (socks k') (length (socks k)) = Some () \<or>
     v = 0 \<and> obj (socks k') (length (socks k)) = None \<and> obj (socks k') (length (socks k1)) = Some ())"
proof -
  let ?s = "length (socks k)"
  obtain v k' where k': "server_round (frames m) ?s k1 = Ok (Return v k')" "inodes k' = inodes k1" "dents k' = dents k1"
    "v = - 1 \<and> obj (socks k') ?s = Some () \<or> v = 0 \<and> obj (socks k') ?s = None \<and> obj (socks k') (length (socks k1)) = Some ()"
    using assms(4) accept_fails_round [of ?s k1 "frames m"] quit_round [of ?s k1 "frames m"] assms(3) by metis
  then have "wjfs_server frames k = Some (Ok (v, k'))"
    using server_loop_rounds [OF assms(2)] by (simp add: wjfs_server_started [OF assms(1)])
  then show ?thesis
    using k'(2-4) by blast
qed

definition sf0 :: server_frame where
  "sf0 = \<lparr>sf_read = fr6\<lparr>tmp_name0 := replicate 5 (replicate 20 NUL)\<rparr>, sf_gbuf = replicate 1024 NUL, sf_write = fr6, sf_create = fr6,
     sf_remove = fr6, sf_ip = replicate 16 NUL\<rparr>"

theorem server_returns_witness:
  "\<exists>v k'. wjfs_server (\<lambda>_. sf0) (kernel1\<lparr>net_ret := \<lambda>_. 4, net_in := \<lambda>_. ''quit''\<rparr>) = Some (Ok (v, k')) \<and> inodes k' = inodes kernel1"
proof -
  let ?k = "kernel1\<lparr>net_ret := \<lambda>_. 4, net_in := \<lambda>_. ''quit''\<rparr>"
  have l: "listening ?k" "length (sf_ip sf0) = 16"
    by (simp_all add: listening_def sf0_def)
  have "connected (length (socks ?k)) (started ?k)"
    by (simp add: connected_def started_def Let_def)
  moreover have "take 4 (incoming (started ?k)) = ''quit''"
    by (simp add: incoming_def started_def Let_def)
  ultimately show ?thesis
    using server_returns [OF l(1) rounds.stay, of "\<lambda>_. sf0"] l(2) by (auto simp: started_def Let_def)
qed

section \<open>A file can give orders\<close>

lemma serve_read_again:
  assumes "take 2 buf = ''RD''" "2 \<le> length buf" "rdma_read (sf_read sf) (sf_gbuf sf) buf k = Ok buf'" "holds buf' t"
    and "obj (socks k) sk = Some ()" "take 2 buf' \<noteq> ''RD''" "2 \<le> length buf'"
  shows "\<exists>k1. serve_request sf sk buf tmp k = serve_request sf sk buf' tmp k1 \<and> dents k1 = dents k \<and> inodes k1 = inodes k \<and>
    dhash k1 = dhash k \<and> rroot_dentry k1 = rroot_dentry k \<and> reg_ino_mapp_table k1 = reg_ino_mapp_table k \<and>
    net_log k1 = NSend sk t # net_log k"
proof -
  let ?k = "snd (net_call_ret (NSend sk t) k)"
  have len: "length t < length buf'" "take (length t) buf' = t"
    using assms(4) holds_length holds_take by auto
  have send: "ksend (Some sk) buf' (length t) k = Ok (net_call_ret (NSend sk t) k)"
    using assms(5) len by (simp add: ksend_def sock_at_def sget_def)
  have "starts_with buf ''RD'' = Ok True" "starts_with buf' ''RD'' = Ok False"
    using starts_with_eq [of "''RD''" 2 buf] starts_with_eq [of "''RD''" 2 buf'] assms(1,2,6,7) by simp_all
  then have "serve_read sf sk buf k = Ok (buf', ?k)" "serve_read sf sk buf' ?k = Ok (buf', ?k)"
    using assms(3,4) send by (simp_all add: serve_read_def strlen_holds split: prod.splits)
  then have "serve_request sf sk buf tmp k = serve_request sf sk buf' tmp ?k"
    by (simp add: serve_request_def)
  then show ?thesis
    by (intro exI [of _ ?k]) (simp add: net_call_ret_def net_enter_def)
qed

text \<open>
  C39.  After \<open>rdma_read\<close> the server tests the buffer again, which now holds the text of the
  file.  Whoever asks for a file whose text is a create request makes the server send that
  text and then create the entry it names, as if the client had asked for that.
\<close>

theorem read_obeys_file:
  assumes "sendable ino s pino ps" "frame_ok 5 (sf_read sf)" "ps \<noteq> []"
    and "fs_ok k" "rroot_dentry k = Some r" "dobj k r \<noteq> None" "reaches k r e" "ino_of k e = Some ino"
    and "\<forall>d. reaches k r d \<and> ino_of k d = Some ino \<longrightarrow> names k d i x" "file_ok x"
    and "i_pages x 0 = Some p" "p_uptodate p" "length (sf_gbuf sf) = 1024" "obj (socks k) sk = Some ()"
    and "0 < unat (i_size x)" "unat (i_size x) \<le> 1024" "sendable ino' s' pino' ps'"
    and "holds (content x @ drop (length (content x)) (sf_gbuf sf)) (blanks (entry_words ''CR'' ino' s' pino' ps') @ mode_word mode)"
  shows "\<exists>k1. serve_request sf sk (read_request ino s pino ps) tmp k =
      rdma_create (sf_create sf) (entry_request ''CR'' ino' s' pino' ps' mode) tmp k1 \<and> dents k1 = dents k \<and> inodes k1 = inodes k \<and>
    dhash k1 = dhash k \<and> rroot_dentry k1 = rroot_dentry k \<and> reg_ino_mapp_table k1 = reg_ino_mapp_table k"
proof -
  let ?t = "blanks (entry_words ''CR'' ino' s' pino' ps') @ mode_word mode"
  let ?buf = "entry_request ''CR'' ino' s' pino' ps' mode"
  have buf: "?buf = ?t @ NUL # replicate (1023 - length ?t) NUL"
    using entry_request_text [OF assms(17), of "''CR''"] by (simp add: Let_def)
  have size: "unat (i_size x) \<le> PAGE_CACHE_SIZE"
    using assms(16) by (simp add: PAGE_CACHE_SIZE_def)
  have "rdma_read (sf_read sf) (sf_gbuf sf) (read_request ino s pino ps) k = Ok ?buf"
    using rdma_read_ok [OF assms(1-12,15) size assms(13,18)] assms(16) by (simp add: buf)
  moreover have "holds ?buf ?t"
    unfolding buf using assms(18) by (intro holdsI) (simp add: holds_def)
  moreover have "take 2 (read_request ino s pino ps) = ''RD''" "2 \<le> length (read_request ino s pino ps)"
    by (simp_all add: read_request_def Let_def received_def)
  moreover have "take 2 ?buf = ''CR''" "2 \<le> length ?buf"
    by (simp_all add: buf entry_words_def)
  ultimately show ?thesis
    using serve_read_again [of "read_request ino s pino ps" sf k ?buf ?t sk tmp] assms(14) serve_entry(1) [of ?buf sf sk tmp] by auto
qed

text \<open>The example machine with a connected socket and the order to make \<open>/b\<close> in the file \<open>dir/a\<close>.\<close>

definition order :: string where
  "order = blanks (entry_words ''CR'' 7 ''b'' 3 ''/'') @ mode_word 0"

definition kernel5 :: kernel where
  "kernel5 = (set_inode 2 (write_page 0 order (ex_inode 3 0x81A4 1 FileOps)) kernel1)\<lparr>socks := [Some ()]\<rparr>"

lemma order_length: "0 < length order" "length order < 600"
  using entry_words_length [of "''b''" "''/''" "''CR''" 7 3] by (simp_all add: order_def mode_word_ok)

lemma order_file:
  fixes x defines "x \<equiv> write_page 0 order (ex_inode 3 0x81A4 1 FileOps)"
  shows "file_ok x" "content x = order" "unat (i_size x) = length order" "i_pages x 0 = Some (stored 0 order None)"
proof -
  have len: "0 mod PAGE_CACHE_SIZE + length order \<le> PAGE_CACHE_SIZE" "0 + length order \<le> s_maxbytes"
    using order_length by (simp_all add: PAGE_CACHE_SIZE_def s_maxbytes_def)
  note f = kernel1_file(2)
  have z: "i_size (ex_inode 3 0x81A4 1 FileOps) = 0" "i_pages (ex_inode 3 0x81A4 1 FileOps) 0 = None"
    by (simp_all add: ex_inode_def inode_init_always_def)
  show "file_ok x"
    unfolding x_def by (rule write_page_ok [OF f len])
  show s: "unat (i_size x) = length order"
    using write_page_size [OF len(2)] z by (simp add: x_def)
  have "content x = write_bytes 0 order (content (ex_inode 3 0x81A4 1 FileOps))"
    using order_length unfolding x_def
    by (intro content_write_bytes [OF f]) (auto simp: write_page_byte [OF f len(1)] write_page_size [OF len(2)])
  then show "content x = order"
    using z by (simp add: content_def write_bytes_def)
  show "i_pages x 0 = Some (stored 0 order None)"
    using z by (simp add: x_def write_page_def)
qed

theorem read_obeys_file_witness:
  "\<exists>k1. serve_request (sf0\<lparr>sf_read := fr5\<rparr>) 0 (read_request 3 ''a'' 2 ''dir'') None kernel5 =
    rdma_create fr6 (entry_request ''CR'' 7 ''b'' 3 ''/'' 0) None k1 \<and> dents k1 = dents kernel1"
proof -
  let ?x = "write_page 0 order (ex_inode 3 0x81A4 1 FileOps)" and ?sf = "sf0\<lparr>sf_read := fr5\<rparr>"
  have D: "dobj kernel5 = dobj kernel1" "rroot_dentry kernel5 = Some 0" "obj (socks kernel5) 0 = Some ()" "dents kernel5 = dents kernel1"
    and I: "iobj kernel5 = (iobj kernel1)(2 := Some ?x)"
    by (simp_all add: kernel5_def obj_fun_upd [OF kernel1_iobjs(3)] obj_def) (simp add: set_inode_def kernel1_def)
  have ok: "fs_ok kernel5"
    by (rule fs_ok_cong [OF fs_ok_set_inode_same [OF kernel1_ok kernel1_iobjs(3), of ?x]])
      (simp_all add: kernel5_def write_page_def)
  have ino: "ino_of kernel5 d = Some 3 \<longleftrightarrow> d = 2" for d
    by (cases "dobj kernel1 d") (auto simp: ino_of_def D I kernel1_dobj write_page_def)
  have e: "reaches kernel5 0 2"
    using kernel1_reaches by (rule reaches_same_modes) (simp_all add: D I write_page_def)
  have n: "\<forall>d. reaches kernel5 0 d \<and> ino_of kernel5 d = Some 3 \<longrightarrow> names kernel5 d 2 ?x"
    by (simp add: ino names_def D I)
  have nn: "NUL \<notin> set order"
    using print_int_word [of 7] print_int_word [of 3]
    by (intro notI) (auto simp: order_def entry_words_def mode_word_def separator_def newline_def dest: word_ok_no_NUL)
  have h: "holds (content ?x @ drop (length (content ?x)) (sf_gbuf ?sf)) (blanks (entry_words ''CR'' 7 ''b'' 3 ''/'') @ mode_word 0)"
  proof -
    have "drop (length order) (replicate 1024 NUL) = NUL # replicate (1023 - length order) NUL"
      using order_length by (simp add: drop_replicate Suc_diff_le [symmetric] replicate_Suc [symmetric] del: replicate_Suc)
    then show ?thesis
      using holdsI [OF nn] by (simp add: order_file(2) sf0_def order_def [symmetric])
  qed
  show ?thesis
    using read_obeys_file [OF sendable_a _ _ ok D(2) _ e _ n order_file(1,4) _ _ D(3) _ _ sendable_example h, of None]
      fr5_ok(1) order_length order_file(3) ino
    by (auto simp: D stored_def sf0_def)
qed

end
