(* ===== verification/MountOptions.thy ===== *)
theory MountOptions
  imports Vsscanf Namei
begin

unbundle bit_operations_syntax

text \<open>
  The option parser of \<open>lib/parser.c\<close> and \<open>wjfs_parse_options\<close>, which reads the option
  \<open>mode=...\<close> of a mount.  A pointer into a string is the rest of the string; an argument
  that \<open>match_token\<close> finds is the bytes between its two pointers.
\<close>

section \<open>Patterns\<close>

definition MAX_OPT_ARGS :: nat where
  "MAX_OPT_ARGS = 3"

lemma strchr_less: "strchr s c = Ok (Some m) \<Longrightarrow> m < length s"
  by (induction s arbitrary: m) (auto split: if_splits)

lemma strto_loop_length: "strto_loop base s r = Ok (v, rest) \<Longrightarrow> length rest \<le> length s"
  by (induction s arbitrary: r) (force split: if_splits)+

lemma simple_strtoul_length: "simple_strtoul s base = Ok (v, rest) \<Longrightarrow> length rest \<le> length s"
  by (auto simp: simple_strtoul_def simple_strto_def dest!: strto_loop_length split: if_splits)

text \<open>The length of the argument for the conversion character \<open>t\<close>, if it matches.\<close>

definition match_arg :: "char \<Rightarrow> u32 option \<Rightarrow> bytes \<Rightarrow> nat option res" where
  "match_arg t len s =
     (let num = (\<lambda>m. bindR m (\<lambda>(_, rest). Ok (if length rest = length s then None else Some (length s - length rest))))
      in if t = CHR ''s'' then
           bindR (strlen s) (\<lambda>n.
             Ok (if n = 0 then None
                 else case len of
                        None \<Rightarrow> Some n
                      | Some v \<Rightarrow> Some (if unat v > n then n else unat v)))
         else if t = CHR ''d'' then num (simple_strtol s 0)
         else if t = CHR ''u'' then num (simple_strtoul s 0)
         else if t = CHR ''o'' then num (simple_strtoul s 8)
         else if t = CHR ''x'' then num (simple_strtoul s 16)
         else Ok None)"

function match_loop :: "bytes \<Rightarrow> bytes \<Rightarrow> bytes list \<Rightarrow> (bool \<times> bytes list) res" where
  "match_loop s p args =
     bindR (strchr p (CHR ''%'')) (\<lambda>meta.
       case meta of
         None \<Rightarrow> bindR (strcmp p s) (\<lambda>r. Ok (r = 0, args))
       | Some m \<Rightarrow>
           bindR (strncmp p s m) (\<lambda>r.
             if r \<noteq> 0 then Ok (False, args)
             else
               let s = drop m s; p' = drop (Suc m) p
               in bindR (aread p' 0) (\<lambda>c.
                    if c = CHR ''%'' then
                      bindR (aread s 0) (\<lambda>d.
                        if d \<noteq> CHR ''%'' then Ok (False, args)
                        else match_loop (drop 1 s) (drop 1 p') args)
                    else
                      bindR (if isdigit c then bindR (simple_strtoul p' 10) (\<lambda>(v, p). Ok (Some v, p))
                             else Ok (None, p')) (\<lambda>(len, p'').
                        if length args \<ge> MAX_OPT_ARGS then Ok (False, args)
                        else
                          bindR (aread p'' 0) (\<lambda>t.
                          bindR (match_arg t len s) (\<lambda>arg.
                            case arg of
                              None \<Rightarrow> Ok (False, args)
                            | Some n \<Rightarrow> match_loop (drop n s) (drop 1 p'') (args @ [take n s])))))))"
  by pat_completeness auto
termination
  by (relation "measure (\<lambda>(s, p, args). length p)")
    (auto dest!: strchr_less simple_strtoul_length simp: aread_eq_Ok split: if_splits)

declare match_loop.simps [simp del]

text \<open>\<open>match_one\<close>: a null pattern matches everything.\<close>

definition match_one :: "bytes \<Rightarrow> bytes option \<Rightarrow> (bool \<times> bytes list) res" where
  "match_one s p = (case p of None \<Rightarrow> Ok (True, []) | Some p \<Rightarrow> match_loop s p [])"

text \<open>The table of \<open>match_token\<close> ends with a null pattern; a table without one is overrun.\<close>

fun match_token :: "bytes \<Rightarrow> ('t \<times> bytes option) list \<Rightarrow> ('t \<times> bytes list) res" where
  "match_token s [] = Fault OutOfBounds"
| "match_token s ((token, pat) # table) =
     bindR (match_one s pat) (\<lambda>(m, args). if m then Ok (token, args) else match_token s table)"

definition match_number :: "bytes \<Rightarrow> nat \<Rightarrow> kernel \<Rightarrow> ((int + u32) \<times> kernel) res" where
  "match_number sub base k =
     (case kmem_alloc k of
        (False, k) \<Rightarrow> Ok (Inl (- ENOMEM), k)
      | (True, k) \<Rightarrow>
          let buf = sub @ [NUL]
          in bindR (simple_strtol buf base) (\<lambda>(v, endp).
               Ok (if length endp = length buf then Inl (- EINVAL) else Inr v, k)))"

definition match_octal :: "bytes \<Rightarrow> kernel \<Rightarrow> ((int + u32) \<times> kernel) res" where
  "match_octal sub = match_number sub 8"

section \<open>The options of wjfs\<close>

datatype option_token = Opt_mode | Opt_err

definition tokens :: "(option_token \<times> bytes option) list" where
  "tokens = [(Opt_mode, Some (''mode=%o'' @ [NUL])), (Opt_err, None)]"

definition RAMFS_DEFAULT_MODE :: u16 where
  "RAMFS_DEFAULT_MODE = 0x1ED"

definition S_IALLUGO :: u32 where
  "S_IALLUGO = 0xFFF"

text \<open>The loop over the options, with \<open>opts->mode\<close>; \<open>data\<close> is \<open>NULL\<close> when it is used up.\<close>

lemma strpbrk_less: "strpbrk s ct = Ok (Some m) \<Longrightarrow> m < length s"
  by (induction s arbitrary: m) (auto split: if_splits)

lemma strsep_less: "strsep (Some s) ct = Ok (p, Some rest) \<Longrightarrow> length rest < length s"
  by (auto simp: strsep_def dest!: strpbrk_less split: option.splits)

function parse_options_loop :: "bytes option \<Rightarrow> u16 \<Rightarrow> kernel \<Rightarrow> (int \<times> u16 \<times> kernel) res" where
  "parse_options_loop data mode k =
     bindR (strsep data {CHR '',''}) (\<lambda>(p, data').
       case p of
         None \<Rightarrow> Ok (0, mode, k)
       | Some p \<Rightarrow>
           bindR (aread p 0) (\<lambda>c.
             if c = NUL then parse_options_loop data' mode k
             else
               bindR (match_token p tokens) (\<lambda>(token, args).
                 case token of
                   Opt_mode \<Rightarrow>
                     bindR (aread args 0) (\<lambda>sub.
                     bindR (match_octal sub k) (\<lambda>(r, k).
                       case r of
                         Inl e \<Rightarrow> Ok (- EINVAL, mode, k)
                       | Inr v \<Rightarrow> parse_options_loop data' (ucast (v AND S_IALLUGO)) k))
                 | Opt_err \<Rightarrow> parse_options_loop data' mode k)))"
  by pat_completeness auto
termination
proof (relation "measure (\<lambda>(data, mode, k). case data of None \<Rightarrow> 0 | Some s \<Rightarrow> Suc (length s))", goal_cases)
  case (2 data mode k x p data' p' c)
  then show ?case
    by (cases data) (auto simp: strsep_def dest!: strpbrk_less split: option.splits)
next
  case (3 data mode k x p data' p')
  then show ?case
    by (cases data) (auto simp: strsep_def dest!: strpbrk_less split: option.splits)
next
  case (4 data mode k x p data' p')
  then show ?case
    by (cases data) (auto simp: strsep_def dest!: strpbrk_less split: option.splits)
qed simp

declare parse_options_loop.simps [simp del]

definition wjfs_parse_options :: "bytes option \<Rightarrow> kernel \<Rightarrow> (int \<times> u16 \<times> kernel) res" where
  "wjfs_parse_options data k = parse_options_loop data RAMFS_DEFAULT_MODE k"

end
