(* ===== verification/Super.thy ===== *)
theory Super
  imports InodeOps MountOptions
begin

unbundle bit_operations_syntax

text \<open>
  Mounting and unmounting: \<open>wjfs_fill_super\<close>; \<open>wjfs_d_genocide\<close>, which drops the
  references that keep the dentries of wjfs in the cache; and what \<open>kill_anon_super\<close> then
  does with them.
\<close>

section \<open>Mounting\<close>

text \<open>
  \<open>wjfs_fill_super\<close>.  On a failure it calls \<open>iput(root_inode)\<close>; before \<open>wjfs_get_inode\<close> ran
  the variable has the value \<open>garbage\<close> that was on the stack.  The fields of the superblock
  other than its root are constants.
\<close>

definition fill_super_fail :: "addr option \<Rightarrow> int \<Rightarrow> kernel \<Rightarrow> (int \<times> kernel) res" where
  "fill_super_fail root_inode err k = bindR (iput root_inode k) (\<lambda>k. Ok (err, k))"

definition wjfs_fill_super :: "addr option \<Rightarrow> nat \<Rightarrow> bytes option \<Rightarrow> kernel \<Rightarrow> (int \<times> kernel) res" where
  "wjfs_fill_super garbage sb data k =
     (let k = (if data = None then k else snd (kmem_alloc k))
      in case kmem_alloc k of
           (False, k) \<Rightarrow> fill_super_fail garbage (- ENOMEM) k
         | (True, k) \<Rightarrow>
             bindR (wjfs_parse_options data k) (\<lambda>(err, mode, k).
               if err \<noteq> 0 then fill_super_fail garbage err k
               else
                 bindR (wjfs_get_inode sb (ucast (S_IFDIR OR mode)) 0 k) (\<lambda>(root_inode, k).
                   case root_inode of
                     None \<Rightarrow> fill_super_fail None (- ENOMEM) k
                   | Some i \<Rightarrow>
                       bindR (d_alloc_root (Some i) k) (\<lambda>(root_dentry, k).
                         case root_dentry of
                           None \<Rightarrow> fill_super_fail (Some i) (- ENOMEM) k
                         | Some d \<Rightarrow>
                             bindR (dentry_at k d) (\<lambda>x.
                               Ok (0, k\<lparr>rroot_sb := Some sb, rroot_dentry := Some d, rroot_inode := d_inode x,
                                        reg_ino_mapp_table := table_reset (reg_ino_mapp_table k)\<rparr>))))))"

section \<open>Dropping the references\<close>

text \<open>
  The walk of \<open>wjfs_d_genocide\<close>.  \<open>next\<close> is the rest of the list of children of
  \<open>this_parent\<close>.  The walk descends into a child at once and comes back to the child's
  successor in the list; the fuel bounds the number of steps.
\<close>

definition atomic_dec :: "addr \<Rightarrow> kernel \<Rightarrow> kernel res" where
  "atomic_dec d = upd_dentry d (\<lambda>x. x\<lparr>d_count := d_count x - 1\<rparr>)"

definition after :: "addr \<Rightarrow> addr list \<Rightarrow> addr list" where
  "after d ds = drop 1 (dropWhile (\<lambda>e. e \<noteq> d) ds)"

fun genocide_loop :: "nat \<Rightarrow> addr \<Rightarrow> addr \<Rightarrow> addr list \<Rightarrow> kernel \<Rightarrow> kernel res" where
  "genocide_loop 0 root this_parent next k = Fault OutOfFuel"
| "genocide_loop (Suc n) root this_parent [] k =
     (if this_parent \<noteq> root then
        bindR (dentry_at k this_parent) (\<lambda>x.
        bindR (dentry_at k (d_parent x)) (\<lambda>px.
        bindR (atomic_dec this_parent k) (\<lambda>k.
          genocide_loop n root (d_parent x) (after this_parent (d_subdirs px)) k)))
      else Ok k)"
| "genocide_loop (Suc n) root this_parent (c # next) k =
     bindR (dentry_at k c) (\<lambda>x.
       if d_unhashed k c \<or> d_inode x = None then genocide_loop n root this_parent next k
       else if d_subdirs x \<noteq> [] then genocide_loop n root c (d_subdirs x) k
       else bindR (atomic_dec c k) (genocide_loop n root this_parent next))"

definition wjfs_d_genocide :: "addr \<Rightarrow> kernel \<Rightarrow> kernel res" where
  "wjfs_d_genocide root k =
     bindR (dentry_at k root) (\<lambda>x. genocide_loop (Suc (2 * length (dents k))) root root (d_subdirs x) k)"

section \<open>Taking the dentry tree apart\<close>

text \<open>
  \<open>shrink_dcache_for_umount_subtree\<close>.  It goes down to a leaf (\<open>shrink_down\<close>), taking all
  children of the dentries it passes off the hash, and then frees dentries from the leaf up
  until it comes to one that still has children (\<open>shrink_up\<close>).  A dentry that is still in
  use is a \<open>BUG()\<close>.  \<open>shrink_free\<close> is one turn of the inner loop; its result is the parent.
  Every dentry is freed once, with at most as many steps down in between as there are
  dentries, which bounds the fuel.
\<close>

definition shrink_free :: "addr \<Rightarrow> kernel \<Rightarrow> (addr option \<times> kernel) res" where
  "shrink_free d k =
     bindR (dentry_at k d) (\<lambda>x.
     bindR (bug_on (d_count x \<noteq> 0)) (\<lambda>_.
     bindR (if d_parent x = d then Ok (None, k)
            else bindR (atomic_dec (d_parent x) k) (\<lambda>k. Ok (Some (d_parent x), k))) (\<lambda>(parent, k).
     bindR (list_del_child d k) (\<lambda>k.
     bindR (dentry_iput d k) (\<lambda>k.
       Ok (parent, k\<lparr>dents := (dents k)[d := None]\<rparr>))))))"

fun shrink_down :: "nat \<Rightarrow> addr \<Rightarrow> kernel \<Rightarrow> kernel res"
and shrink_up :: "nat \<Rightarrow> addr \<Rightarrow> kernel \<Rightarrow> kernel res" where
  "shrink_down 0 d k = Fault OutOfFuel"
| "shrink_down (Suc n) d k =
     bindR (dentry_at k d) (\<lambda>x.
       case d_subdirs x of
         [] \<Rightarrow> shrink_up n d k
       | c # cs \<Rightarrow> shrink_down n c (fold d_drop (c # cs) k))"
| "shrink_up 0 d k = Fault OutOfFuel"
| "shrink_up (Suc n) d k =
     bindR (shrink_free d k) (\<lambda>(parent, k).
       case parent of
         None \<Rightarrow> Ok k
       | Some p \<Rightarrow>
           bindR (dentry_at k p) (\<lambda>x.
             case d_subdirs x of
               [] \<Rightarrow> shrink_up n p k
             | c # cs \<Rightarrow> shrink_down n c k))"

definition shrink_fuel :: "nat \<Rightarrow> nat" where
  "shrink_fuel n = Suc n * (n + 2)"

definition shrink_dcache_for_umount_subtree :: "addr \<Rightarrow> kernel \<Rightarrow> kernel res" where
  "shrink_dcache_for_umount_subtree d k =
     bindR (dentry_at k d) (\<lambda>x.
     bindR (bug_on (d_parent x \<noteq> d)) (\<lambda>_.
       shrink_down (shrink_fuel (length (dents k))) d (d_drop d k)))"

text \<open>wjfs has no anonymous dentries (\<open>s_anon\<close>), which only \<open>d_alloc_anon\<close> makes.\<close>

definition shrink_dcache_for_umount :: "addr \<Rightarrow> kernel \<Rightarrow> kernel res" where
  "shrink_dcache_for_umount s_root k =
     bindR (atomic_dec s_root k) (shrink_dcache_for_umount_subtree s_root)"

section \<open>Unmounting\<close>

text \<open>
  The inodes that are left after the dentries are gone: \<open>invalidate_inodes\<close> throws away the
  ones nobody uses.  wjfs has no \<open>put_super\<close> and nothing to write back; the list of
  superblocks and the anonymous device numbers are not modelled.
\<close>

definition invalidate_inodes :: "nat \<Rightarrow> kernel \<Rightarrow> kernel" where
  "invalidate_inodes sb k =
     k\<lparr>inodes := map (\<lambda>i. case i of None \<Rightarrow> None
                         | Some z \<Rightarrow> if i_sb z = sb \<and> i_count z = 0 then None else Some z) (inodes k)\<rparr>"

definition generic_shutdown_super :: "nat \<Rightarrow> addr option \<Rightarrow> kernel \<Rightarrow> kernel res" where
  "generic_shutdown_super sb s_root k =
     (case s_root of
        None \<Rightarrow> Ok k
      | Some d \<Rightarrow>
          bindR (shrink_dcache_for_umount d k) (\<lambda>k. Ok (invalidate_inodes sb (invalidate_inodes sb k))))"

definition kill_anon_super :: "nat \<Rightarrow> addr option \<Rightarrow> kernel \<Rightarrow> kernel res" where
  "kill_anon_super sb s_root k = generic_shutdown_super sb s_root k"

definition wjfs_kill_litter_super :: "nat \<Rightarrow> addr option \<Rightarrow> kernel \<Rightarrow> kernel res" where
  "wjfs_kill_litter_super sb s_root k =
     bindR (case s_root of None \<Rightarrow> Ok k | Some d \<Rightarrow> wjfs_d_genocide d k) (kill_anon_super sb s_root)"

text \<open>\<open>wjfs_kill_sb\<close> first frees \<open>s_fs_info\<close>, which nothing uses afterwards.\<close>

definition wjfs_kill_sb :: "nat \<Rightarrow> addr option \<Rightarrow> kernel \<Rightarrow> kernel res" where
  "wjfs_kill_sb sb s_root k = wjfs_kill_litter_super sb s_root k"

end
