(* ===== verification/Umount.thy ===== *)
theory Umount
  imports Super
begin

text \<open>
  Unmounting a well-formed tree: \<open>wjfs_d_genocide\<close> drops exactly the references that keep
  the dentries in the cache, and after it the dentry tree comes apart without a \<open>BUG()\<close>.
\<close>

section \<open>Freeing one dentry\<close>

text \<open>What an inode with \<open>n\<close> references fewer looks like.\<close>

definition unused :: "nat \<Rightarrow> inode option \<Rightarrow> inode option" where
  "unused n y = (case y of None \<Rightarrow> None | Some z \<Rightarrow>
     if n = 0 then Some z else if unat (i_count z) = n then None else Some (z\<lparr>i_count := i_count z - of_nat n\<rparr>))"

text \<open>A child goes away, and its reference to the parent with it.\<close>

definition taken :: "addr \<Rightarrow> dentry \<Rightarrow> (addr \<Rightarrow> dentry option) \<Rightarrow> addr \<Rightarrow> dentry option" where
  "taken d x D =
     (\<lambda>e. if e = d then None
          else if e = d_parent x
          then map_option (\<lambda>p. p\<lparr>d_count := d_count p - 1, d_subdirs := filter (\<lambda>c. c \<noteq> d) (d_subdirs p)\<rparr>) (D e)
          else D e)"

definition only_tree :: "kernel \<Rightarrow> kernel \<Rightarrow> bool" where
  "only_tree k k' \<longleftrightarrow> k' = k\<lparr>inodes := inodes k', dents := dents k', dhash := dhash k'\<rparr>"

lemma only_tree_refl [simp]: "only_tree k k"
  by (simp add: only_tree_def)

lemma only_tree_trans: "only_tree k k1 \<Longrightarrow> only_tree k1 k2 \<Longrightarrow> only_tree k k2"
  by (cases k; cases k1; cases k2) (auto simp: only_tree_def)

lemma only_tree_set [simp]: "only_tree k (set_dentry d x k)" "only_tree k (set_inode i z k)"
  by (simp_all add: only_tree_def set_dentry_def set_inode_def)

lemma only_tree_update [simp]: "only_tree k (k\<lparr>dents := D\<rparr>)" "only_tree k (k\<lparr>dhash := H\<rparr>)" "only_tree k (k\<lparr>inodes := I\<rparr>)"
  by (simp_all add: only_tree_def)

lemma only_tree_iput: "iput p k = Ok k' \<Longrightarrow> only_tree k k'"
  by (auto simp: iput_def generic_delete_inode_def split: option.splits if_splits)

lemma only_tree_dentry_iput: "dentry_iput d k = Ok k' \<Longrightarrow> only_tree k k'"
  by (auto simp: dentry_iput_def split: option.splits dest!: only_tree_iput intro: only_tree_trans [OF only_tree_set(1)])

lemma only_tree_list_del: "list_del_child d k = Ok k' \<Longrightarrow> only_tree k k'"
  by (auto simp: list_del_child_def upd_eq_Ok split: if_splits)

lemma taken_eq_Some:
  "taken d x D e = Some y' \<longleftrightarrow> e \<noteq> d \<and> (\<exists>y. D e = Some y \<and> y' = (if e = d_parent x
     then y\<lparr>d_count := d_count y - 1, d_subdirs := filter (\<lambda>c. c \<noteq> d) (d_subdirs y)\<rparr> else y))"
  by (auto simp: taken_def)

text \<open>With the parent's count set first, \<open>shrink_free\<close> does what \<open>d_kill\<close> does.\<close>

lemma shrink_free_ok:
  assumes ok: "tree_ok k" "irefs_ok k" and x: "dobj k d = Some x" "d_count x = 0" "d_subdirs x = []" "d \<notin> set (dhash k)"
  shows "\<exists>k'. shrink_free d k = Ok (if d_parent x = d then None else Some (d_parent x), k') \<and> tree_ok k' \<and> irefs_ok k' \<and>
    dobj k' = taken d x (dobj k) \<and> dhash k' = dhash k \<and> iobj k' = released (d_inode x) (iobj k) \<and> only_tree k k'"
proof -
  obtain px where px: "dobj k (d_parent x) = Some px"
    using parents_okD [OF tree_okD(2) [OF ok(1)] x(1)] by blast
  let ?px = "px\<lparr>d_count := d_count px - 1\<rparr>"
  define k0 where "k0 = (if d_parent x = d then k else set_dentry (d_parent x) ?px k)"
  have t0: "tree_ok k0"
    using ok(1) inodes_okD [OF tree_okD(4) [OF ok(1)] px] tree_ok_set_dentry [OF ok(1) px, of ?px]
    by (auto simp: k0_def same_place_def)
  have D0: "dobj k0 = (if d_parent x = d then dobj k else (dobj k)(d_parent x := Some ?px))"
    using px by (simp add: k0_def obj_fun_upd)
  have same0: "inodes k0 = inodes k" "dhash k0 = dhash k"
    by (simp_all add: k0_def)
  have x0: "dobj k0 d = Some x"
    using x(1) D0 by auto
  obtain k' where kill: "d_kill d k0 = Ok (if d_parent x = d then None else Some (d_parent x), k')"
    and D: "dobj k' = unlinked d x (dobj k0)" and H: "dhash k' = dhash k0" and I: "iobj k' = released (d_inode x) (iobj k0)"
    using d_kill_eq [OF t0 x0] by blast
  obtain k1 k2 where k: "list_del_child d k0 = Ok k1" "dentry_iput d k1 = Ok k2" "k' = k2\<lparr>dents := (dents k2)[d := None]\<rparr>"
    using kill by (auto simp: d_kill_def)
  have "only_tree k k0" "only_tree k2 k'"
    by (simp_all add: k0_def k(3))
  then have only: "only_tree k k'"
    using only_tree_list_del [OF k(1)] only_tree_dentry_iput [OF k(2)] only_tree_trans by blast
  have "(if d_parent x = d then Ok (None, k) else bindR (atomic_dec (d_parent x) k) (\<lambda>k. Ok (Some (d_parent x), k))) =
      Ok (if d_parent x = d then None else Some (d_parent x), k0)"
    using px by (simp add: k0_def atomic_dec_def upd_dentry_def dentry_at_Some)
  then have free: "shrink_free d k = Ok (if d_parent x = d then None else Some (d_parent x), k')"
    using k by (simp add: shrink_free_def dentry_at_Some [OF x(1)] x(2) del: bindR_eq_Ok)
  have D': "dobj k' = taken d x (dobj k)"
    unfolding D D0 using px by (auto simp: fun_eq_iff unlinked_def taken_def)
  have users: "users k' i = users k i - {d}" for i
    unfolding users_def D' taken_def using px by (auto simp: bind_eq_Some_conv)
  have irefs: "irefs_ok k'"
    using I unfolding same0 by (rule irefs_ok_released [OF ok(2) x(1) _ users])
  have "tree_ok k'"
  proof (rule tree_ok_unlinked [OF t0 x0 x(3) _ D H])
    show "d \<notin> set (dhash k0)"
      using x(4) by (simp add: same0)
    fix e y i assume e: "e \<noteq> d" "dobj k0 e = Some y" "d_inode y = Some i"
    obtain y0 where y0: "dobj k e = Some y0" "d_inode y0 = Some i"
      using e px D0 by (auto split: if_splits)
    obtain z where z: "iobj k i = Some z"
      using inodes_okD [OF tree_okD(4) [OF ok(1)] y0] by blast
    then have "d_inode x = Some i \<Longrightarrow> i_count z \<noteq> 1"
      using irefs_other_user [OF ok(2) x(1) _ y0 e(1)] by blast
    then show "iobj k' i \<noteq> None"
      using z unfolding I same0 by (simp add: released_def split: option.split)
  qed
  then show ?thesis
    using free irefs D' H I only unfolding same0 by blast
qed

section \<open>Freeing a whole tree\<close>

text \<open>
  The dentries \<open>T\<close> below the root \<open>r\<close> are closed under children and parents, and only
  children hold references to them.
\<close>

definition shrinking :: "kernel \<Rightarrow> addr \<Rightarrow> addr set \<Rightarrow> bool" where
  "shrinking k r T \<longleftrightarrow> tree_ok k \<and> irefs_ok k \<and> r \<in> T \<and>
     (\<forall>d\<in>T. \<exists>x. dobj k d = Some x \<and> set (d_subdirs x) \<subseteq> T \<and> d_parent x \<in> T \<and> (d_parent x = d \<longleftrightarrow> d = r) \<and>
       unat (d_count x) = length (d_subdirs x))"

definition cleared :: "kernel \<Rightarrow> addr set \<Rightarrow> kernel \<Rightarrow> bool" where
  "cleared k T k' \<longleftrightarrow> tree_ok k' \<and> irefs_ok k' \<and> dobj k' = (\<lambda>e. if e \<in> T then None else dobj k e) \<and>
     dhash k' = filter (\<lambda>e. e \<notin> T) (dhash k) \<and> (\<forall>i. iobj k' i = unused (card (users k i \<inter> T)) (iobj k i)) \<and>
     only_tree k k'"

lemma shrinkingD:
  assumes "shrinking k r T"
  shows "tree_ok k" "irefs_ok k" "r \<in> T"
    and "d \<in> T \<Longrightarrow> \<exists>x. dobj k d = Some x \<and> set (d_subdirs x) \<subseteq> T \<and> d_parent x \<in> T \<and> (d_parent x = d \<longleftrightarrow> d = r) \<and>
      unat (d_count x) = length (d_subdirs x)"
  using assms by (auto simp: shrinking_def)

lemma filter_delete:
  assumes "distinct xs" "d \<in> set xs"
  shows "length (filter (\<lambda>c. c \<noteq> d) xs) = length xs - 1"
proof -
  have "filter (\<lambda>c. c \<noteq> d) xs = remove1 d xs"
    using assms(1) by (simp add: distinct_remove1_removeAll removeAll_filter_not_eq eq_commute [of d])
  then show ?thesis
    using assms(2) by (simp add: length_remove1)
qed

lemma unused_released:
  assumes "irefs_ok k" "dobj k d = Some x" "d \<in> T" "d_inode x = Some i" "iobj k i = Some z"
    and "users k' i = users k i - {d}"
  shows "unused (card (users k' i \<inter> (T - {d}))) (released (Some i) (iobj k) i) = unused (card (users k i \<inter> T)) (iobj k i)"
proof -
  let ?n = "card (users k i \<inter> T)"
  have d: "d \<in> users k i \<inter> T"
    using assms(2-4) by (simp add: usersI)
  have "users k' i \<inter> (T - {d}) = users k i \<inter> T - {d}"
    using assms(6) by blast
  then have n': "card (users k' i \<inter> (T - {d})) = ?n - 1"
    using d by (simp add: users_finite card_Diff_singleton)
  have "?n \<le> card (users k i)"
    by (rule card_mono [OF users_finite]) blast
  also have "\<dots> \<le> unat (i_count z)"
    using assms(1,5) by (simp add: irefs_ok_def)
  finally have n: "0 < ?n" "?n \<le> unat (i_count z)"
    using d by (auto simp: card_gt_0_iff users_finite)
  show ?thesis
  proof (cases "i_count z = 1")
    case True
    then show ?thesis
      using n assms(5) by (simp add: unused_def released_def)
  next
    case False
    then have "unat (i_count z) \<noteq> 1"
      using word_unat_eq_iff [of "i_count z" 1] by auto
    moreover have "unat (i_count z - 1) = unat (i_count z) - 1"
      using n by (intro unat_minus_one) auto
    moreover have "i_count z - 1 - of_nat (?n - 1) = i_count z - of_nat ?n"
      using n(1) by (simp add: of_nat_diff)
    ultimately show ?thesis
      unfolding n' using n assms(5) False by (cases "?n = 1") (auto simp: unused_def released_def)
  qed
qed

lemma released_other: "p \<noteq> Some i \<Longrightarrow> released p I i = I i"
  by (simp add: released_def split: option.split)

lemma shrink_step:
  assumes sh: "shrinking k r T" and x: "d \<in> T" "dobj k d = Some x" "d_subdirs x = []" "d \<notin> set (dhash k)"
  shows "\<exists>k'. shrink_free d k = Ok (if d = r then None else Some (d_parent x), k') \<and>
    (d \<noteq> r \<longrightarrow> shrinking k' r (T - {d})) \<and> tree_ok k' \<and> irefs_ok k' \<and> dobj k' = taken d x (dobj k) \<and> dhash k' = dhash k \<and>
    only_tree k k' \<and> (\<forall>i. unused (card (users k' i \<inter> (T - {d}))) (iobj k' i) = unused (card (users k i \<inter> T)) (iobj k i))"
proof -
  have dx: "d_parent x \<in> T" "d_parent x = d \<longleftrightarrow> d = r" "d_count x = 0"
    using shrinkingD(4) [OF sh x(1)] x by (auto simp: unat_eq_0)
  obtain k' where free: "shrink_free d k = Ok (if d = r then None else Some (d_parent x), k')"
    and ok: "tree_ok k'" "irefs_ok k'" and D: "dobj k' = taken d x (dobj k)" and H: "dhash k' = dhash k"
    and I: "iobj k' = released (d_inode x) (iobj k)" and only: "only_tree k k'"
    using shrink_free_ok [OF shrinkingD(1,2) [OF sh] x(2) dx(3) x(3,4)] unfolding dx(2) by blast
  have users: "users k' i = users k i - {d}" for i
    unfolding users_def D taken_def by (auto simp: bind_eq_Some_conv)
  have inodes: "unused (card (users k' i \<inter> (T - {d}))) (iobj k' i) = unused (card (users k i \<inter> T)) (iobj k i)" for i
  proof (cases "d_inode x = Some i")
    case True
    then obtain z where "iobj k i = Some z"
      using inodes_okD [OF tree_okD(4) [OF shrinkingD(1) [OF sh]] x(2)] by blast
    then show ?thesis
      using unused_released [OF shrinkingD(2) [OF sh] x(2,1) True _ users] True by (simp add: I)
  next
    case False
    then have "d \<notin> users k i"
      using x(2) by (simp add: users_def)
    then have "users k' i \<inter> (T - {d}) = users k i \<inter> T"
      unfolding users by blast
    then show ?thesis
      using False by (simp add: I released_other)
  qed
  have "shrinking k' r (T - {d})" if "d \<noteq> r"
    unfolding shrinking_def
  proof (intro conjI ok ballI)
    show "r \<in> T - {d}"
      using shrinkingD(3) [OF sh] that by simp
    fix e assume e: "e \<in> T - {d}"
    then obtain y where y: "dobj k e = Some y" "set (d_subdirs y) \<subseteq> T" "d_parent y \<in> T" "d_parent y = e \<longleftrightarrow> e = r"
        "unat (d_count y) = length (d_subdirs y)"
      using shrinkingD(4) [OF sh, of e] by auto
    have pd: "d_parent y \<noteq> d"
      using parent_child [OF shrinkingD(1) [OF sh] y(1) _ x(2)] x(3) e by auto
    show "\<exists>x. dobj k' e = Some x \<and> set (d_subdirs x) \<subseteq> T - {d} \<and> d_parent x \<in> T - {d} \<and> (d_parent x = e) = (e = r) \<and>
        unat (d_count x) = length (d_subdirs x)"
    proof (cases "e = d_parent x")
      case True
      have "d \<in> set (d_subdirs y)"
        using parent_child [OF shrinkingD(1) [OF sh] x(2) _ y(1)] True e by auto
      moreover from this have "length (d_subdirs y) \<noteq> 0"
        by auto
      then have "unat (d_count y - 1) = unat (d_count y) - 1"
        using y(5) by (intro unat_minus_one) auto
      ultimately show ?thesis
        using e y pd True filter_delete [OF children_okD(1) [OF tree_okD(1) [OF shrinkingD(1) [OF sh]] y(1)]]
        by (auto simp: D taken_def)
    next
      case False
      then have "d \<notin> set (d_subdirs y)"
        using child_parent [OF shrinkingD(1) [OF sh] y(1) _ x(2)] by auto
      then show ?thesis
        using e y pd False by (auto simp: D taken_def)
    qed
  qed
  then show ?thesis
    using free ok D H only inodes by blast
qed

text \<open>On the way to \<open>d\<close> all children of the dentries above it went off the hash.\<close>

definition passed :: "kernel \<Rightarrow> addr \<Rightarrow> addr \<Rightarrow> bool" where
  "passed k r d \<longleftrightarrow> r \<notin> set (dhash k) \<and>
     (\<forall>p x c. d \<in> desc k p \<and> dobj k p = Some x \<and> c \<in> set (d_subdirs x) \<longrightarrow> c \<notin> set (dhash k))"

lemma child_desc: "dobj k p = Some x \<Longrightarrow> c \<in> set (d_subdirs x) \<Longrightarrow> c \<in> desc k p"
  by (auto simp: desc_def child_rel_def)

lemma desc_step: "d \<in> desc k p \<Longrightarrow> c \<in> desc k d \<Longrightarrow> c \<in> desc k p"
  by (auto simp: desc_def)

lemma desc_last:
  assumes "tree_ok k" "c \<in> desc k p" "dobj k c = Some y"
  shows "p = d_parent y \<or> d_parent y \<in> desc k p"
proof -
  obtain e where "(p, e) \<in> (child_rel k)\<^sup>*" "(e, c) \<in> child_rel k"
    using assms(2) by (auto simp: desc_def dest: tranclD2)
  moreover from this(2) have "e = d_parent y"
    using child_parent [OF assms(1) _ _ assms(3)] by (auto simp: child_rel_def)
  ultimately show ?thesis
    by (auto simp: desc_def rtrancl_eq_or_trancl)
qed

lemma desc_taken: "dobj k' = taken d x (dobj k) \<Longrightarrow> desc k' p \<subseteq> desc k p"
proof -
  assume "dobj k' = taken d x (dobj k)"
  then have "child_rel k' \<subseteq> child_rel k"
    by (auto simp: child_rel_def taken_eq_Some split: if_splits)
  then show ?thesis
    unfolding desc_def using trancl_mono by blast
qed

lemma fold_d_drop: "fold d_drop cs k = k\<lparr>dhash := filter (\<lambda>e. e \<notin> set cs) (dhash k)\<rparr>"
  by (induction cs arbitrary: k) (auto simp: d_drop_def intro: filter_cong)

lemma shrinking_dhash: "shrinking k r T \<Longrightarrow> shrinking (k\<lparr>dhash := filter P (dhash k)\<rparr>) r T"
  by (auto simp: shrinking_def tree_ok_def children_ok_def parents_ok_def ranked_def inodes_ok_def names_ok_def
      hash_ok_def irefs_ok_def users_def)

lemma desc_dhash [simp]: "desc (k\<lparr>dhash := H\<rparr>) = desc k"
  by (simp add: desc_def child_rel_def fun_eq_iff)

lemma passed_hash:
  assumes "shrinking k r T" "d \<in> T" "passed k r d"
  shows "d \<notin> set (dhash k)"
proof (cases "d = r")
  case False
  obtain x where x: "dobj k d = Some x" "d_parent x \<noteq> d"
    using shrinkingD(4) [OF assms(1,2)] False by auto
  obtain px where "dobj k (d_parent x) = Some px" "d \<in> set (d_subdirs px)"
    using parents_okD [OF tree_okD(2) [OF shrinkingD(1) [OF assms(1)]] x(1)] x(2) by auto
  then show ?thesis
    using assms(3) child_desc unfolding passed_def by blast
qed (use assms(3) in \<open>simp add: passed_def\<close>)

lemma passed_down:
  assumes "tree_ok k" "passed k r d" "dobj k d = Some x" "c \<in> set (d_subdirs x)"
  shows "passed (k\<lparr>dhash := filter (\<lambda>e. e \<notin> set (d_subdirs x)) (dhash k)\<rparr>) r c"
proof -
  have "e \<notin> set (dhash k) \<or> e \<in> set (d_subdirs x)" if "c \<in> desc k p" "dobj k p = Some y" "e \<in> set (d_subdirs y)" for p y e
  proof -
    obtain z where "dobj k c = Some z" "d_parent z = d"
      using children_okD(2) [OF tree_okD(1) [OF assms(1)] assms(3,4)] by blast
    then have "p = d \<or> d \<in> desc k p"
      using desc_last [OF assms(1) that(1)] by blast
    then show ?thesis
      using that assms(2,3) by (auto simp: passed_def)
  qed
  then show ?thesis
    using assms(2) by (auto simp: passed_def)
qed

text \<open>Only the root has nothing above it, so it goes last.\<close>

lemma root_last:
  assumes "shrinking k r T" "dobj k r = Some x" "d_subdirs x = []"
  shows "T = {r}"
proof (rule ccontr)
  obtain h where h: "ranked h k"
    using tree_okD(3) [OF shrinkingD(1) [OF assms(1)]] by blast
  assume "T \<noteq> {r}"
  then obtain e where "e \<in> T - {r}"
    using shrinkingD(3) [OF assms(1)] by blast
  then obtain e where e: "e \<in> T - {r}" and least: "\<forall>c. c \<in> T - {r} \<longrightarrow> h e \<le> h c"
    using ex_has_least_nat [of "\<lambda>c. c \<in> T - {r}" e h] by blast
  obtain y where y: "dobj k e = Some y" "d_parent y \<in> T" "d_parent y \<noteq> e"
    using shrinkingD(4) [OF assms(1), of e] e by auto
  have "h (d_parent y) < h e"
    using h y by (auto simp: ranked_def)
  then have "d_parent y = r"
    using least y(2) by (meson DiffI leD singletonD)
  then show False
    using parent_child [OF shrinkingD(1) [OF assms(1)] y(1) _ assms(2)] y(3) assms(3) by auto
qed

lemma cleared_dhash:
  assumes "cleared (k\<lparr>dhash := filter (\<lambda>e. e \<notin> C) (dhash k)\<rparr>) T k'" "C \<subseteq> T"
  shows "cleared k T k'"
proof -
  have "filter (\<lambda>e. e \<notin> T) (filter (\<lambda>e. e \<notin> C) (dhash k)) = filter (\<lambda>e. e \<notin> T) (dhash k)"
    using assms(2) by (auto intro: filter_cong)
  then show ?thesis
    using assms(1) only_tree_trans [OF only_tree_update(2)] by (auto simp: cleared_def users_def)
qed

lemma cleared_nothing: "tree_ok k \<Longrightarrow> irefs_ok k \<Longrightarrow> cleared k {} k"
  by (simp add: cleared_def unused_def split: option.split)

lemma cleared_step:
  assumes "cleared k1 (T - {d}) k'" "dobj k1 = taken d x (dobj k)" "dhash k1 = dhash k" "d \<notin> set (dhash k)"
    and "only_tree k k1" "d \<in> T" "d_parent x \<in> T"
    and "\<forall>i. unused (card (users k1 i \<inter> (T - {d}))) (iobj k1 i) = unused (card (users k i \<inter> T)) (iobj k i)"
  shows "cleared k T k'"
proof -
  have "filter (\<lambda>e. e \<notin> T - {d}) (dhash k) = filter (\<lambda>e. e \<notin> T) (dhash k)"
    using assms(4) by (auto intro: filter_cong)
  moreover have "(\<lambda>e. if e \<in> T - {d} then None else dobj k1 e) = (\<lambda>e. if e \<in> T then None else dobj k e)"
    using assms(6,7) by (auto simp: assms(2) taken_def fun_eq_iff)
  ultimately show ?thesis
    using assms(1,3,8) only_tree_trans [OF assms(5)] by (simp add: cleared_def)
qed

lemma passed_taken:
  assumes sh: "shrinking k r T" "d \<in> T" "passed k r d" and x: "dobj k d = Some x" "d \<noteq> r"
    and D: "dobj k1 = taken d x (dobj k)" and H: "dhash k1 = dhash k" and t: "tree_ok k1" and y: "dobj k1 (d_parent x) = Some y"
  shows "passed k1 r (d_parent x)" and "c \<in> set (d_subdirs y) \<Longrightarrow> passed k1 r c"
proof -
  have "d_parent x \<noteq> d"
    using shrinkingD(4) [OF sh(1,2)] x by auto
  then obtain px where px: "dobj k (d_parent x) = Some px" "d \<in> set (d_subdirs px)"
    using parents_okD [OF tree_okD(2) [OF shrinkingD(1) [OF sh(1)]] x(1)] by auto
  have above: "d \<in> desc k q" if "q = d_parent x \<or> d_parent x \<in> desc k1 q" for q
    using that child_desc [OF px] desc_taken [OF D, of q] desc_step by blast
  have old: "c \<notin> set (dhash k1)" if "d \<in> desc k q" "dobj k1 q = Some z" "c \<in> set (d_subdirs z)" for q z c
    using that sh(3) by (auto simp: passed_def H D taken_eq_Some split: if_splits)
  show "passed k1 r (d_parent x)"
    using sh(3) above old unfolding passed_def H by blast
  assume c: "c \<in> set (d_subdirs y)"
  then obtain z where "dobj k1 c = Some z" "d_parent z = d_parent x"
    using children_okD(2) [OF tree_okD(1) [OF t] y] by blast
  then have "q = d_parent x \<or> d_parent x \<in> desc k1 q" if "c \<in> desc k1 q" for q
    using desc_last [OF t that] by auto
  then show "passed k1 r c"
    using sh(3) above old unfolding passed_def H by blast
qed

lemma desc_closed:
  assumes "shrinking k r T" "d \<in> T"
  shows "desc k d \<subseteq> T"
proof
  fix c assume "c \<in> desc k d"
  then have "(d, c) \<in> (child_rel k)\<^sup>+"
    by (simp add: desc_def)
  then show "c \<in> T"
  proof induction
    case (base y)
    then show ?case
      using shrinkingD(4) [OF assms] by (auto simp: child_rel_def)
  next
    case (step y z)
    then show ?case
      using shrinkingD(4) [OF assms(1), of y] by (auto simp: child_rel_def)
  qed
qed

lemma desc_card_less:
  assumes "shrinking k r T" "d \<in> T" "finite T"
  shows "card (desc k d) < card T"
proof (rule psubset_card_mono [OF assms(3)], rule psubsetI)
  note t = shrinkingD(1) [OF assms(1)]
  show "desc k d \<subseteq> T"
    by (rule desc_closed [OF assms(1,2)])
  have "d \<notin> desc k d"
    using desc_rank [OF tree_okD(1) [OF t]] tree_okD(3) [OF t] by blast
  then show "desc k d \<noteq> T"
    using assms(2) by blast
qed

text \<open>
  The number of steps: with \<open>t\<close> dentries left, \<open>t * (t + 1)\<close> are enough from a leaf on, and
  one more for every dentry below on the way down.
\<close>

lemma shrink_ok:
  "shrinking k r T \<Longrightarrow> finite T \<Longrightarrow> d \<in> T \<Longrightarrow> passed k r d \<Longrightarrow> card T * (card T + 1) + card (desc k d) + 1 \<le> n \<Longrightarrow>
    \<exists>k'. shrink_down n d k = Ok k' \<and> cleared k T k'"
  "shrinking k r T \<Longrightarrow> finite T \<Longrightarrow> d \<in> T \<Longrightarrow> passed k r d \<Longrightarrow> map_option d_subdirs (dobj k d) = Some [] \<Longrightarrow>
    card T * (card T + 1) \<le> n \<Longrightarrow> \<exists>k'. shrink_up n d k = Ok k' \<and> cleared k T k'"
proof (induction n arbitrary: k T d)
  case 0
  {
    case 1
    then show ?case by simp
  next
    case 2
    then show ?case by auto
  }
next
  case (Suc n)
  {
    case 1
    obtain x where x: "dobj k d = Some x" "set (d_subdirs x) \<subseteq> T"
      using shrinkingD(4) [OF 1(1,3)] by blast
    show ?case
    proof (cases "d_subdirs x")
      case Nil
      have "\<exists>k'. shrink_up n d k = Ok k' \<and> cleared k T k'"
        using 1 x(1) Nil by (intro Suc.IH(2)) auto
      then show ?thesis
        using Nil by (simp add: dentry_at_Some [OF x(1)])
    next
      case (Cons c cs)
      let ?k = "k\<lparr>dhash := filter (\<lambda>e. e \<notin> set (c # cs)) (dhash k)\<rparr>"
      have t: "tree_ok k"
        using 1(1) by (rule shrinkingD(1))
      have "card (desc k c) < card (desc k d)"
        using desc_child [OF tree_okD(1,3) [OF t] x(1), of c] Cons by simp
      then have "\<exists>k'. shrink_down n c ?k = Ok k' \<and> cleared ?k T k'"
        using 1 x(2) Cons shrinking_dhash [OF 1(1)] passed_down [OF t 1(4) x(1), of c]
        by (intro Suc.IH(1)) auto
      then show ?thesis
        using Cons x(2) cleared_dhash [of "set (c # cs)" k T]
        by (auto simp: dentry_at_Some [OF x(1)] fold_d_drop simp del: fold.simps)
    qed
  next
    case 2
    obtain x where x: "dobj k d = Some x" "d_subdirs x = []"
      using 2(5) by auto
    have hash: "d \<notin> set (dhash k)"
      by (rule passed_hash [OF 2(1,3,4)])
    have dx: "d_parent x \<in> T" "d_parent x = d \<longleftrightarrow> d = r"
      using shrinkingD(4) [OF 2(1,3)] x(1) by auto
    obtain k1 where free: "shrink_free d k = Ok (if d = r then None else Some (d_parent x), k1)"
      and sh: "d \<noteq> r \<longrightarrow> shrinking k1 r (T - {d})" and ok: "tree_ok k1" "irefs_ok k1"
      and D: "dobj k1 = taken d x (dobj k)" and H: "dhash k1 = dhash k" and only: "only_tree k k1"
      and I: "\<forall>i. unused (card (users k1 i \<inter> (T - {d}))) (iobj k1 i) = unused (card (users k i \<inter> T)) (iobj k i)"
      using shrink_step [OF 2(1,3) x hash] by blast
    note step = cleared_step [OF _ D H hash only 2(3) dx(1) I]
    show ?case
    proof (cases "d = r")
      case True
      have T: "T - {d} = {}"
        using root_last [OF 2(1), of x] x True by simp
      have "cleared k1 (T - {d}) k1"
        unfolding T by (rule cleared_nothing [OF ok])
      then show ?thesis
        using step free True by simp
    next
      case False
      let ?p = "d_parent x"
      have p: "?p \<in> T - {d}" and fin: "finite (T - {d})" and sh1: "shrinking k1 r (T - {d})"
        using dx False sh 2(2) by auto
      have size: "Suc (card (T - {d})) = card T"
        by (rule card_Suc_Diff1 [OF 2(2,3)])
      obtain y where y: "dobj k1 ?p = Some y" "set (d_subdirs y) \<subseteq> T - {d}"
        using shrinkingD(4) [OF sh1 p] by blast
      have up: "passed k1 r ?p" and down: "c \<in> set (d_subdirs y) \<Longrightarrow> passed k1 r c" for c
        using passed_taken [OF 2(1,3,4) x(1) False D H shrinkingD(1) [OF sh1]] y(1) by blast+
      have fuel: "card (T - {d}) * (card (T - {d}) + 1) + card (T - {d}) \<le> n"
        using 2(6) unfolding size [symmetric] by simp
      obtain k' where k': "(case d_subdirs y of [] \<Rightarrow> shrink_up n ?p k1 | c # cs \<Rightarrow> shrink_down n c k1) = Ok k'"
          "cleared k1 (T - {d}) k'"
      proof (cases "d_subdirs y")
        case Nil
        then show ?thesis
          using that Suc.IH(2) [OF sh1 fin p up] y(1) fuel by auto
      next
        case (Cons c cs)
        then have c: "c \<in> T - {d}" "passed k1 r c"
          using y(2) down by auto
        have "card (T - {d}) * (card (T - {d}) + 1) + card (desc k1 c) + 1 \<le> n"
          using desc_card_less [OF sh1 c(1) fin] fuel by linarith
        from Suc.IH(1) [OF sh1 fin c this] show ?thesis
          using that Cons by auto
      qed
      have "shrink_up (Suc n) d k = Ok k'"
        using k'(1) False by (simp add: free dentry_at_Some [OF y(1)] del: bindR_eq_Ok)
      then show ?thesis
        using step [OF k'(2)] by blast
    qed
  }
qed

lemma shrink_subtree_ok:
  assumes "shrinking k r T"
  shows "\<exists>k'. shrink_dcache_for_umount_subtree r k = Ok k' \<and> cleared k T k'"
proof -
  obtain x where x: "dobj k r = Some x" "d_parent x = r"
    using shrinkingD(3,4) [OF assms] by blast
  let ?N = "length (dents k)" and ?k = "k\<lparr>dhash := filter (\<lambda>e. e \<notin> {r}) (dhash k)\<rparr>"
  have "T \<subseteq> {..< ?N}"
  proof
    fix d assume "d \<in> T"
    then obtain y where "dobj k d = Some y"
      using shrinkingD(4) [OF assms] by blast
    then show "d \<in> {..< ?N}"
      by (simp add: obj_Some_length)
  qed
  then have T: "finite T" "card T \<le> ?N"
    using finite_subset card_mono [of "{..< ?N}" T] by auto
  have sh: "shrinking ?k r T"
    by (rule shrinking_dhash [OF assms])
  have "r \<notin> desc k p" for p
  proof
    assume "r \<in> desc k p"
    then obtain e where "(e, r) \<in> child_rel k"
      by (auto simp: desc_def dest: tranclD2)
    then obtain y where y: "dobj k e = Some y" "r \<in> set (d_subdirs y)"
      by (auto simp: child_rel_def)
    then show False
      using children_okD(2) [OF tree_okD(1) [OF shrinkingD(1) [OF assms]] y] x by auto
  qed
  then have passed: "passed ?k r r"
    by (simp add: passed_def)
  have "card (desc ?k r) < card T"
    using desc_card_less [OF sh shrinkingD(3) [OF assms] T(1)] .
  moreover have "card T * (card T + 1) \<le> ?N * (?N + 1)"
    using T(2) by (intro mult_le_mono) auto
  ultimately have "card T * (card T + 1) + card (desc ?k r) + 1 \<le> shrink_fuel ?N"
    using T(2) by (simp add: shrink_fuel_def)
  then obtain k' where "shrink_down (shrink_fuel ?N) r ?k = Ok k'" "cleared ?k T k'"
    using shrink_ok(1) [OF sh T(1) shrinkingD(3) [OF assms] passed] by blast
  then show ?thesis
    using x cleared_dhash [of "{r}" k T k'] shrinkingD(3) [OF assms]
    by (simp add: shrink_dcache_for_umount_subtree_def dentry_at_Some d_drop_def)
qed

section \<open>Dropping the references that keep the tree\<close>

text \<open>
  A hashed dentry with an inode is kept in the cache by a reference of its own, whether
  \<open>wjfs_mknod\<close> or \<open>rdma_create\<close> made it.  In the tree \<open>T\<close> nobody else holds a reference.
\<close>

definition pinned :: "kernel \<Rightarrow> addr \<Rightarrow> bool" where
  "pinned k d \<longleftrightarrow> d \<in> set (dhash k) \<and> Option.bind (dobj k d) d_inode \<noteq> None"

definition kept :: "kernel \<Rightarrow> addr \<Rightarrow> addr set \<Rightarrow> bool" where
  "kept k r T \<longleftrightarrow> r \<in> T \<and>
     (\<forall>d\<in>T. \<exists>x. dobj k d = Some x \<and> set (d_subdirs x) \<subseteq> T \<and> d_parent x \<in> T \<and> (d_parent x = d \<longleftrightarrow> d = r) \<and>
       (d \<noteq> r \<and> \<not> pinned k d \<longrightarrow> d_subdirs x = []) \<and>
       unat (d_count x) = length (d_subdirs x) + (if d = r \<or> pinned k d then 1 else 0))"

definition unpin :: "addr set \<Rightarrow> kernel \<Rightarrow> kernel" where
  "unpin S k = k\<lparr>dents := map (\<lambda>d. if d \<in> S then map_option (\<lambda>x. x\<lparr>d_count := d_count x - 1\<rparr>) (dents k ! d) else dents k ! d)
     [0..< length (dents k)]\<rparr>"

lemma unpin_dobj: "dobj (unpin S k) d = (if d \<in> S then map_option (\<lambda>x. x\<lparr>d_count := d_count x - 1\<rparr>) (dobj k d) else dobj k d)"
  by (simp add: obj_def unpin_def)

lemma unpin_fields [simp]: "dhash (unpin S k) = dhash k" "inodes (unpin S k) = inodes k" "length (dents (unpin S k)) = length (dents k)"
  "unpin {} k = k"
  by (simp_all add: unpin_def map_nth)

lemma atomic_dec_unpin:
  assumes "dobj k d = Some x" "d \<notin> S"
  shows "atomic_dec d (unpin S k) = Ok (unpin (insert d S) k)"
proof -
  have "dobj (unpin S k) d = Some x"
    using assms by (simp add: unpin_dobj)
  moreover have "(dents (unpin S k))[d := Some (x\<lparr>d_count := d_count x - 1\<rparr>)] = dents (unpin (insert d S) k)"
    using assms obj_Some_length [OF assms(1)]
    by (intro nth_equalityI) (auto simp: unpin_def nth_list_update obj_def)
  ultimately show ?thesis
    by (simp add: atomic_dec_def upd_dentry_def dentry_at_Some set_dentry_def) (simp add: unpin_def)
qed

text \<open>The dentries below \<open>d\<close> that the walk comes to.\<close>

inductive pins :: "kernel \<Rightarrow> addr \<Rightarrow> addr \<Rightarrow> bool" for k where
  child: "dobj k d = Some x \<Longrightarrow> c \<in> set (d_subdirs x) \<Longrightarrow> pinned k c \<Longrightarrow> pins k d c"
| below: "dobj k d = Some x \<Longrightarrow> c \<in> set (d_subdirs x) \<Longrightarrow> pinned k c \<Longrightarrow> pins k c a \<Longrightarrow> pins k d a"

definition pins_below :: "kernel \<Rightarrow> addr list \<Rightarrow> addr set" where
  "pins_below k cs = (\<Union>c \<in> {c \<in> set cs. pinned k c}. insert c {a. pins k c a})"

definition under :: "kernel \<Rightarrow> addr list \<Rightarrow> addr set" where
  "under k cs = (\<Union>c \<in> set cs. insert c (desc k c))"

lemma pins_desc: "pins k d a \<Longrightarrow> a \<in> desc k d"
proof (induction rule: pins.induct)
  case (child d x c)
  then show ?case
    by (simp add: child_desc)
next
  case (below d x c a)
  then show ?case
    using child_desc desc_step by blast
qed

lemma pins_below_under: "pins_below k cs \<subseteq> under k cs"
  by (auto simp: pins_below_def under_def dest: pins_desc)

lemma pins_iff:
  assumes "dobj k d = Some x"
  shows "pins k d a \<longleftrightarrow> a \<in> pins_below k (d_subdirs x)"
proof
  assume "pins k d a"
  then show "a \<in> pins_below k (d_subdirs x)"
    by cases (use assms in \<open>auto simp: pins_below_def\<close>)
next
  assume "a \<in> pins_below k (d_subdirs x)"
  then show "pins k d a"
    using assms by (auto simp: pins_below_def intro: pins.intros)
qed

lemma desc_live: "tree_ok k \<Longrightarrow> e \<in> desc k d \<Longrightarrow> \<exists>y. dobj k e = Some y \<and> d_parent y \<noteq> e"
  by (fastforce simp: desc_def child_rel_def children_ok_def dest!: tranclD2 tree_okD(1))

lemma desc_irrefl: "tree_ok k \<Longrightarrow> d \<notin> desc k d"
  using desc_rank tree_okD(1,3) by blast

lemma siblings_apart:
  assumes t: "tree_ok k" and p: "dobj k p = Some x" "c \<in> set (d_subdirs x)" "c' \<in> set (d_subdirs x)" "c \<noteq> c'"
  shows "insert c (desc k c) \<inter> insert c' (desc k c') = {}"
proof -
  obtain h where h: "ranked h k"
    using tree_okD(3) [OF t] by blast
  have top: "c1 \<notin> desc k c2" if c: "c1 \<in> set (d_subdirs x)" "c2 \<in> set (d_subdirs x)" for c1 c2
  proof
    assume d: "c1 \<in> desc k c2"
    obtain y where "dobj k c1 = Some y" "d_parent y = p"
      using children_okD(2) [OF tree_okD(1) [OF t] p(1) c(1)] by blast
    then have "c2 = p \<or> p \<in> desc k c2"
      using desc_last [OF t d] by blast
    moreover have "c2 \<in> desc k p"
      by (rule child_desc [OF p(1) c(2)])
    ultimately have "p \<in> desc k p"
      using desc_step [of c2 k p p] by auto
    then show False
      using desc_irrefl [OF t] by simp
  qed
  have "e \<in> insert c (desc k c) \<Longrightarrow> e \<in> insert c' (desc k c') \<Longrightarrow> False" for e
  proof (induction "h e" arbitrary: e rule: less_induct)
    case less
    have d: "e \<in> desc k c" "e \<in> desc k c'"
      using less.prems p(4) top [OF p(2,3)] top [OF p(3,2)] by auto
    obtain y where y: "dobj k e = Some y" "d_parent y \<noteq> e"
      using desc_live [OF t d(1)] by blast
    have "h (d_parent y) < h e"
      using h y by (simp add: ranked_def)
    then show ?case
      by (rule less.hyps) (use desc_last [OF t d(1) y(1)] desc_last [OF t d(2) y(1)] in auto)
  qed
  then show ?thesis
    by blast
qed

lemma under_Cons: "under k (c # cs) = insert c (desc k c) \<union> under k cs"
  by (simp add: under_def)

lemma under_children:
  assumes "dobj k d = Some x"
  shows "under k (d_subdirs x) = desc k d"
proof (intro set_eqI iffI)
  fix a assume "a \<in> desc k d"
  then have "(d, a) \<in> (child_rel k)\<^sup>+"
    by (simp add: desc_def)
  then obtain c where c: "(d, c) \<in> child_rel k" "(c, a) \<in> (child_rel k)\<^sup>*"
    using tranclD by metis
  have "a \<in> insert c (desc k c)"
    using c(2) by (auto simp: desc_def rtrancl_eq_or_trancl)
  moreover have "c \<in> set (d_subdirs x)"
    using c(1) assms by (simp add: child_rel_def)
  ultimately show "a \<in> under k (d_subdirs x)"
    unfolding under_def by (rule UN_I [rotated])
next
  fix a assume "a \<in> under k (d_subdirs x)"
  then obtain c where c: "c \<in> set (d_subdirs x)" "a = c \<or> a \<in> desc k c"
    by (auto simp: under_def)
  then show "a \<in> desc k d"
    using child_desc [OF assms c(1)] desc_step [of c k d a] by auto
qed

lemma under_Cons_card:
  assumes "tree_ok k" "dobj k p = Some x" "d_subdirs x = pre @ c # cs"
  shows "insert c (desc k c) \<inter> under k cs = {}" and "card (under k (c # cs)) = Suc (card (desc k c)) + card (under k cs)"
proof -
  have "distinct (d_subdirs x)"
    by (rule children_okD(1) [OF tree_okD(1) [OF assms(1)] assms(2)])
  then have "c' \<in> set cs \<Longrightarrow> insert c (desc k c) \<inter> insert c' (desc k c') = {}" for c'
    using siblings_apart [OF assms(1,2), of c c'] assms(3) by auto
  then show dis: "insert c (desc k c) \<inter> under k cs = {}"
    by (auto simp: under_def)
  have "finite (under k cs)" "finite (desc k c)"
    using desc_finite [OF tree_okD(1) [OF assms(1)]] by (auto simp: under_def)
  then show "card (under k (c # cs)) = Suc (card (desc k c)) + card (under k cs)"
    using dis desc_irrefl [OF assms(1), of c] unfolding under_Cons by (subst card_Un_disjoint) auto
qed

lemma after_split: "distinct (pre @ c # cs) \<Longrightarrow> after c (pre @ c # cs) = cs"
  by (induction pre) (auto simp: after_def)

lemma pins_below_Cons:
  "dobj k c = Some y \<Longrightarrow> pins_below k (c # cs) =
    (if pinned k c then insert c (pins_below k (d_subdirs y)) else {}) \<union> pins_below k cs"
  using pins_iff [of k c y] by (auto simp: pins_below_def)

lemma pins_below_Nil [simp]: "pins_below k [] = {}"
  by (simp add: pins_below_def)

text \<open>The steps of the walk, with the references of \<open>S\<close> dropped before.\<close>

lemma genocide_step:
  assumes y: "dobj k c = Some y" "c \<notin> S"
  shows "\<not> pinned k c \<Longrightarrow> genocide_loop (Suc n) r p (c # cs) (unpin S k) = genocide_loop n r p cs (unpin S k)"
    and "pinned k c \<Longrightarrow> d_subdirs y = [] \<Longrightarrow>
      genocide_loop (Suc n) r p (c # cs) (unpin S k) = genocide_loop n r p cs (unpin (insert c S) k)"
    and "pinned k c \<Longrightarrow> d_subdirs y \<noteq> [] \<Longrightarrow>
      genocide_loop (Suc n) r p (c # cs) (unpin S k) = genocide_loop n r c (d_subdirs y) (unpin S k)"
proof -
  have yS: "dobj (unpin S k) c = Some y"
    using y by (simp add: unpin_dobj)
  have pin: "pinned k c \<longleftrightarrow> \<not> (d_unhashed (unpin S k) c \<or> d_inode y = None)"
    using y(1) by (auto simp: pinned_def d_unhashed_def)
  show "\<not> pinned k c \<Longrightarrow> genocide_loop (Suc n) r p (c # cs) (unpin S k) = genocide_loop n r p cs (unpin S k)"
    "pinned k c \<Longrightarrow> d_subdirs y = [] \<Longrightarrow>
      genocide_loop (Suc n) r p (c # cs) (unpin S k) = genocide_loop n r p cs (unpin (insert c S) k)"
    "pinned k c \<Longrightarrow> d_subdirs y \<noteq> [] \<Longrightarrow>
      genocide_loop (Suc n) r p (c # cs) (unpin S k) = genocide_loop n r c (d_subdirs y) (unpin S k)"
    unfolding pin by (auto simp: dentry_at_Some [OF yS] atomic_dec_unpin [OF y] simp del: bindR_eq_Ok)
qed

lemma genocide_leave:
  assumes "dobj k c = Some y" "c \<notin> S" "c \<noteq> r" "dobj k (d_parent y) = Some px" "d_subdirs px = pre @ c # cs"
    and "distinct (pre @ c # cs)"
  shows "genocide_loop (Suc n) r c [] (unpin S k) = genocide_loop n r (d_parent y) cs (unpin (insert c S) k)"
proof -
  have y: "dobj (unpin S k) c = Some y"
    using assms(1,2) by (simp add: unpin_dobj)
  obtain py where py: "dobj (unpin S k) (d_parent y) = Some py" "d_subdirs py = pre @ c # cs"
    using assms(4,5) by (cases "d_parent y \<in> S") (auto simp: unpin_dobj)
  show ?thesis
    using assms(3) by (simp add: dentry_at_Some [OF y] dentry_at_Some [OF py(1)] py(2) after_split [OF assms(6)]
        atomic_dec_unpin [OF assms(1,2)] del: bindR_eq_Ok)
qed

text \<open>
  The walk over some children of \<open>p\<close>, with the references of \<open>S\<close> dropped before: it takes at
  most two steps for every dentry below.
\<close>

lemma genocide_children:
  assumes t: "tree_ok k" and r: "dobj k r = Some rx" "d_parent rx = r"
  shows "dobj k p = Some px \<Longrightarrow> d_subdirs px = pre @ cs \<Longrightarrow> S \<inter> under k cs = {} \<Longrightarrow>
    \<exists>s \<le> 2 * card (under k cs). \<forall>n. genocide_loop (s + n) r p cs (unpin S k) =
      genocide_loop n r p [] (unpin (S \<union> pins_below k cs) k)"
proof (induction "card (desc k p)" arbitrary: p px pre cs S rule: less_induct)
  case less
  note outer = less.hyps and px = less.prems(1)
  show ?case
    using less.prems(2,3)
  proof (induction cs arbitrary: pre S)
    case Nil
    then show ?case
      by (intro exI [of _ 0]) simp
  next
    case (Cons c cs)
    have dist: "distinct (pre @ c # cs)" and cin: "c \<in> set (d_subdirs px)"
      using children_okD(1) [OF tree_okD(1) [OF t] px] Cons.prems(1) by auto
    obtain y where y: "dobj k c = Some y" "d_parent y = p" "c \<noteq> p"
      using children_okD(2) [OF tree_okD(1) [OF t] px cin] by blast
    have cr: "c \<noteq> r"
      using y r by auto
    note apart = under_Cons_card(1) [OF t px Cons.prems(1)] and size = under_Cons_card(2) [OF t px Cons.prems(1)]
    have cS: "c \<notin> S" "S \<inter> desc k c = {}" "S \<inter> under k cs = {}"
      using Cons.prems(2) unfolding under_Cons by auto
    note steps = genocide_step [OF y(1) cS(1)]
    have rest: "\<exists>s \<le> 2 * card (under k cs). \<forall>n. genocide_loop (s + n) r p cs (unpin S' k) =
        genocide_loop n r p [] (unpin (S' \<union> pins_below k cs) k)" if "S' \<inter> under k cs = {}" for S'
      using Cons.IH [of "pre @ [c]" S'] Cons.prems(1) that by simp
    consider "\<not> pinned k c" | "pinned k c" "d_subdirs y = []" | "pinned k c" "d_subdirs y \<noteq> []"
      by blast
    then show ?case
    proof cases
      case 1
      obtain s where s: "s \<le> 2 * card (under k cs)" "\<forall>n. genocide_loop (s + n) r p cs (unpin S k) =
          genocide_loop n r p [] (unpin (S \<union> pins_below k cs) k)"
        using rest [OF cS(3)] by blast
      then show ?thesis
        using size 1 steps(1) [OF 1] by (intro exI [of _ "Suc s"]) (simp add: pins_below_Cons [OF y(1)])
    next
      case 2
      have "insert c S \<inter> under k cs = {}"
        using cS(3) apart by blast
      from rest [OF this] obtain s where s: "s \<le> 2 * card (under k cs)"
          "\<forall>n. genocide_loop (s + n) r p cs (unpin (insert c S) k) =
          genocide_loop n r p [] (unpin (insert c S \<union> pins_below k cs) k)"
        by blast
      moreover have "insert c S \<union> pins_below k cs = S \<union> pins_below k (c # cs)"
        using 2 by (auto simp: pins_below_Cons [OF y(1)])
      ultimately show ?thesis
        using s size steps(2) [OF 2] by (intro exI [of _ "Suc s"]) simp
    next
      case 3
      let ?P = "pins_below k (d_subdirs y)"
      have uc: "under k (d_subdirs y) = desc k c"
        by (rule under_children [OF y(1)])
      have "card (desc k c) < card (desc k p)"
        by (rule desc_child [OF tree_okD(1,3) [OF t] px cin])
      from outer [OF this y(1), of "[]" "d_subdirs y" S] obtain s1 where s1: "s1 \<le> 2 * card (desc k c)"
          "\<forall>n. genocide_loop (s1 + n) r c (d_subdirs y) (unpin S k) = genocide_loop n r c [] (unpin (S \<union> ?P) k)"
        using cS(2) uc by auto
      have P: "?P \<subseteq> desc k c" "c \<notin> S \<union> ?P"
        using pins_below_under [of k "d_subdirs y"] uc desc_irrefl [OF t, of c] cS(1) by auto
      have "insert c (S \<union> ?P) \<inter> under k cs = {}"
        using cS(3) apart P(1) by blast
      from rest [OF this] obtain s2 where s2: "s2 \<le> 2 * card (under k cs)"
          "\<forall>n. genocide_loop (s2 + n) r p cs (unpin (insert c (S \<union> ?P)) k) =
          genocide_loop n r p [] (unpin (insert c (S \<union> ?P) \<union> pins_below k cs) k)"
        by blast
      have "genocide_loop (Suc (s1 + Suc s2) + n) r p (c # cs) (unpin S k) =
          genocide_loop (s1 + Suc (s2 + n)) r c (d_subdirs y) (unpin S k)" for n
        using steps(3) [OF 3, of "s1 + Suc (s2 + n)"] by (simp add: add.assoc del: genocide_loop.simps)
      moreover have "genocide_loop (Suc (s2 + n)) r c [] (unpin (S \<union> ?P) k) =
          genocide_loop (s2 + n) r p cs (unpin (insert c (S \<union> ?P)) k)" for n
        using genocide_leave [OF y(1) P(2) cr, of px pre cs] px Cons.prems(1) dist y(2) by simp
      moreover have "insert c (S \<union> ?P) \<union> pins_below k cs = S \<union> pins_below k (c # cs)"
        using 3 by (auto simp: pins_below_Cons [OF y(1)])
      ultimately have "\<forall>n. genocide_loop (Suc (s1 + Suc s2) + n) r p (c # cs) (unpin S k) =
          genocide_loop n r p [] (unpin (S \<union> pins_below k (c # cs)) k)"
        using s1(2) s2(2) by metis
      moreover have "Suc (s1 + Suc s2) \<le> 2 * card (under k (c # cs))"
        using s1(1) s2(1) size by simp
      ultimately show ?thesis
        by blast
    qed
  qed
qed

lemma genocide_ok:
  assumes "tree_ok k" "dobj k r = Some x" "d_parent x = r"
  shows "wjfs_d_genocide r k = Ok (unpin {d. pins k r d} k)"
proof -
  let ?N = "length (dents k)"
  have "card (under k (d_subdirs x)) \<le> ?N"
    unfolding under_children [OF assms(2)] by (rule desc_card_le [OF tree_okD(1) [OF assms(1)]])
  moreover obtain s where s: "s \<le> 2 * card (under k (d_subdirs x))"
      "\<forall>n. genocide_loop (s + n) r r (d_subdirs x) (unpin {} k) =
        genocide_loop n r r [] (unpin ({} \<union> pins_below k (d_subdirs x)) k)"
    using genocide_children [OF assms assms(2), of "[]" "d_subdirs x" "{}"] by auto
  ultimately obtain n where "Suc (2 * ?N) = s + Suc n"
    by (metis add_Suc_right le_Suc_ex le_trans mult_le_mono2)
  then have "genocide_loop (Suc (2 * ?N)) r r (d_subdirs x) k = Ok (unpin (pins_below k (d_subdirs x)) k)"
    using s(2) by (metis genocide_loop.simps(2) sup_bot_left unpin_fields(4))
  then show ?thesis
    using pins_iff [OF assms(2)] by (simp add: wjfs_d_genocide_def dentry_at_Some [OF assms(2)] del: genocide_loop.simps)
qed

section \<open>Unmounting\<close>

lemma unpin_users [simp]: "users (unpin S k) i = users k i"
proof -
  have "Option.bind (dobj (unpin S k) d) d_inode = Option.bind (dobj k d) d_inode" for d
    by (cases "dobj k d") (simp_all add: unpin_dobj)
  then show ?thesis
    by (simp add: users_def)
qed

lemma unpin_Some:
  "dobj (unpin S k) d = Some y \<longleftrightarrow> (\<exists>x. dobj k d = Some x \<and> y = (if d \<in> S then x\<lparr>d_count := d_count x - 1\<rparr> else x))"
  by (auto simp: unpin_dobj)

lemma tree_ok_unpin:
  assumes "tree_ok k"
  shows "tree_ok (unpin S k)"
proof -
  have par: "map_option d_parent (dobj (unpin S k) c) = map_option d_parent (dobj k c)" for c
    by (cases "dobj k c") (simp_all add: unpin_dobj)
  have "children_ok (unpin S k)"
    unfolding children_ok_def par
  proof (intro allI impI)
    fix p x assume "dobj (unpin S k) p = Some x"
    then obtain x0 where "dobj k p = Some x0" "d_subdirs x = d_subdirs x0"
      unfolding unpin_Some by auto
    then show "distinct (d_subdirs x) \<and> (\<forall>c\<in>set (d_subdirs x). c \<noteq> p \<and> map_option d_parent (dobj k c) = Some p)"
      using tree_okD(1) [OF assms] by (simp add: children_ok_def)
  qed
  moreover have "parents_ok (unpin S k)"
    unfolding parents_ok_def
  proof (intro allI impI)
    fix c y assume "dobj (unpin S k) c = Some y"
    then obtain y0 where y0: "dobj k c = Some y0" "d_parent y = d_parent y0"
      unfolding unpin_Some by auto
    then obtain x where "dobj k (d_parent y) = Some x" "d_parent y \<noteq> c \<longrightarrow> c \<in> set (d_subdirs x)"
      using parents_okD [OF tree_okD(2) [OF assms] y0(1)] by auto
    then show "\<exists>x. dobj (unpin S k) (d_parent y) = Some x \<and> (d_parent y \<noteq> c \<longrightarrow> c \<in> set (d_subdirs x))"
      by (cases "d_parent y \<in> S") (simp_all add: unpin_dobj)
  qed
  moreover obtain h where "ranked h k"
    using tree_okD(3) [OF assms] by blast
  then have "ranked h (unpin S k)"
    unfolding ranked_def unpin_Some by (auto split: if_splits)
  moreover have "inodes_ok (unpin S k)"
    using tree_okD(4) [OF assms] unfolding inodes_ok_def unpin_Some by (auto split: if_splits)
  moreover have "names_ok (unpin S k)"
    using tree_okD(5) [OF assms] unfolding names_ok_def unpin_Some by (auto split: if_splits)
  moreover have "hash_ok (unpin S k)"
    using tree_okD(6) [OF assms] unfolding hash_ok_def by (auto simp: unpin_dobj)
  ultimately show ?thesis
    by (auto simp: tree_ok_def)
qed

lemma keptD:
  assumes "kept k r T"
  shows "r \<in> T"
    and "d \<in> T \<Longrightarrow> \<exists>x. dobj k d = Some x \<and> set (d_subdirs x) \<subseteq> T \<and> d_parent x \<in> T \<and> (d_parent x = d \<longleftrightarrow> d = r) \<and>
      (d \<noteq> r \<and> \<not> pinned k d \<longrightarrow> d_subdirs x = []) \<and>
      unat (d_count x) = length (d_subdirs x) + (if d = r \<or> pinned k d then 1 else 0)"
  using assms by (auto simp: kept_def)

lemma pins_snoc: "pins k d p \<Longrightarrow> dobj k p = Some x \<Longrightarrow> c \<in> set (d_subdirs x) \<Longrightarrow> pinned k c \<Longrightarrow> pins k d c"
  by (induction rule: pins.induct) (blast intro: pins.intros)+

lemma pins_pinned: "pins k d a \<Longrightarrow> pinned k a"
  by (induction rule: pins.induct)

lemma pins_kept:
  assumes "tree_ok k" "kept k r T"
  shows "pins k r d \<longleftrightarrow> d \<in> T \<and> d \<noteq> r \<and> pinned k d"
proof
  have "pins k p d \<Longrightarrow> p \<in> T \<Longrightarrow> d \<in> T" for p
  proof (induction rule: pins.induct)
    case (child p x c)
    then show ?case
      using keptD(2) [OF assms(2), of p] by auto
  next
    case (below p x c a)
    then show ?case
      using keptD(2) [OF assms(2), of p] by auto
  qed
  then show "pins k r d \<Longrightarrow> d \<in> T \<and> d \<noteq> r \<and> pinned k d"
    using keptD(1) [OF assms(2)] pins_pinned pins_desc desc_irrefl [OF assms(1)] by blast
  obtain h where h: "ranked h k"
    using tree_okD(3) [OF assms(1)] by blast
  assume "d \<in> T \<and> d \<noteq> r \<and> pinned k d"
  then show "pins k r d"
  proof (induction "h d" arbitrary: d rule: less_induct)
    case less
    obtain x where x: "dobj k d = Some x" "d_parent x \<in> T" "d_parent x \<noteq> d"
      using keptD(2) [OF assms(2), of d] less.prems by auto
    obtain px where px: "dobj k (d_parent x) = Some px" "d \<in> set (d_subdirs px)"
      using parents_okD [OF tree_okD(2) [OF assms(1)] x(1)] x(3) by auto
    show ?case
    proof (cases "d_parent x = r")
      case True
      then show ?thesis
        using px less.prems by (auto intro: pins.child)
    next
      case False
      have "h (d_parent x) < h d"
        using h x by (simp add: ranked_def)
      moreover have "pinned k (d_parent x)"
        using keptD(2) [OF assms(2) x(2)] px False by auto
      ultimately have "pins k r (d_parent x)"
        using less.hyps x(2) False by blast
      then show ?thesis
        using pins_snoc [OF _ px] less.prems by blast
    qed
  qed
qed

lemma shrinking_unpin:
  assumes "fs_ok k" "kept k r T"
  shows "shrinking (unpin (insert r {d. pins k r d}) k) r T"
proof -
  let ?S = "insert r {d. pins k r d}"
  have "\<exists>x. dobj (unpin ?S k) d = Some x \<and> set (d_subdirs x) \<subseteq> T \<and> d_parent x \<in> T \<and> (d_parent x = d \<longleftrightarrow> d = r) \<and>
      unat (d_count x) = length (d_subdirs x)" if d: "d \<in> T" for d
  proof -
    obtain x where x: "dobj k d = Some x" "set (d_subdirs x) \<subseteq> T" "d_parent x \<in> T" "d_parent x = d \<longleftrightarrow> d = r"
        "unat (d_count x) = length (d_subdirs x) + (if d = r \<or> pinned k d then 1 else 0)"
      using keptD(2) [OF assms(2) d] by blast
    have S: "d \<in> ?S \<longleftrightarrow> d = r \<or> pinned k d"
      using pins_kept [OF fs_okD(1) [OF assms(1)] assms(2)] d by auto
    show ?thesis
    proof (cases "d \<in> ?S")
      case True
      then have "unat (d_count x) = Suc (length (d_subdirs x))"
        using x(5) S by simp
      moreover from this have "unat (d_count x - 1) = unat (d_count x) - 1"
        by (intro unat_minus_one) auto
      ultimately show ?thesis
        using True x(1-4) by (simp only: unpin_dobj) simp
    next
      case False
      then show ?thesis
        using x S by (simp only: unpin_dobj) simp
    qed
  qed
  then show ?thesis
    using tree_ok_unpin [OF fs_okD(1) [OF assms(1)]] fs_okD(3) [OF assms(1)] keptD(1) [OF assms(2)]
    by (auto simp: shrinking_def irefs_ok_def)
qed

lemma invalidate_iobj:
  "iobj (invalidate_inodes sb k) i = (case iobj k i of None \<Rightarrow> None
     | Some z \<Rightarrow> if i_sb z = sb \<and> i_count z = 0 then None else Some z)"
  by (simp add: invalidate_inodes_def obj_def split: option.split)

lemma invalidate_fields [simp]:
  "dents (invalidate_inodes sb k) = dents k" "dhash (invalidate_inodes sb k) = dhash k"
  "rroot_dentry (invalidate_inodes sb k) = rroot_dentry k" "reg_ino_mapp_table (invalidate_inodes sb k) = reg_ino_mapp_table k"
  by (simp_all add: invalidate_inodes_def)

lemma invalidate_ok:
  assumes "fs_ok k"
  shows "fs_ok (invalidate_inodes sb k)"
proof -
  have u: "users (invalidate_inodes sb k) i = users k i" for i
    by (simp add: users_def)
  have "iobj (invalidate_inodes sb k) i \<noteq> None" if d: "dobj k d = Some x" "d_inode x = Some i" for d x i
  proof -
    obtain z where z: "iobj k i = Some z"
      using inodes_okD [OF tree_okD(4) [OF fs_okD(1) [OF assms]] d] by blast
    have "card (users k i) > 0"
      using usersI [OF d] users_finite card_gt_0_iff by blast
    then show ?thesis
      using z irefs_okD [OF assms z] by (auto simp: invalidate_iobj)
  qed
  then have "tree_ok (invalidate_inodes sb k)"
    using fs_okD(1) [OF assms]
    by (simp add: tree_ok_def children_ok_def parents_ok_def ranked_def names_ok_def hash_ok_def) (auto simp: inodes_ok_def)
  moreover have "refs_ok (invalidate_inodes sb k)"
    using fs_okD(2) [OF assms] by (simp add: refs_ok_def)
  moreover have "irefs_ok (invalidate_inodes sb k)"
    using fs_okD(3) [OF assms] by (auto simp: irefs_ok_def u invalidate_iobj split: option.splits if_splits)
  ultimately show ?thesis
    by (simp add: fs_ok_def)
qed

lemma only_tree_unpin: "only_tree k (unpin S k)"
  by (simp add: unpin_def)

lemma only_tree_invalidate: "only_tree k (invalidate_inodes sb k)"
  by (simp add: invalidate_inodes_def)

lemma only_treeD: "only_tree k k' \<Longrightarrow> rroot_dentry k' = rroot_dentry k \<and> reg_ino_mapp_table k' = reg_ino_mapp_table k"
  by (cases k; cases k') (simp add: only_tree_def)

text \<open>After the references of \<open>T\<close> are dropped the tree comes apart.\<close>

lemma kill_sb_eq:
  assumes "fs_ok k" "kept k r T"
  shows "\<exists>k1. wjfs_kill_sb sb (Some r) k = Ok (invalidate_inodes sb (invalidate_inodes sb k1)) \<and>
    cleared (unpin (insert r {d. pins k r d}) k) T k1"
proof -
  let ?P = "{d. pins k r d}" and ?S = "insert r {d. pins k r d}"
  note t = fs_okD(1) [OF assms(1)]
  obtain x where x: "dobj k r = Some x" "d_parent x = r"
    using keptD(2) [OF assms(2) keptD(1) [OF assms(2)]] by auto
  have "r \<notin> ?P"
    using pins_kept [OF t assms(2)] by simp
  from atomic_dec_unpin [OF x(1) this] have "atomic_dec r (unpin ?P k) = Ok (unpin ?S k)" .
  moreover obtain k1 where "shrink_dcache_for_umount_subtree r (unpin ?S k) = Ok k1" "cleared (unpin ?S k) T k1"
    using shrink_subtree_ok [OF shrinking_unpin [OF assms]] by blast
  ultimately show ?thesis
    by (intro exI [of _ k1]) (simp add: wjfs_kill_sb_def wjfs_kill_litter_super_def genocide_ok [OF t x] kill_anon_super_def
        generic_shutdown_super_def shrink_dcache_for_umount_def)
qed

lemma cleared_fs_ok:
  assumes "fs_ok k" "kept k r T" "cleared (unpin (insert r {d. pins k r d}) k) T k1"
  shows "dobj k1 = (\<lambda>d. if d \<in> T then None else dobj k d)" and "fs_ok k1"
proof -
  show D: "dobj k1 = (\<lambda>d. if d \<in> T then None else dobj k d)"
    using assms(3) pins_kept [OF fs_okD(1) [OF assms(1)] assms(2)] keptD(1) [OF assms(2)]
    by (auto simp: cleared_def unpin_dobj fun_eq_iff)
  have "refs_ok k1"
    using fs_okD(2) [OF assms(1)] unfolding refs_ok_def D by auto
  then show "fs_ok k1"
    using assms(3) by (simp add: cleared_def fs_ok_def)
qed

definition evicted :: "nat \<Rightarrow> inode option \<Rightarrow> inode option" where
  "evicted sb y = (case y of None \<Rightarrow> None | Some z \<Rightarrow> if i_sb z = sb \<and> i_count z = 0 then None else Some z)"

lemma umount_ok:
  assumes "fs_ok k" "kept k r T"
  shows "\<exists>k'. wjfs_kill_sb sb (Some r) k = Ok k' \<and> fs_ok k' \<and> dobj k' = (\<lambda>d. if d \<in> T then None else dobj k d) \<and>
    dhash k' = filter (\<lambda>d. d \<notin> T) (dhash k) \<and>
    (\<forall>i. iobj k' i = evicted sb (unused (card (users k i \<inter> T)) (iobj k i))) \<and>
    rroot_dentry k' = rroot_dentry k \<and> reg_ino_mapp_table k' = reg_ino_mapp_table k"
proof -
  let ?S = "insert r {d. pins k r d}"
  obtain k1 where kill: "wjfs_kill_sb sb (Some r) k = Ok (invalidate_inodes sb (invalidate_inodes sb k1))"
    and c: "cleared (unpin ?S k) T k1"
    using kill_sb_eq [OF assms] by blast
  note k1 = cleared_fs_ok [OF assms c]
  have "iobj k1 i = unused (card (users k i \<inter> T)) (iobj k i)" for i
    using c by (simp add: cleared_def)
  then have "iobj (invalidate_inodes sb (invalidate_inodes sb k1)) i = evicted sb (unused (card (users k i \<inter> T)) (iobj k i))" for i
    by (simp add: invalidate_iobj evicted_def split: option.split)
  moreover have "dhash k1 = filter (\<lambda>d. d \<notin> T) (dhash k)" "rroot_dentry k1 = rroot_dentry k"
      "reg_ino_mapp_table k1 = reg_ino_mapp_table k"
    using c only_treeD [OF only_tree_trans [OF only_tree_unpin [of k ?S]], of k1] by (simp_all add: cleared_def)
  ultimately show ?thesis
    using kill k1(1) invalidate_ok [OF invalidate_ok [OF k1(2)]]
    by (intro exI [of _ "invalidate_inodes sb (invalidate_inodes sb k1)"]) simp
qed

lemma evicted_gone: "users k i \<noteq> {} \<Longrightarrow> users k i \<subseteq> T \<Longrightarrow> unat (i_count z) = card (users k i) \<Longrightarrow>
    evicted sb (unused (card (users k i \<inter> T)) (Some z)) = None"
  using users_finite [of k i] by (simp add: evicted_def unused_def Int_absorb2)

lemma evicted_stays: "users k i \<inter> T = {} \<Longrightarrow> i_count z \<noteq> 0 \<Longrightarrow> evicted sb (unused (card (users k i \<inter> T)) (Some z)) = Some z"
  by (simp add: evicted_def unused_def)

text \<open>
  C9.  Unmounting ends.  Let \<open>T\<close> be the tree of dentries below the root in which every
  hashed dentry with an inode has one reference beside those of its children, and no
  other dentry has any (what \<open>wjfs_mknod\<close> and \<open>rdma_create\<close> leave).  Then
  \<open>wjfs_kill_sb\<close> meets no dentry that is still in use: it frees exactly the dentries of \<open>T\<close>,
  takes them off the hash, frees the inodes that only they used and leaves all other
  inodes in use alone.  The globals \<open>rroot_dentry\<close> and \<open>reg_ino_mapp_table\<close> keep what they had.
\<close>

theorem umount_frees_tree:
  assumes "fs_ok k" "kept k r T"
  shows "\<exists>k'. wjfs_kill_sb sb (Some r) k = Ok k' \<and> fs_ok k' \<and> dobj k' = (\<lambda>d. if d \<in> T then None else dobj k d) \<and>
    dhash k' = filter (\<lambda>d. d \<notin> T) (dhash k) \<and>
    (\<forall>i z. iobj k i = Some z \<and> users k i \<noteq> {} \<and> users k i \<subseteq> T \<and> unat (i_count z) = card (users k i) \<longrightarrow> iobj k' i = None) \<and>
    (\<forall>i z. iobj k i = Some z \<and> users k i \<inter> T = {} \<and> i_count z \<noteq> 0 \<longrightarrow> iobj k' i = Some z) \<and>
    rroot_dentry k' = rroot_dentry k \<and> reg_ino_mapp_table k' = reg_ino_mapp_table k"
proof -
  obtain k' where k': "wjfs_kill_sb sb (Some r) k = Ok k'" "fs_ok k'" "dobj k' = (\<lambda>d. if d \<in> T then None else dobj k d)"
      "dhash k' = filter (\<lambda>d. d \<notin> T) (dhash k)" "rroot_dentry k' = rroot_dentry k" "reg_ino_mapp_table k' = reg_ino_mapp_table k"
    and I: "\<forall>i. iobj k' i = evicted sb (unused (card (users k i \<inter> T)) (iobj k i))"
    using umount_ok [OF assms] by blast
  have "iobj k' i = None" if "iobj k i = Some z" "users k i \<noteq> {}" "users k i \<subseteq> T" "unat (i_count z) = card (users k i)" for i z
    using evicted_gone [OF that(2-4)] that(1) I by simp
  moreover have "iobj k' i = Some z" if "iobj k i = Some z" "users k i \<inter> T = {}" "i_count z \<noteq> 0" for i z
    using evicted_stays [OF that(2,3)] that(1) I by simp
  ultimately show ?thesis
    using k' by blast
qed

section \<open>An example\<close>

text \<open>The example machine when nobody holds any of its dentries.\<close>

definition kernel4 :: kernel where
  "kernel4 = set_dentry 4 (ex_dentry ''e'' 1 (Some 3) 0 []) (set_dentry 3 (ex_dentry ''new'' 0 None 0 [])
     (set_dentry 2 (ex_dentry ''a'' 1 (Some 2) 1 []) kernel1))"

lemma kernel4_dobj:
  "dobj kernel4 = (dobj kernel1)(2 := Some (ex_dentry ''a'' 1 (Some 2) 1 []), 3 := Some (ex_dentry ''new'' 0 None 0 []),
     4 := Some (ex_dentry ''e'' 1 (Some 3) 0 []))"
proof -
  have "length (dents kernel1) = 5"
    by (simp add: kernel1_def)
  then show ?thesis
    by (auto simp: kernel4_def fun_eq_iff)
qed

lemma kernel4_fields [simp]: "iobj kernel4 = iobj kernel1" "dhash kernel4 = [4, 3, 2, 1]" "rroot_dentry kernel4 = Some 0"
  by (simp_all add: kernel4_def kernel1_def set_dentry_def)

lemma ex_dentry_count: "(ex_dentry s n i p cs)\<lparr>d_count := m\<rparr> = ex_dentry s m i p cs"
  by (simp add: ex_dentry_def)

lemma kernel4_ok: "fs_ok kernel4"
proof -
  let ?k2 = "set_dentry 2 (ex_dentry ''a'' 1 (Some 2) 1 []) kernel1"
  let ?k3 = "set_dentry 3 (ex_dentry ''new'' 0 None 0 []) ?k2"
  have 2: "fs_ok ?k2"
    using fs_ok_set_count [OF kernel1_ok kernel1_dobjs(3), of 1] by (simp add: ex_dentry_count)
  have d: "dobj ?k2 3 = Some (ex_dentry ''new'' 1 None 0 [])" "dobj ?k3 4 = Some (ex_dentry ''e'' 2 (Some 3) 0 [])"
    by simp_all
  have 3: "fs_ok ?k3"
    using fs_ok_set_count [OF 2 d(1), of 0] by (simp add: ex_dentry_count)
  show ?thesis
    using fs_ok_set_count [OF 3 d(2), of 1] by (simp add: ex_dentry_count kernel4_def)
qed

lemma kernel4_kept: "kept kernel4 0 {0, 1, 2, 3, 4}"
  by (simp add: kept_def pinned_def kernel4_dobj)

lemma kernel4_users: "users kernel4 2 = {2}"
  by (auto simp: users_def kernel4_dobj bind_eq_Some_conv kernel1_dobj split: if_splits)

theorem umount_frees_tree_witness:
  "\<exists>k'. wjfs_kill_sb 0 (Some 0) kernel4 = Ok k' \<and> fs_ok k' \<and> dobj k' 2 = None \<and> iobj k' 2 = None \<and> dhash k' = []"
proof -
  obtain k' where k': "wjfs_kill_sb 0 (Some 0) kernel4 = Ok k'" "fs_ok k'"
      "dobj k' = (\<lambda>d. if d \<in> {0, 1, 2, 3, 4} then None else dobj kernel4 d)"
      "dhash k' = filter (\<lambda>d. d \<notin> {0, 1, 2, 3, 4}) (dhash kernel4)"
    and gone: "\<forall>i z. iobj kernel4 i = Some z \<and> users kernel4 i \<noteq> {} \<and> users kernel4 i \<subseteq> {0, 1, 2, 3, 4} \<and>
      unat (i_count z) = card (users kernel4 i) \<longrightarrow> iobj k' i = None"
    using umount_frees_tree [OF kernel4_ok kernel4_kept, of 0] by blast
  have "iobj k' 2 = None"
    using gone by (simp add: kernel4_users)
  then show ?thesis
    using k' by simp
qed

end
