(* ===== verification/Mount.thy ===== *)
theory Mount
  imports Umount
begin

text \<open>
  Mounting: what \<open>wjfs_fill_super\<close> leaves behind when it succeeds, and when it fails.
\<close>

unbundle bit_operations_syntax

section \<open>The options\<close>

lemma match_octal_frame: "match_octal sub k = Ok (v, k') \<Longrightarrow> k' = k\<lparr>mem_no := Suc (mem_no k)\<rparr>"
  by (auto simp: match_octal_def match_number_def kmem_alloc_def Let_def split: bool.splits)

lemma octal_mode: "(ucast (w AND S_IALLUGO) :: u16) AND S_IFMT = 0"
  by (simp add: S_IALLUGO_def S_IFMT_def unsigned_and_eq and.assoc)

text \<open>Reading the options allocates, and only ever sets permission bits.\<close>

lemma parse_options_loop_frame:
  "parse_options_loop data mode k = Ok (err, m, k') \<Longrightarrow> mode AND S_IFMT = 0 \<Longrightarrow> m AND S_IFMT = 0 \<and> (\<exists>n. k' = k\<lparr>mem_no := n\<rparr>)"
proof (induction data mode k rule: parse_options_loop.induct)
  case (1 data mode k)
  obtain p data' where sep: "strsep data {CHR '',''} = Ok (p, data')"
    using 1(4) by (subst (asm) parse_options_loop.simps) auto
  show ?case
  proof (cases p)
    case None
    have "k' = k\<lparr>mem_no := mem_no k\<rparr>" "m = mode"
      using 1(4) sep None by (subst (asm) parse_options_loop.simps, simp)+
    then show ?thesis
      using 1(5) by blast
  next
    case (Some p')
    obtain c where c: "aread p' 0 = Ok c"
      using 1(4) sep Some by (subst (asm) parse_options_loop.simps) auto
    show ?thesis
    proof (cases "c = NUL")
      case True
      have "parse_options_loop data' mode k = Ok (err, m, k')"
        using 1(4) sep Some c True by (subst (asm) parse_options_loop.simps) simp
      then show ?thesis
        using 1(1) 1(5) sep Some c True by blast
    next
      case False
      obtain token args where tok: "match_token p' tokens = Ok (token, args)"
        using 1(4) sep Some c False by (subst (asm) parse_options_loop.simps) auto
      show ?thesis
      proof (cases token)
        case Opt_err
        have "parse_options_loop data' mode k = Ok (err, m, k')"
          using 1(4) sep Some c False tok Opt_err by (subst (asm) parse_options_loop.simps) simp
        then show ?thesis
          using 1(3) 1(5) sep Some c False tok Opt_err by blast
      next
        case Opt_mode
        obtain sub v k1 where sub: "aread args 0 = Ok sub" "match_octal sub k = Ok (v, k1)"
          using 1(4) sep Some c False tok Opt_mode by (subst (asm) parse_options_loop.simps) auto
        note k1 = match_octal_frame [OF sub(2)]
        show ?thesis
        proof (cases v)
          case (Inl e)
          have "k' = k1" "m = mode"
            using 1(4) sep Some c False tok Opt_mode sub Inl by (subst (asm) parse_options_loop.simps, simp)+
          then show ?thesis
            using k1 1(5) by blast
        next
          case (Inr w)
          have "parse_options_loop data' (ucast (w AND S_IALLUGO)) k1 = Ok (err, m, k')"
            using 1(4) sep Some c False tok Opt_mode sub Inr by (subst (asm) parse_options_loop.simps) simp
          then obtain n where "k' = k1\<lparr>mem_no := n\<rparr>" "m AND S_IFMT = 0"
            using 1(2) octal_mode sep Some c False tok Opt_mode sub Inr by blast
          then show ?thesis
            using k1 by auto
        qed
      qed
    qed
  qed
qed

section \<open>A new root\<close>

definition root_dentry :: "addr \<Rightarrow> addr \<Rightarrow> dentry" where
  "root_dentry d i = \<lparr>d_count = 1, d_name = ''/'' @ [NUL], d_len = 1, d_inode = Some i, d_parent = d, d_subdirs = [],
     d_op_delete = False\<rparr>"

definition with_root :: "inode \<Rightarrow> kernel \<Rightarrow> kernel" where
  "with_root z k = k\<lparr>inodes := inodes k @ [Some z], dents := dents k @ [Some (root_dentry (length (dents k)) (length (inodes k)))]\<rparr>"

lemma with_root_objs:
  "dobj (with_root z k) = (dobj k)(length (dents k) := Some (root_dentry (length (dents k)) (length (inodes k))))"
  "iobj (with_root z k) = (iobj k)(length (inodes k) := Some z)" "dhash (with_root z k) = dhash k"
  by (auto simp: with_root_def fun_eq_iff)

lemma root_dentry_simps [simp]:
  "d_count (root_dentry d i) = 1" "d_name (root_dentry d i) = ''/'' @ [NUL]" "d_len (root_dentry d i) = 1"
  "d_inode (root_dentry d i) = Some i" "d_parent (root_dentry d i) = d" "d_subdirs (root_dentry d i) = []"
  by (simp_all add: root_dentry_def)

lemma with_root_users:
  assumes "fs_ok k"
  shows "users (with_root z k) i = (if i = length (inodes k) then {length (dents k)} else users k i)"
proof -
  have "users k (length (inodes k)) = {}"
    by (rule users_fresh [OF assms]) simp
  then show ?thesis
    by (auto simp: users_def with_root_objs)
qed

lemma fs_ok_with_root:
  assumes "fs_ok k" "i_count z = 1"
  shows "fs_ok (with_root z k)"
proof -
  let ?k = "with_root z k" and ?d = "length (dents k)"
  note D = with_root_objs(1) [of z k] and t = fs_okD(1) [OF assms(1)]
  have out: "?d \<notin> set (d_subdirs y)" "d_parent y \<noteq> ?d" if "dobj k e = Some y" for e y
    using that children_okD(2) [OF tree_okD(1) [OF t] that, of ?d] parents_okD [OF tree_okD(2) [OF t] that] by auto
  have "children_ok ?k"
    using tree_okD(1) [OF t] out unfolding children_ok_def D by auto
  moreover have "parents_ok ?k"
    using tree_okD(2) [OF t] out unfolding parents_ok_def D by auto
  moreover obtain h where "ranked h k"
    using tree_okD(3) [OF t] by blast
  then have "ranked h ?k"
    unfolding ranked_def D by auto
  moreover have "inodes_ok ?k"
    using tree_okD(4) [OF t] unfolding inodes_ok_def D with_root_objs(2) by auto
  moreover have "names_ok ?k"
    using tree_okD(5) [OF t] unfolding names_ok_def D by (auto simp: holds_def cstring_def)
  moreover have "hash_ok ?k"
    using tree_okD(6) [OF t] unfolding hash_ok_def D with_root_objs(3) by auto
  moreover have "refs_ok ?k"
    using fs_okD(2) [OF assms(1)] unfolding refs_ok_def D by auto
  moreover have "irefs_ok ?k"
    using fs_okD(3) [OF assms(1)] assms(2) unfolding irefs_ok_def with_root_users [OF assms(1)] with_root_objs(2) by auto
  ultimately show ?thesis
    by (auto simp: fs_ok_def tree_ok_def)
qed

section \<open>Mounting\<close>

text \<open>A mount that succeeds makes a root, sets the globals and empties the table.\<close>

definition mounted :: "nat \<Rightarrow> inode \<Rightarrow> nat \<Rightarrow> kernel \<Rightarrow> kernel" where
  "mounted sb z n k = (with_root z k)\<lparr>mem_no := n, last_ino := last_ino k + 1, rroot_sb := Some sb,
     rroot_dentry := Some (length (dents k)), rroot_inode := Some (length (inodes k)),
     reg_ino_mapp_table := table_reset (reg_ino_mapp_table k)\<rparr>"

lemma d_alloc_root_eq:
  "d_alloc_root (Some i) k =
    (if mem k (mem_no k)
     then Ok (Some (length (dents k)), k\<lparr>mem_no := Suc (mem_no k), dents := dents k @ [Some (root_dentry (length (dents k)) i)]\<rparr>)
     else Ok (None, k\<lparr>mem_no := Suc (mem_no k)\<rparr>))"
proof (cases "mem k (mem_no k)")
  case True
  let ?k = "k\<lparr>mem_no := Suc (mem_no k)\<rparr>" and ?d = "length (dents k)"
  let ?new = "\<lparr>d_count = 1, d_name = ''/'' @ [NUL], d_len = 1, d_inode = None, d_parent = ?d, d_subdirs = [], d_op_delete = False\<rparr>"
  have "memcpy (replicate (Suc 1) NUL) (''/'' @ [NUL]) 1 = Ok (''/'' @ [NUL])"
    by (rule memcpy_name) simp_all
  then have "d_alloc None (''/'' @ [NUL]) 1 k = Ok (Some ?d, ?k\<lparr>dents := dents k @ [Some ?new]\<rparr>)"
    using True by (simp add: d_alloc_def kmem_alloc_def DNAME_INLINE_LEN_def d_init_def Let_def del: replicate.simps)
  then show ?thesis
    using True by (simp add: d_alloc_root_def d_instantiate_def dentry_at_Some set_dentry_def root_dentry_def)
next
  case False
  then show ?thesis
    by (simp add: d_alloc_root_def d_alloc_def kmem_alloc_def)
qed

lemma dir_mode:
  assumes "m AND S_IFMT = 0"
  shows "(ucast (ucast (S_IFDIR OR m) :: u32) :: u16) AND S_IFMT = S_IFDIR"
proof -
  have "(ucast (ucast (S_IFDIR OR m) :: u32) :: u16) = S_IFDIR OR m"
    by (auto simp: bit_eq_iff bit_unsigned_iff bit_or_iff dest: bit_imp_le_length)
  then have "(ucast (ucast (S_IFDIR OR m) :: u32) :: u16) AND S_IFMT = S_IFDIR AND S_IFMT OR m AND S_IFMT"
    by (simp only: bit.conj_disj_distrib2)
  then show ?thesis
    using assms by (simp add: S_IFMT_def S_IFDIR_def)
qed

lemma fill_super_fail_code: "fill_super_fail r err k = Ok (e, k') \<Longrightarrow> e = err"
  by (auto simp: fill_super_fail_def)

lemma fill_super_ok:
  assumes "wjfs_fill_super garbage sb data k = Ok (0, k')"
  shows "\<exists>n z. k' = mounted sb z n k \<and> i_count z = 1 \<and> i_ops z = DirOps \<and> S_ISDIR (i_mode z) \<and> \<not> i_dead z \<and> i_sb z = sb \<and>
    i_ino z = last_ino k + 1"
proof -
  define n1 where "n1 = (if data = None then mem_no k else Suc (mem_no k))"
  let ?k1 = "k\<lparr>mem_no := n1\<rparr>" and ?k2 = "k\<lparr>mem_no := Suc n1\<rparr>"
  have k1: "(if data = None then k else snd (kmem_alloc k)) = ?k1"
    by (simp add: n1_def kmem_alloc_def)
  note run = assms [unfolded wjfs_fill_super_def k1 Let_def]
  have "mem k n1"
  proof (rule ccontr)
    assume "\<not> mem k n1"
    then show False
      using run by (auto simp: kmem_alloc_def ENOMEM_def dest!: fill_super_fail_code)
  qed
  then obtain err mode k3 where p: "wjfs_parse_options data ?k2 = Ok (err, mode, k3)"
    using run by (auto simp: kmem_alloc_def)
  have err: "err = 0"
    using run \<open>mem k n1\<close> p by (auto simp: kmem_alloc_def dest!: fill_super_fail_code split: if_splits)
  have "RAMFS_DEFAULT_MODE AND S_IFMT = 0"
    by (simp add: RAMFS_DEFAULT_MODE_def S_IFMT_def)
  then obtain n3 where m: "mode AND S_IFMT = 0" and k3: "k3 = k\<lparr>mem_no := n3\<rparr>"
    using parse_options_loop_frame [OF p [unfolded wjfs_parse_options_def]] by auto
  define z where "z = fresh_inode sb (ucast (S_IFDIR OR mode)) 0 k3"
  have i: "mem k n3"
  proof (rule ccontr)
    assume "\<not> mem k n3"
    then show False
      using run \<open>mem k n1\<close> p err
      by (auto simp: kmem_alloc_def wjfs_get_inode_eq k3 ENOMEM_def dest!: fill_super_fail_code)
  qed
  then have get: "wjfs_get_inode sb (ucast (S_IFDIR OR mode)) 0 k3 = Ok (Some (length (inodes k)), with_inode z k3)"
    by (simp add: wjfs_get_inode_eq k3 z_def)
  have d: "mem k (Suc n3)"
  proof (rule ccontr)
    assume "\<not> mem k (Suc n3)"
    then have "d_alloc_root (Some (length (inodes k))) (with_inode z k3) =
        Ok (None, (with_inode z k3)\<lparr>mem_no := Suc (Suc n3)\<rparr>)"
      by (simp add: d_alloc_root_eq with_inode_def k3)
    then show False
      using run \<open>mem k n1\<close> p err get by (auto simp: kmem_alloc_def ENOMEM_def dest!: fill_super_fail_code)
  qed
  have root: "d_alloc_root (Some (length (inodes k))) (with_inode z k3) = Ok (Some (length (dents k)),
      (with_inode z k3)\<lparr>mem_no := Suc (Suc n3), dents := dents k @ [Some (root_dentry (length (dents k)) (length (inodes k)))]\<rparr>)"
    using d by (simp add: d_alloc_root_eq with_inode_def k3)
  have "k' = mounted sb z (Suc (Suc n3)) k"
    using run \<open>mem k n1\<close> p err get root by (cases k) (auto simp: kmem_alloc_def mounted_def with_root_def with_inode_def k3)
  moreover have "S_ISDIR (i_mode z)" "i_ops z = DirOps"
    using dir_mode [OF m] by (simp_all add: z_def fresh_inode_def S_ISDIR_def type_ops_def Let_def S_IFDIR_def S_IFREG_def)
  ultimately show ?thesis
    by (intro exI [of _ "Suc (Suc n3)"] exI [of _ z]) (simp add: z_def fresh_inode_def k3 Let_def)
qed

lemma fill_super_succeeds:
  assumes "\<forall>n. mem k n"
  shows "\<exists>k'. wjfs_fill_super garbage sb None k = Ok (0, k')"
proof -
  have "wjfs_parse_options None k1 = Ok (0, RAMFS_DEFAULT_MODE, k1)" for k1
    by (simp add: wjfs_parse_options_def parse_options_loop.simps strsep_def)
  then show ?thesis
    using assms
    by (simp add: wjfs_fill_super_def kmem_alloc_def wjfs_get_inode_eq d_alloc_root_eq with_inode_def dentry_at_Some)
qed

lemma mounted_kept:
  assumes "fs_ok k" "i_count z = 1"
  shows "fs_ok (mounted sb z n k)" "kept (mounted sb z n k) (length (dents k)) {length (dents k)}"
    "dobj (mounted sb z n k) = (dobj k)(length (dents k) := Some (root_dentry (length (dents k)) (length (inodes k))))"
    "iobj (mounted sb z n k) = (iobj k)(length (inodes k) := Some z)"
proof -
  have fields: "dents (mounted sb z n k) = dents (with_root z k)" "inodes (mounted sb z n k) = inodes (with_root z k)"
      "dhash (mounted sb z n k) = dhash (with_root z k)"
    by (simp_all add: mounted_def)
  show "fs_ok (mounted sb z n k)"
    by (rule fs_ok_cong [OF fs_ok_with_root [OF assms] fields])
  show "kept (mounted sb z n k) (length (dents k)) {length (dents k)}"
    by (simp add: kept_def fields with_root_objs)
  show "dobj (mounted sb z n k) = (dobj k)(length (dents k) := Some (root_dentry (length (dents k)) (length (inodes k))))"
    "iobj (mounted sb z n k) = (iobj k)(length (inodes k) := Some z)"
    unfolding fields by (rule with_root_objs)+
qed

text \<open>
  C36.  Mounting: with memory a mount without options succeeds, and every mount that succeeds
  makes one dentry \<open>/\<close> with one reference and one inode, a directory, points the globals at
  them, empties the table of registrations, and changes no other object; the invariant holds
  and the new root can be unmounted.
\<close>

theorem mount_makes_root:
  assumes "fs_ok k" "table_ok (reg_ino_mapp_table k)"
  shows "((\<forall>n. mem k n) \<longrightarrow> (\<exists>k'. wjfs_fill_super garbage sb None k = Ok (0, k'))) \<and>
    (\<forall>k'. wjfs_fill_super garbage sb data k = Ok (0, k') \<longrightarrow>
      fs_ok k' \<and> kept k' (length (dents k)) {length (dents k)} \<and>
      dobj k' = (dobj k)(length (dents k) := Some (root_dentry (length (dents k)) (length (inodes k)))) \<and>
      (\<exists>z. iobj k' = (iobj k)(length (inodes k) := Some z) \<and> S_ISDIR (i_mode z) \<and> i_ops z = DirOps \<and> i_sb z = sb) \<and>
      rroot_sb k' = Some sb \<and> rroot_dentry k' = Some (length (dents k)) \<and> rroot_inode k' = Some (length (inodes k)) \<and>
      table_ok (reg_ino_mapp_table k') \<and> regs (reg_ino_mapp_table k') = {#})"
proof (intro conjI impI allI)
  show "\<exists>k'. wjfs_fill_super garbage sb None k = Ok (0, k')" if "\<forall>n. mem k n"
    using that by (rule fill_super_succeeds)
  fix k' assume "wjfs_fill_super garbage sb data k = Ok (0, k')"
  then obtain n z where k': "k' = mounted sb z n k" and z: "i_count z = 1" "i_ops z = DirOps" "S_ISDIR (i_mode z)" "i_sb z = sb"
    using fill_super_ok by blast
  note m = mounted_kept [OF assms(1) z(1), of sb n]
  show "fs_ok k'" "kept k' (length (dents k)) {length (dents k)}"
    "dobj k' = (dobj k)(length (dents k) := Some (root_dentry (length (dents k)) (length (inodes k))))"
    "\<exists>z. iobj k' = (iobj k)(length (inodes k) := Some z) \<and> S_ISDIR (i_mode z) \<and> i_ops z = DirOps \<and> i_sb z = sb"
    unfolding k' using m z by auto
  show "rroot_sb k' = Some sb" "rroot_dentry k' = Some (length (dents k))" "rroot_inode k' = Some (length (inodes k))"
    by (simp_all add: k' mounted_def)
  show "table_ok (reg_ino_mapp_table k')" "regs (reg_ino_mapp_table k') = {#}"
    using tab.reset [OF assms(2)] by (simp_all add: k' mounted_def)
qed

lemma kernel0_ok: "fs_ok kernel0"
  by (simp add: fs_ok_def tree_ok_def children_ok_def parents_ok_def ranked_def inodes_ok_def names_ok_def hash_ok_def
      refs_ok_def irefs_ok_def kernel0_def)

lemma kernel0_fields [simp]: "dents kernel0 = []" "inodes kernel0 = []" "mem kernel0 n" "reg_ino_mapp_table kernel0 = blank_table"
  by (simp_all add: kernel0_def)

theorem mount_makes_root_witness:
  "\<exists>k'. wjfs_fill_super None 0 None kernel0 = Ok (0, k') \<and> fs_ok k' \<and> dobj k' 0 = Some (root_dentry 0 0) \<and>
    rroot_dentry k' = Some 0"
proof -
  have t: "table_ok (reg_ino_mapp_table kernel0)"
    by (simp add: blank_table_ok)
  obtain k' where "wjfs_fill_super None 0 None kernel0 = Ok (0, k')"
    using mount_makes_root [OF kernel0_ok t, of None 0 None] by auto
  then show ?thesis
    using mount_makes_root [OF kernel0_ok t, of None 0 None] by auto
qed

section \<open>A mount that fails\<close>

text \<open>
  C37.  When the first allocation fails, \<open>wjfs_fill_super\<close> passes the uninitialised variable
  \<open>root_inode\<close> to \<open>iput\<close>.  If it happens to point at no inode the kernel reads freed memory;
  if it points at an inode whose last reference belongs to a dentry, the mount returns
  \<open>- ENOMEM\<close> and has freed the inode under that dentry.
\<close>

theorem mount_failure_uses_garbage:
  assumes "fs_ok k" "\<not> mem k (mem_no k)"
  shows "(iobj k i = None \<longrightarrow> wjfs_fill_super (Some i) sb None k = Fault BadPointer) \<and>
    (\<forall>d x z. dobj k d = Some x \<and> d_inode x = Some i \<and> iobj k i = Some z \<and> i_count z = 1 \<longrightarrow>
      (\<exists>k'. wjfs_fill_super (Some i) sb None k = Ok (- ENOMEM, k') \<and> dobj k' d = Some x \<and> iobj k' i = None \<and> \<not> fs_ok k'))"
proof (intro conjI impI allI)
  have fail: "wjfs_fill_super (Some i) sb None k = fill_super_fail (Some i) (- ENOMEM) (k\<lparr>mem_no := Suc (mem_no k)\<rparr>)"
    using assms(2) by (simp add: wjfs_fill_super_def kmem_alloc_def)
  show "wjfs_fill_super (Some i) sb None k = Fault BadPointer" if "iobj k i = None"
    using that by (simp add: fail fill_super_fail_def iput_def inode_at_def sget_def)
  fix d x z assume a: "dobj k d = Some x \<and> d_inode x = Some i \<and> iobj k i = Some z \<and> i_count z = 1"
  let ?k = "generic_delete_inode i (k\<lparr>mem_no := Suc (mem_no k)\<rparr>)"
  have "wjfs_fill_super (Some i) sb None k = Ok (- ENOMEM, ?k)"
    using a by (simp add: fail fill_super_fail_def iput_def inode_at_Some)
  moreover have "iobj ?k i = None" "dobj ?k d = Some x"
    using a by (simp_all add: generic_delete_inode_def obj_fun_upd)
  moreover from this have "\<not> fs_ok ?k"
    using a inodes_okD [OF tree_okD(4) [OF fs_okD(1)], of ?k d x i] by auto
  ultimately show "\<exists>k'. wjfs_fill_super (Some i) sb None k = Ok (- ENOMEM, k') \<and> dobj k' d = Some x \<and> iobj k' i = None \<and> \<not> fs_ok k'"
    by blast
qed

theorem mount_failure_uses_garbage_witness:
  "\<exists>k'. wjfs_fill_super (Some 2) 1 None (kernel4\<lparr>mem := \<lambda>_. False\<rparr>) = Ok (- ENOMEM, k') \<and> iobj k' 2 = None \<and> \<not> fs_ok k'"
proof -
  let ?k = "kernel4\<lparr>mem := \<lambda>_. False\<rparr>"
  have ok: "fs_ok ?k" "\<not> mem ?k (mem_no ?k)"
    using fs_ok_cong [OF kernel4_ok] by auto
  have "dobj ?k 2 = Some (ex_dentry ''a'' 1 (Some 2) 1 [])" "iobj ?k 2 = Some (ex_inode 3 0x81A4 1 FileOps)"
    by (simp_all add: kernel4_dobj)
  then show ?thesis
    using mount_failure_uses_garbage [OF ok, of 2 1] by fastforce
qed

end
