(* ===== verification/Lifetime.thy ===== *)
theory Lifetime
  imports Mount FileServing
begin

text \<open>
  The life of a mounted wjfs: \<open>wjfs_fill_super\<close> makes the root, the server handles any
  number of requests, and \<open>wjfs_kill_sb\<close> takes the tree apart.  The invariant \<open>serving\<close> says
  that every dentry and inode made since the mount belongs to the tree and is kept by its own
  reference only; it holds after mounting, every request keeps it, and unmounting from it
  gives back everything.
\<close>

section \<open>The invariant\<close>

text \<open>
  The dentries \<open>D0\<close> and inodes \<open>I0\<close> of the machine before the mount are untouched, and all
  others belong to the tree \<open>T\<close>.
\<close>

definition owned :: "(addr \<Rightarrow> dentry option) \<Rightarrow> (addr \<Rightarrow> inode option) \<Rightarrow> kernel \<Rightarrow> addr set \<Rightarrow> bool" where
  "owned D0 I0 k T \<longleftrightarrow> (\<forall>d. if d \<in> T then D0 d = None else dobj k d = D0 d) \<and>
     (\<forall>i. if I0 i \<noteq> None then iobj k i = I0 i \<and> users k i \<inter> T = {}
          else \<forall>z. iobj k i = Some z \<longrightarrow> users k i \<noteq> {} \<and> users k i \<subseteq> T \<and> unat (i_count z) = card (users k i))"

definition serving :: "(addr \<Rightarrow> dentry option) \<Rightarrow> (addr \<Rightarrow> inode option) \<Rightarrow> addr \<Rightarrow> kernel \<Rightarrow> bool" where
  "serving D0 I0 r k \<longleftrightarrow> fs_ok k \<and> rroot_dentry k = Some r \<and> table_ok (reg_ino_mapp_table k) \<and>
     (\<exists>T. kept k r T \<and> owned D0 I0 k T)"

lemma ownedD:
  assumes "owned D0 I0 k T"
  shows "d \<in> T \<Longrightarrow> D0 d = None" "d \<notin> T \<Longrightarrow> dobj k d = D0 d"
    "I0 i \<noteq> None \<Longrightarrow> iobj k i = I0 i \<and> users k i \<inter> T = {}"
    "I0 i = None \<Longrightarrow> iobj k i = Some z \<Longrightarrow> users k i \<noteq> {} \<and> users k i \<subseteq> T \<and> unat (i_count z) = card (users k i)"
  using assms by (auto simp: owned_def)

lemma owned_inode:
  assumes "owned D0 I0 k T" "d \<in> T" "dobj k d = Some x" "d_inode x = Some i"
  shows "I0 i = None"
  using ownedD(3) [OF assms(1), of i] usersI [OF assms(3,4)] assms(2) by blast

lemma kept_reaches:
  assumes "reaches k d a" "kept k r T" "d \<in> T"
  shows "a \<in> T"
  using assms
proof (induction rule: reaches.induct)
  case (child d x c)
  then show ?case
    using keptD(2) [OF child.prems] by auto
next
  case (below d x c a)
  then show ?case
    using keptD(2) [OF below.prems] by auto
qed

lemma pinned_same:
  "(d \<in> set (dhash k') \<longleftrightarrow> d \<in> set (dhash k)) \<Longrightarrow> Option.bind (dobj k' d) d_inode = Option.bind (dobj k d) d_inode \<Longrightarrow>
    pinned k' d \<longleftrightarrow> pinned k d"
  by (simp add: pinned_def)

section \<open>A request to create\<close>

lemma kept_link:
  assumes k: "fs_ok k" "kept k r T" and p: "p \<in> T" "dobj k p = Some px" "d_count px \<noteq> 0" "unat (d_count px) + 1 < 2 ^ 32"
    and D: "dobj k' = (dobj k)(p := Some (with_child (length (dents k)) px), length (dents k) := Some (link_dentry p s j))"
    and H: "dhash k' = length (dents k) # dhash k"
  shows "kept k' r (insert (length (dents k)) T)"
proof -
  let ?c = "length (dents k)"
  have c: "?c \<notin> T" "?c \<noteq> p"
    using keptD(2) [OF k(2), of ?c] p by auto
  have pin: "pinned k' d \<longleftrightarrow> pinned k d" if "d \<noteq> ?c" for d
    using that p(2) by (intro pinned_same) (auto simp: H D with_child_def)
  have new: "pinned k' ?c"
    by (simp add: pinned_def H D link_dentry_def)
  have inc: "unat (d_count px + 1) = unat (d_count px) + 1"
    using p(4) by (simp add: unat_add_lem [THEN iffD1])
  have "\<exists>x. dobj k' d = Some x \<and> set (d_subdirs x) \<subseteq> insert ?c T \<and> d_parent x \<in> insert ?c T \<and> (d_parent x = d \<longleftrightarrow> d = r) \<and>
      (d \<noteq> r \<and> \<not> pinned k' d \<longrightarrow> d_subdirs x = []) \<and>
      unat (d_count x) = length (d_subdirs x) + (if d = r \<or> pinned k' d then 1 else 0)" if d: "d \<in> insert ?c T" for d
  proof -
    consider "d = ?c" | "d = p" | "d \<in> T" "d \<noteq> ?c" "d \<noteq> p"
      using d by blast
    then show ?thesis
    proof cases
      case 1
      then show ?thesis
        using new p(1) c keptD(1) [OF k(2)] by (auto simp: D link_dentry_def)
    next
      case 2
      obtain x where "px = x" "set (d_subdirs x) \<subseteq> T" "d_parent x \<in> T" "d_parent x = p \<longleftrightarrow> p = r"
          "p \<noteq> r \<and> \<not> pinned k p \<longrightarrow> d_subdirs x = []"
          "unat (d_count x) = length (d_subdirs x) + (if p = r \<or> pinned k p then 1 else 0)"
        using keptD(2) [OF k(2) p(1)] p(2) by auto
      moreover from this have "p = r \<or> pinned k p"
        using p(3) by (auto simp: unat_eq_0)
      ultimately show ?thesis
        using 2 c pin [of p] inc by (auto simp: D with_child_def)
    next
      case 3
      then show ?thesis
        using keptD(2) [OF k(2) 3(1)] pin [of d] by (auto simp: D)
    qed
  qed
  then show ?thesis
    using keptD(1) [OF k(2)] by (simp add: kept_def)
qed

lemma users_link:
  assumes "dobj k p = Some px" "users k j = {}"
    and "dobj k' = (dobj k)(p := Some (with_child c px), c := Some (link_dentry p s j))" "dobj k c = None"
  shows "users k' i = (if i = j then {c} else users k i)"
proof -
  have "c \<noteq> p"
    using assms(1,4) by auto
  then have "Option.bind (dobj k' d) d_inode = (if d = c then Some j else Option.bind (dobj k d) d_inode)" for d
    using assms(1,3) by (simp add: link_dentry_def with_child_def)
  then show ?thesis
    using assms(2,4) by (auto simp: users_def)
qed

lemma owned_link:
  assumes k: "fs_ok k" "owned D0 I0 k T" and p: "p \<in> T" "dobj k p = Some px" "d_inode px = Some dir" "iobj k dir = Some dx"
    and D: "dobj k' = (dobj k)(p := Some (with_child (length (dents k)) px),
      length (dents k) := Some (link_dentry p s (length (inodes k))))"
    and I: "iobj k' = (iobj k)(dir := Some dx', length (inodes k) := Some z)" "i_count dx' = i_count dx" "i_count z = 1"
  shows "owned D0 I0 k' (insert (length (dents k)) T)"
proof -
  let ?c = "length (dents k)" and ?j = "length (inodes k)"
  have c: "dobj k ?c = None" "?c \<notin> users k i" for i
    by (simp_all add: users_def)
  have uj: "users k ?j = {}"
    by (rule users_fresh [OF k(1)]) simp
  note u = users_link [OF p(2) uj D c(1)]
  have d0: "I0 dir = None"
    by (rule owned_inode [OF k(2) p(1,2,3)])
  have j0: "I0 ?j = None"
    using ownedD(3) [OF k(2), of ?j] by (cases "I0 ?j") auto
  have cT: "?c \<notin> T \<Longrightarrow> D0 ?c = None"
    using ownedD(2) [OF k(2), of ?c] c(1) by auto
  have "if d \<in> insert ?c T then D0 d = None else dobj k' d = D0 d" for d
    using ownedD(1,2) [OF k(2), of d] cT p(1) by (auto simp: D)
  moreover have "if I0 i \<noteq> None then iobj k' i = I0 i \<and> users k' i \<inter> insert ?c T = {}
      else \<forall>z. iobj k' i = Some z \<longrightarrow> users k' i \<noteq> {} \<and> users k' i \<subseteq> insert ?c T \<and> unat (i_count z) = card (users k' i)" for i
  proof (cases "I0 i")
    case (Some z0)
    then have "i \<noteq> dir" "i \<noteq> ?j"
      using d0 j0 by auto
    then show ?thesis
      using Some ownedD(3) [OF k(2), of i] c(2) [of i] by (simp add: u I(1))
  next
    case None
    show ?thesis
    proof (cases "i = ?j")
      case True
      then show ?thesis
        using None by (simp add: u I(1,3))
    next
      case False
      have "users k i \<noteq> {} \<and> users k i \<subseteq> T \<and> unat (i_count z') = card (users k i)" if "iobj k' i = Some z'" for z'
      proof (cases "i = dir")
        case True
        then show ?thesis
          using that False ownedD(4) [OF k(2) None, of dx] p(4) I(2) by (auto simp: I(1))
      next
        case False
        then show ?thesis
          using that \<open>i \<noteq> ?j\<close> ownedD(4) [OF k(2) None, of z'] by (simp add: I)
      qed
      then show ?thesis
        using None False by (auto simp: u)
    qed
  qed
  ultimately show ?thesis
    by (simp add: owned_def)
qed

lemma serving_create:
  assumes "serving D0 I0 r k" "sendable ino s pino ps" "frame_ok 6 fr" "length s < 16" "holds ip a" "length a < 16"
    and "\<forall>n. mem k n" "candidate k r ps q" "\<forall>p. candidate k r ps p \<longrightarrow> (\<exists>px dir dx. place_free k p px dir dx s)"
    and "size (regs (reg_ino_mapp_table k)) < 1024"
  shows "\<exists>k'. rdma_create fr (entry_request ''CR'' ino s pino ps mode) (Some ip) k = Ok k' \<and> serving D0 I0 r k'"
proof -
  obtain T where T: "fs_ok k" "rroot_dentry k = Some r" "table_ok (reg_ino_mapp_table k)" "kept k r T" "owned D0 I0 k T"
    using assms(1) by (auto simp: serving_def)
  obtain x where x: "dobj k r = Some x"
    using keptD(2) [OF T(4) keptD(1) [OF T(4)]] by blast
  obtain p px dir dx k' z where p: "candidate k r ps p" "place_free k p px dir dx s"
    and run: "rdma_create fr (entry_request ''CR'' ino s pino ps mode) (Some ip) k = Ok k'" "fs_ok k'"
    and D: "dobj k' = (dobj k)(p := Some (with_child (length (dents k)) px),
      length (dents k) := Some (link_dentry p s (length (inodes k))))" and H: "dhash k' = length (dents k) # dhash k"
    and rr: "rroot_dentry k' = rroot_dentry k" and tk: "table_ok (reg_ino_mapp_table k')"
    and I: "iobj k' = (iobj k)(dir := Some (dx\<lparr>i_mtime := clock k, i_ctime := clock k\<rparr>), length (inodes k) := Some z)" "i_count z = 1"
    using rdma_create_ok [OF assms(2-6) T(2) x T(1) assms(7-9) T(3) assms(10), of mode] by blast
  have px: "dobj k p = Some px" "d_inode px = Some dir" "iobj k dir = Some dx" "d_count px \<noteq> 0" "unat (d_count px) + 1 < 2 ^ 32"
    using p(2) by (auto simp: place_free_def searchable_def)
  have pT: "p \<in> T"
    using p(1) keptD(1) [OF T(4)] kept_reaches [OF _ T(4)] by (auto simp: candidate_def)
  have "kept k' r (insert (length (dents k)) T)"
    by (rule kept_link [OF T(1,4) pT px(1,4,5) D H])
  moreover have "owned D0 I0 k' (insert (length (dents k)) T)"
    by (rule owned_link [OF T(1,5) pT px(1-3) D I(1) _ I(2)]) simp
  ultimately show ?thesis
    using run rr tk T(2) by (auto simp: serving_def)
qed

section \<open>A request to remove\<close>

lemma kept_unlink:
  assumes t: "tree_ok k" and kp: "kept k r T" and d: "d \<in> T" "dobj k d = Some x" "d_subdirs x = []" "d_parent x \<noteq> d"
    and p: "dobj k (d_parent x) = Some px"
    and D: "dobj k' = (dobj k)(d := None,
      d_parent x := Some (px\<lparr>d_subdirs := filter (\<lambda>c. c \<noteq> d) (d_subdirs px), d_count := d_count px - 1\<rparr>))"
    and H: "dhash k' = filter (\<lambda>e. e \<noteq> d) (dhash k)"
  shows "kept k' r (T - {d})"
proof -
  let ?p = "d_parent x"
  have dr: "d \<noteq> r" and pT: "?p \<in> T"
    using keptD(2) [OF kp d(1)] d by auto
  have din: "d \<in> set (d_subdirs px)"
    using parent_child [OF t d(2) refl p] d(4) by simp
  have pin: "pinned k' e \<longleftrightarrow> pinned k e" if "e \<noteq> d" for e
    using that p by (intro pinned_same) (auto simp: H D)
  have "\<exists>y. dobj k' e = Some y \<and> set (d_subdirs y) \<subseteq> T - {d} \<and> d_parent y \<in> T - {d} \<and> (d_parent y = e \<longleftrightarrow> e = r) \<and>
      (e \<noteq> r \<and> \<not> pinned k' e \<longrightarrow> d_subdirs y = []) \<and>
      unat (d_count y) = length (d_subdirs y) + (if e = r \<or> pinned k' e then 1 else 0)" if e: "e \<in> T - {d}" for e
  proof -
    obtain y where y: "dobj k e = Some y" "set (d_subdirs y) \<subseteq> T" "d_parent y \<in> T" "d_parent y = e \<longleftrightarrow> e = r"
        "e \<noteq> r \<and> \<not> pinned k e \<longrightarrow> d_subdirs y = []"
        "unat (d_count y) = length (d_subdirs y) + (if e = r \<or> pinned k e then 1 else 0)"
      using keptD(2) [OF kp, of e] e by auto
    have up: "d_parent y \<noteq> d"
      using parent_child [OF t y(1) _ d(2)] d(3) e by auto
    show ?thesis
    proof (cases "e = ?p")
      case True
      then have px: "px = y"
        using p y(1) by simp
      then have n0: "d_subdirs y \<noteq> []"
        using din by auto
      then have "unat (d_count y - 1) = unat (d_count y) - 1"
        using y(6) by (intro unat_minus_one) auto
      then show ?thesis
        using True y up pin [of e] e px din n0 filter_delete [OF children_okD(1) [OF tree_okD(1) [OF t] y(1)], of d]
        by (auto simp: D Suc_diff_1)
    next
      case False
      then have "d \<notin> set (d_subdirs y)"
        using child_parent [OF t y(1) _ d(2)] by auto
      then show ?thesis
        using False y up pin [of e] e by (auto simp: D)
    qed
  qed
  then show ?thesis
    using keptD(1) [OF kp] dr by (auto simp: kept_def)
qed

lemma owned_unlink:
  assumes ow: "owned D0 I0 k T" and d: "d \<in> T" "dobj k d = Some x" "d_inode x = Some i" "d_parent x \<in> T" "d_parent x \<noteq> d"
    and p: "dobj k (d_parent x) = Some px" "d_inode px = Some dir" "iobj k dir = Some dx"
    and D: "dobj k' = (dobj k)(d := None,
      d_parent x := Some (px\<lparr>d_subdirs := filter (\<lambda>c. c \<noteq> d) (d_subdirs px), d_count := d_count px - 1\<rparr>))"
    and I: "iobj k' = (iobj k)(i := None, dir := Some dx')" "i_count dx' = i_count dx" "i \<noteq> dir"
  shows "owned D0 I0 k' (T - {d})"
proof -
  have bind: "Option.bind (dobj k' e) d_inode = (if e = d then None else Option.bind (dobj k e) d_inode)" for e
    using p(1) d(5) by (simp add: D)
  have u: "users k' j = users k j - {d}" for j
    by (auto simp: users_def bind)
  have other: "d \<notin> users k j" if "j \<noteq> i" for j
    using d(2,3) that by (simp add: users_def)
  have i0: "I0 i = None" and dir0: "I0 dir = None"
    using owned_inode [OF ow d(1,2,3)] owned_inode [OF ow d(4) p(1,2)] by auto
  have "if e \<in> T - {d} then D0 e = None else dobj k' e = D0 e" for e
    using ownedD(1,2) [OF ow, of e] d(1,4,5) by (auto simp: D)
  moreover have "if I0 j \<noteq> None then iobj k' j = I0 j \<and> users k' j \<inter> (T - {d}) = {}
      else \<forall>z. iobj k' j = Some z \<longrightarrow> users k' j \<noteq> {} \<and> users k' j \<subseteq> T - {d} \<and> unat (i_count z) = card (users k' j)" for j
  proof (cases "I0 j")
    case (Some z0)
    then show ?thesis
      using ownedD(3) [OF ow, of j] i0 dir0 by (auto simp: I(1) u)
  next
    case None
    have "users k j \<noteq> {} \<and> users k j \<subseteq> T \<and> unat (i_count z) = card (users k j)" "j \<noteq> i" if "iobj k' j = Some z" for z
    proof -
      show "j \<noteq> i"
        using that I(3) by (auto simp: I(1))
      then show "users k j \<noteq> {} \<and> users k j \<subseteq> T \<and> unat (i_count z) = card (users k j)"
        using that ownedD(4) [OF ow None] p(3) I(2) by (auto simp: I(1) split: if_splits)
    qed
    then show ?thesis
      using None other [of j] by (auto simp: u)
  qed
  ultimately show ?thesis
    by (simp add: owned_def)
qed

lemma serving_remove:
  assumes "serving D0 I0 r k" "sendable ino s pino ps" "frame_ok 6 fr"
    and "g \<in># regs (reg_ino_mapp_table k)" "r_remote g = (ino, pino)"
    and "\<forall>h. h \<in># regs (reg_ino_mapp_table k) \<and> r_remote h = (ino, pino) \<longrightarrow> h = g"
    and "reaches k r e" "ino_of k e = Some (fst (r_local g))"
    and "\<forall>d. reaches k r d \<and> ino_of k d = Some (fst (r_local g)) \<longrightarrow> (\<exists>x px dir dx i z. link_at k d x px dir dx i z)"
  shows "\<exists>k'. rdma_remove fr (entry_request ''RM'' ino s pino ps mode) k = Ok k' \<and> serving D0 I0 r k'"
proof -
  obtain T where T: "fs_ok k" "rroot_dentry k = Some r" "table_ok (reg_ino_mapp_table k)" "kept k r T" "owned D0 I0 k T"
    using assms(1) by (auto simp: serving_def)
  have r: "dobj k r \<noteq> None"
    using keptD(2) [OF T(4) keptD(1) [OF T(4)]] by auto
  obtain d x px dir dx i z k' n where d: "reaches k r d" "link_at k d x px dir dx i z"
    and run: "rdma_remove fr (entry_request ''RM'' ino s pino ps mode) k = Ok k'" "fs_ok k'"
    and D: "dobj k' = (dobj k)(d := None,
      d_parent x := Some (px\<lparr>d_subdirs := filter (\<lambda>c. c \<noteq> d) (d_subdirs px), d_count := d_count px - 1\<rparr>))"
    and H: "dhash k' = filter (\<lambda>e. e \<noteq> d) (dhash k)"
    and I: "iobj k' = (iobj k)(i := None, dir := Some (dx\<lparr>i_ctime := clock k, i_mtime := clock k, i_nlink := i_nlink dx - n\<rparr>))"
    and rr: "rroot_dentry k' = rroot_dentry k" and tk: "table_ok (reg_ino_mapp_table k')"
    using rdma_remove_ok [OF assms(2,3) T(2) r T(1,3) assms(4-9), of mode] by blast
  note l = link_atD [OF d(2)]
  have dT: "d \<in> T"
    by (rule kept_reaches [OF d(1) T(4) keptD(1) [OF T(4)]])
  then have pT: "d_parent x \<in> T"
    using keptD(2) [OF T(4) dT] l(2) by auto
  have "kept k' r (T - {d})"
    by (rule kept_unlink [OF fs_okD(1) [OF T(1)] T(4) dT l(2,5,6,7) D H])
  moreover have "owned D0 I0 k' (T - {d})"
    by (rule owned_unlink [OF T(5) dT l(2,9) pT l(6,7,12,13) D I _ l(14)]) simp
  ultimately show ?thesis
    using run rr tk T(2) by (auto simp: serving_def)
qed

text \<open>A request to remove something that is not registered looks for inode number 0.\<close>

lemma rdma_remove_unknown:
  assumes "sendable ino s pino ps" "frame_ok 6 fr" "fs_ok k" "rroot_dentry k = Some r" "dobj k r \<noteq> None"
    and "table_ok (reg_ino_mapp_table k)" "\<forall>g. g \<in># regs (reg_ino_mapp_table k) \<longrightarrow> r_remote g \<noteq> (ino, pino)"
    and "\<forall>d. reaches k r d \<longrightarrow> ino_of k d \<noteq> Some 0"
  shows "rdma_remove fr (entry_request ''RM'' ino s pino ps mode) k = Ok k"
proof -
  have rm: "word_ok ''RM''"
    by (simp add: separator_def newline_def)
  obtain rq where rq: "parse_entry fr (entry_request ''RM'' ino s pino ps mode) = Ok rq" "rq_ino rq = ino" "rq_ino_parent rq = pino"
    using entry_request_parsed [OF assms(1,2) rm] by auto
  have t: "table_remove (reg_ino_mapp_table k) ino pino = (0, 0, reg_ino_mapp_table k)"
    by (rule tab.remove_out [OF assms(6,7)])
  have "find_dentry_by_ino k r 0 = Ok None"
    using find_by_ino_ok [OF assms(3,5), of 0] assms(8) by (auto split: option.splits)
  then show ?thesis
    using rq t assms(4) by (simp add: rdma_remove_def)
qed

section \<open>A request to write\<close>

lemma serving_write:
  assumes "serving D0 I0 r k" "sendable ino s pino ps" "frame_ok 6 fr" "NUL \<notin> set m" "visible m \<noteq> []" "length m < 900"
    and "reaches k r e" "ino_of k e = Some ino" "\<forall>d. reaches k r d \<and> ino_of k d = Some ino \<longrightarrow> names k d i x"
    and "file_ok x" "enough_memory k" "length (visible m) < 20"
  shows "\<exists>k'. rdma_write fr (write_request ino s pino ps m) k = Ok k' \<and> serving D0 I0 r k'"
proof -
  obtain T where T: "fs_ok k" "rroot_dentry k = Some r" "table_ok (reg_ino_mapp_table k)" "kept k r T" "owned D0 I0 k T"
    using assms(1) by (auto simp: serving_def)
  have r: "dobj k r \<noteq> None"
    using keptD(2) [OF T(4) keptD(1) [OF T(4)]] by auto
  obtain k' x' where run: "rdma_write fr (write_request ino s pino ps m) k = Ok k'" "fs_ok k'"
    and I: "iobj k' i = Some x'" "\<forall>j. j \<noteq> i \<longrightarrow> iobj k' j = iobj k j" "i_count x' = i_count x"
    and same: "dents k' = dents k" "dhash k' = dhash k" "rroot_dentry k' = rroot_dentry k" "reg_ino_mapp_table k' = reg_ino_mapp_table k"
    using rdma_write_ok [OF assms(2-6) T(1,2) r assms(7-12)] by blast
  have u: "users k' j = users k j" for j
    by (simp add: users_def same)
  have "kept k' r T"
    using T(4) by (simp add: kept_def pinned_def same)
  moreover have "owned D0 I0 k' T"
  proof -
    obtain y where e: "dobj k e = Some y" "d_inode y = Some i" "iobj k i = Some x"
      using assms(7-9) by (auto simp: names_def)
    have "I0 i = None"
      by (rule owned_inode [OF T(5) kept_reaches [OF assms(7) T(4) keptD(1) [OF T(4)]] e(1,2)])
    moreover from ownedD(4) [OF T(5) this e(3)]
    have "users k i \<noteq> {} \<and> users k i \<subseteq> T \<and> unat (i_count x') = card (users k i)"
      by (simp add: I(3))
    ultimately show ?thesis
      using T(5) I(1,2) unfolding owned_def u same by (metis option.inject)
  qed
  ultimately show ?thesis
    using run same T(2,3) by (auto simp: serving_def)
qed

section \<open>Runs of the server\<close>

text \<open>
  The requests that change the state.  Each is one a client sends; the server has memory and
  room in its table, a name to create is free in every directory the request may mean, the
  links to remove are empty and not in use, and a message is short enough for the server's
  buffer.  A request to read changes nothing.
\<close>

inductive serves :: "addr \<Rightarrow> kernel \<Rightarrow> kernel \<Rightarrow> bool" for r where
  create: "sendable ino s pino ps \<Longrightarrow> frame_ok 6 fr \<Longrightarrow> length s < 16 \<Longrightarrow> holds ip a \<Longrightarrow> length a < 16 \<Longrightarrow>
    \<forall>n. mem k n \<Longrightarrow> candidate k r ps q \<Longrightarrow> \<forall>p. candidate k r ps p \<longrightarrow> (\<exists>px dir dx. place_free k p px dir dx s) \<Longrightarrow>
    size (regs (reg_ino_mapp_table k)) < 1024 \<Longrightarrow>
    rdma_create fr (entry_request ''CR'' ino s pino ps mode) (Some ip) k = Ok k' \<Longrightarrow> serves r k k'"
| remove: "sendable ino s pino ps \<Longrightarrow> frame_ok 6 fr \<Longrightarrow> g \<in># regs (reg_ino_mapp_table k) \<Longrightarrow> r_remote g = (ino, pino) \<Longrightarrow>
    \<forall>h. h \<in># regs (reg_ino_mapp_table k) \<and> r_remote h = (ino, pino) \<longrightarrow> h = g \<Longrightarrow>
    reaches k r e \<Longrightarrow> ino_of k e = Some (fst (r_local g)) \<Longrightarrow>
    \<forall>d. reaches k r d \<and> ino_of k d = Some (fst (r_local g)) \<longrightarrow> (\<exists>x px dir dx i z. link_at k d x px dir dx i z) \<Longrightarrow>
    rdma_remove fr (entry_request ''RM'' ino s pino ps mode) k = Ok k' \<Longrightarrow> serves r k k'"
| remove_unknown: "sendable ino s pino ps \<Longrightarrow> frame_ok 6 fr \<Longrightarrow>
    \<forall>g. g \<in># regs (reg_ino_mapp_table k) \<longrightarrow> r_remote g \<noteq> (ino, pino) \<Longrightarrow> \<forall>d. reaches k r d \<longrightarrow> ino_of k d \<noteq> Some 0 \<Longrightarrow>
    rdma_remove fr (entry_request ''RM'' ino s pino ps mode) k = Ok k' \<Longrightarrow> serves r k k'"
| store: "sendable ino s pino ps \<Longrightarrow> frame_ok 6 fr \<Longrightarrow> NUL \<notin> set m \<Longrightarrow> visible m \<noteq> [] \<Longrightarrow> length m < 900 \<Longrightarrow>
    reaches k r e \<Longrightarrow> ino_of k e = Some ino \<Longrightarrow> \<forall>d. reaches k r d \<and> ino_of k d = Some ino \<longrightarrow> names k d i x \<Longrightarrow>
    file_ok x \<Longrightarrow> enough_memory k \<Longrightarrow> length (visible m) < 20 \<Longrightarrow>
    rdma_write fr (write_request ino s pino ps m) k = Ok k' \<Longrightarrow> serves r k k'"

text \<open>The interface between a system and what holds along its runs.\<close>

locale preserved =
  fixes step :: "'s \<Rightarrow> 's \<Rightarrow> bool" and inv :: "'s \<Rightarrow> bool"
  assumes step_inv: "step s s' \<Longrightarrow> inv s \<Longrightarrow> inv s'"
begin

lemma run_inv: "step\<^sup>*\<^sup>* s s' \<Longrightarrow> inv s \<Longrightarrow> inv s'"
  by (induction rule: rtranclp_induct) (auto intro: step_inv)

end

lemma serves_keeps:
  assumes "serves r k k'" "serving D0 I0 r k"
  shows "serving D0 I0 r k'"
  using assms(1)
proof cases
  case (create ino s pino ps fr ip a q mode)
  show ?thesis
    using serving_create [OF assms(2) create(1-9), of mode] unfolding create(10) by simp
next
  case (remove ino s pino ps fr g e mode)
  show ?thesis
    using serving_remove [OF assms(2) remove(1-8), of mode] unfolding remove(9) by simp
next
  case (remove_unknown ino s pino ps fr mode)
  obtain T where T: "fs_ok k" "rroot_dentry k = Some r" "table_ok (reg_ino_mapp_table k)" "kept k r T"
    using assms(2) by (auto simp: serving_def)
  have "dobj k r \<noteq> None"
    using keptD(2) [OF T(4) keptD(1) [OF T(4)]] by auto
  then have "k' = k"
    using rdma_remove_unknown [OF remove_unknown(1,2) T(1,2) _ T(3) remove_unknown(3,4), of mode] remove_unknown(5) by simp
  then show ?thesis
    using assms(2) by simp
next
  case (store ino s pino ps fr m e i x)
  show ?thesis
    using serving_write [OF assms(2) store(1-11)] unfolding store(12) by simp
qed

interpretation server: preserved "serves r" "serving D0 I0 r" for r D0 I0
  by unfold_locales (rule serves_keeps)

section \<open>From the mount to the unmount\<close>

lemma mounted_serving:
  assumes "fs_ok k" "table_ok (reg_ino_mapp_table k)" "i_count z = 1"
  shows "serving (dobj k) (iobj k) (length (dents k)) (mounted sb z n k)"
proof -
  let ?k = "mounted sb z n k" and ?r = "length (dents k)"
  note m = mounted_kept [OF assms(1,3), of sb n]
  have u: "users ?k i = (if i = length (inodes k) then {?r} else users k i)" for i
    using with_root_users [OF assms(1), of z i] by (simp add: users_def mounted_def)
  have "?r \<notin> users k i" for i
    by (simp add: users_def)
  then have "owned (dobj k) (iobj k) ?k {?r}"
    using assms(3) by (simp add: owned_def m u)
  moreover have "table_ok (reg_ino_mapp_table ?k)"
    using tab.reset [OF assms(2)] by (simp add: mounted_def)
  ultimately show ?thesis
    using m(1,2) by (auto simp: serving_def mounted_def)
qed



section \<open>After the unmount\<close>

text \<open>
  C38.  Unmounting does not stop the server, and \<open>rroot_dentry\<close> keeps pointing at the freed
  root: every create or remove request that arrives afterwards reads freed memory.
\<close>

theorem request_after_unmount:
  assumes "fs_ok k" "kept k r T" "rroot_dentry k = Some r" "sendable ino s pino ps" "frame_ok 6 fr"
  shows "\<exists>k'. wjfs_kill_sb sb (Some r) k = Ok k' \<and>
    rdma_create fr (entry_request ''CR'' ino s pino ps mode) ip k' = Fault BadPointer \<and>
    rdma_remove fr (entry_request ''RM'' ino s pino ps mode) k' = Fault BadPointer"
proof -
  obtain k' where k': "wjfs_kill_sb sb (Some r) k = Ok k'" "dobj k' = (\<lambda>d. if d \<in> T then None else dobj k d)"
      "rroot_dentry k' = Some r"
    using umount_ok [OF assms(1,2)] assms(3) by fastforce
  have r: "dobj k' r = None"
    using k'(2) keptD(1) [OF assms(2)] by simp
  have w: "word_ok ''CR''" "word_ok ''RM''"
    by (simp_all add: separator_def newline_def)
  obtain rq where "parse_entry fr (entry_request ''CR'' ino s pino ps mode) = Ok rq"
    using entry_request_parsed [OF assms(4,5) w(1)] by auto
  then have "rdma_create fr (entry_request ''CR'' ino s pino ps mode) ip k' = Fault BadPointer"
    using k'(3) r by (simp add: rdma_create_def parent_dentry_def dentry_at_def sget_def)
  moreover obtain rq where "parse_entry fr (entry_request ''RM'' ino s pino ps mode) = Ok rq"
    using entry_request_parsed [OF assms(4,5) w(2)] by auto
  then have "rdma_remove fr (entry_request ''RM'' ino s pino ps mode) k' = Fault BadPointer"
    using k'(3) r by (simp add: rdma_remove_def find_dentry_by_ino_def dentry_at_def sget_def Let_def split: prod.split)
  ultimately show ?thesis
    using k'(1) by blast
qed

theorem request_after_unmount_witness:
  "\<exists>k'. wjfs_kill_sb 0 (Some 0) kernel4 = Ok k' \<and>
    rdma_create fr6 (entry_request ''CR'' 7 ''b'' 3 ''/'' 0) None k' = Fault BadPointer"
  using request_after_unmount [OF kernel4_ok kernel4_kept _ sendable_example fr6_ok, of 0 0 None] by auto

section \<open>An example\<close>

text \<open>The first mount after boot, and a request to make \<open>/b\<close>.\<close>

lemma first_mount:
  assumes "wjfs_fill_super garbage sb None kernel0 = Ok (0, k)"
  shows "serving (dobj kernel0) (iobj kernel0) 0 k" and "\<forall>n. mem k n" and "candidate k 0 ''/'' p \<longleftrightarrow> p = 0"
    and "\<exists>px dir dx. place_free k 0 px dir dx ''b''" and "regs (reg_ino_mapp_table k) = {#}"
proof -
  obtain n z where k: "k = mounted sb z n kernel0" and z: "i_count z = 1" "i_ops z = DirOps" "S_ISDIR (i_mode z)" "\<not> i_dead z"
    using fill_super_ok [OF assms] by blast
  note m = mounted_kept [OF kernel0_ok z(1), of sb n, folded k]
  have t: "table_ok (reg_ino_mapp_table kernel0)"
    by (simp add: blank_table_ok)
  show "serving (dobj kernel0) (iobj kernel0) 0 k"
    using mounted_serving [OF kernel0_ok t z(1), of sb n] by (simp add: k)
  show "\<forall>n. mem k n"
    by (simp add: k mounted_def with_root_def)
  have r: "dobj k 0 = Some (root_dentry 0 0)" "iobj k 0 = Some z" "dhash k = []"
    using m by (simp_all add: k mounted_def with_root_def kernel0_def)
  have "\<not> reaches k 0 p"
    using r(1) by (auto elim: reaches.cases)
  then show "candidate k 0 ''/'' p \<longleftrightarrow> p = 0"
    using r(1) by (auto simp: candidate_def name_of_def cstring_def)
  have "cap_dac_override k"
    by (simp add: k mounted_def with_root_def kernel0_def)
  then have "generic_permission k z MAY_EXEC = 0"
    using z(3) by (simp add: generic_permission_def acl_permission_check_def execute_ok_def Let_def)
  then have "searchable k 0 (root_dentry 0 0) 0 z"
    using m(1) r z by (simp add: searchable_def)
  then have "place_free k 0 (root_dentry 0 0) 0 z ''b''"
    using r by (simp add: place_free_def short_name_def good_name_def cstring_def)
  then show "\<exists>px dir dx. place_free k 0 px dir dx ''b''"
    by blast
  show "regs (reg_ino_mapp_table k) = {#}"
    using tab.reset [OF t] by (simp add: k mounted_def)
qed

lemma first_request:
  assumes "wjfs_fill_super garbage sb None kernel0 = Ok (0, k)"
  shows "\<exists>k'. rdma_create fr6 (entry_request ''CR'' 7 ''b'' 3 ''/'' 0) (Some (''10.0.0.2'' @ [NUL])) k = Ok k' \<and> serves 0 k k'"
proof -
  note f = first_mount [OF assms]
  have h: "holds (''10.0.0.2'' @ [NUL]) ''10.0.0.2''"
    by (simp add: holds_def)
  have free: "\<forall>p. candidate k 0 ''/'' p \<longrightarrow> (\<exists>px dir dx. place_free k p px dir dx ''b'')"
    using f(3,4) by simp
  have q: "candidate k 0 ''/'' 0" and room: "size (regs (reg_ino_mapp_table k)) < 1024"
    using f(3,5) by simp_all
  obtain k' where k': "rdma_create fr6 (entry_request ''CR'' 7 ''b'' 3 ''/'' 0) (Some (''10.0.0.2'' @ [NUL])) k = Ok k'"
    using serving_create [OF f(1) sendable_example fr6_ok _ h _ f(2) q free room] by auto
  have "serves 0 k k'"
    by (rule serves.create [OF sendable_example fr6_ok _ h _ f(2) q free room k']) simp_all
  then show ?thesis
    using k' by blast
qed



end
