(* ===== verification/Vfs.thy ===== *)
theory Vfs
  imports InodeOps
begin

unbundle bit_operations_syntax

text \<open>
  The callers of the methods in \<open>fs/namei.c\<close>: the permission tests and the functions
  \<open>vfs_create\<close>, \<open>vfs_mkdir\<close>, \<open>vfs_mknod\<close>, \<open>vfs_symlink\<close>, \<open>vfs_link\<close>, \<open>vfs_unlink\<close>,
  \<open>vfs_rmdir\<close> and \<open>vfs_rename\<close>, which decide when a method of wjfs runs and what happens to
  the dentry afterwards.

  The methods are those of the directories of wjfs; another inode has none of them.
  \<open>shrink_dcache_parent\<close> finds nothing to prune: the unused dentries of wjfs are never kept.
  Inode flags (append-only, immutable, swap file), mount points, quotas and the hooks of
  security modules are not modelled.
\<close>

section \<open>Permission to change a directory\<close>

definition check_sticky :: "kernel \<Rightarrow> inode \<Rightarrow> inode \<Rightarrow> bool" where
  "check_sticky k dx x \<longleftrightarrow> i_mode dx AND S_ISVTX \<noteq> 0 \<and> i_uid x \<noteq> fsuid k \<and> i_uid dx \<noteq> fsuid k \<and> \<not> cap_fowner k"

definition may_delete :: "kernel \<Rightarrow> addr \<Rightarrow> addr \<Rightarrow> bool \<Rightarrow> int res" where
  "may_delete k dir victim isdir =
     bindR (dentry_at k victim) (\<lambda>v.
       case d_inode v of
         None \<Rightarrow> Ok (- ENOENT)
       | Some i \<Rightarrow>
           bindR (dentry_at k (d_parent v)) (\<lambda>p.
           bindR (bug_on (d_inode p \<noteq> Some dir)) (\<lambda>_.
           bindR (inode_permission k dir (MAY_WRITE OR MAY_EXEC)) (\<lambda>err.
             if err \<noteq> 0 then Ok err
             else
               bindR (inode_at k dir) (\<lambda>dx.
               bindR (inode_at k i) (\<lambda>x.
                 if check_sticky k dx x then Ok (- EPERM)
                 else if isdir \<and> \<not> S_ISDIR (i_mode x) then Ok (- ENOTDIR)
                 else if isdir \<and> d_parent v = victim then Ok (- EBUSY)
                 else if \<not> isdir \<and> S_ISDIR (i_mode x) then Ok (- EISDIR)
                 else if i_dead dx then Ok (- ENOENT)
                 else Ok 0))))))"

definition may_create :: "kernel \<Rightarrow> addr \<Rightarrow> addr \<Rightarrow> int res" where
  "may_create k dir child =
     bindR (dentry_at k child) (\<lambda>c.
       if d_inode c \<noteq> None then Ok (- EEXIST)
       else bindR (inode_at k dir) (\<lambda>dx.
              if i_dead dx then Ok (- ENOENT) else inode_permission k dir (MAY_WRITE OR MAY_EXEC)))"

definition has_methods :: "kernel \<Rightarrow> addr \<Rightarrow> bool res" where
  "has_methods k dir = bindR (inode_at k dir) (\<lambda>dx. Ok (i_ops dx = DirOps))"

section \<open>Making entries\<close>

text \<open>The common frame of the four functions that make an entry.\<close>

definition make_entry ::
  "addr \<Rightarrow> addr \<Rightarrow> int \<Rightarrow> (kernel \<Rightarrow> (int \<times> kernel) res) \<Rightarrow> kernel \<Rightarrow> (int \<times> kernel) res" where
  "make_entry dir d no_method method k =
     bindR (may_create k dir d) (\<lambda>error.
       if error \<noteq> 0 then Ok (error, k)
       else bindR (has_methods k dir) (\<lambda>b. if \<not> b then Ok (no_method, k) else method k))"

definition vfs_create :: "client_frame \<Rightarrow> addr \<Rightarrow> addr \<Rightarrow> u32 \<Rightarrow> kernel \<Rightarrow> (int \<times> kernel) res" where
  "vfs_create cf dir d mode =
     make_entry dir d (- EACCES) (wjfs_create cf dir d ((mode AND 0xFFF) OR ucast S_IFREG))"

definition vfs_mkdir :: "client_frame \<Rightarrow> addr \<Rightarrow> addr \<Rightarrow> u32 \<Rightarrow> kernel \<Rightarrow> (int \<times> kernel) res" where
  "vfs_mkdir cf dir d mode = make_entry dir d (- EPERM) (wjfs_mkdir cf dir d (mode AND 0x3FF))"

text \<open>\<open>vfs_mknod\<close>: only a task with \<open>CAP_MKNOD\<close> (\<open>cap\<close>) makes devices.\<close>

definition vfs_mknod :: "bool \<Rightarrow> client_frame \<Rightarrow> addr \<Rightarrow> addr \<Rightarrow> u32 \<Rightarrow> u32 \<Rightarrow> kernel \<Rightarrow> (int \<times> kernel) res" where
  "vfs_mknod cap cf dir d mode dev k =
     bindR (may_create k dir d) (\<lambda>error.
       if error \<noteq> 0 then Ok (error, k)
       else
         let t = (ucast mode :: u16) AND S_IFMT
         in if (t = 0x2000 \<or> t = 0x6000) \<and> \<not> cap then Ok (- EPERM, k)
            else bindR (has_methods k dir) (\<lambda>b.
                   if \<not> b then Ok (- EPERM, k) else wjfs_mknod cf dir d mode dev k))"

text \<open>
  \<open>wjfs_symlink\<close> makes no link.  A link named \<open>server\<close> starts a server thread, one named
  \<open>table\<close> prints the table: the result has whether a thread was started and which rows
  were printed.
\<close>

definition wjfs_symlink :: "addr \<Rightarrow> kernel \<Rightarrow> (int \<times> bool \<times> entry list) res" where
  "wjfs_symlink d k =
     bindR (dentry_at k d) (\<lambda>x.
     bindR (strcmp (''server'' @ [NUL]) (d_name x)) (\<lambda>c1.
     bindR (strcmp (''table'' @ [NUL]) (d_name x)) (\<lambda>c2.
       Ok (0, c1 = 0, if c2 = 0 then filter (\<lambda>e. e_used e = 1) (reg_ino_mapp_table k) else []))))"

definition vfs_symlink :: "addr \<Rightarrow> addr \<Rightarrow> kernel \<Rightarrow> (int \<times> kernel) res" where
  "vfs_symlink dir d = make_entry dir d (- EPERM) (\<lambda>k. bindR (wjfs_symlink d k) (\<lambda>(r, _, _). Ok (r, k)))"

definition EXDEV :: int where "EXDEV = 18"

definition vfs_link :: "addr \<Rightarrow> addr \<Rightarrow> addr \<Rightarrow> kernel \<Rightarrow> (int \<times> kernel) res" where
  "vfs_link old_dentry dir new_dentry k =
     bindR (dentry_at k old_dentry) (\<lambda>od.
       case d_inode od of
         None \<Rightarrow> Ok (- ENOENT, k)
       | Some i \<Rightarrow>
           bindR (may_create k dir new_dentry) (\<lambda>error.
             if error \<noteq> 0 then Ok (error, k)
             else
               bindR (inode_at k dir) (\<lambda>dx.
               bindR (inode_at k i) (\<lambda>x.
                 if i_sb dx \<noteq> i_sb x then Ok (- EXDEV, k)
                 else if i_ops dx \<noteq> DirOps then Ok (- EPERM, k)
                 else if S_ISDIR (i_mode x) then Ok (- EPERM, k)
                 else wjfs_link old_dentry dir new_dentry k))))"

section \<open>Removing entries\<close>

definition vfs_unlink :: "client_frame \<Rightarrow> addr \<Rightarrow> addr \<Rightarrow> kernel \<Rightarrow> (int \<times> kernel) res" where
  "vfs_unlink cf dir d k =
     bindR (may_delete k dir d False) (\<lambda>error.
       if error \<noteq> 0 then Ok (error, k)
       else
         bindR (has_methods k dir) (\<lambda>b.
           if \<not> b then Ok (- EPERM, k)
           else
             bindR (wjfs_unlink cf dir d k) (\<lambda>(error, k).
               if error = 0 then bindR (d_delete d k) (\<lambda>k. Ok (error, k)) else Ok (error, k))))"

definition dentry_unhash :: "addr \<Rightarrow> kernel \<Rightarrow> kernel res" where
  "dentry_unhash d k =
     bindR (dget d k) (\<lambda>k.
     bindR (dentry_at k d) (\<lambda>x.
       Ok (if d_count x = 2 then d_drop d k else k)))"

definition mark_dead :: "addr \<Rightarrow> kernel \<Rightarrow> kernel res" where
  "mark_dead d k = bindR (d_inode_of k d) (\<lambda>i. upd_inode i (\<lambda>x. x\<lparr>i_dead := True\<rparr>) k)"

definition vfs_rmdir :: "client_frame \<Rightarrow> addr \<Rightarrow> addr \<Rightarrow> kernel \<Rightarrow> (int \<times> kernel) res" where
  "vfs_rmdir cf dir d k =
     bindR (may_delete k dir d True) (\<lambda>error.
       if error \<noteq> 0 then Ok (error, k)
       else
         bindR (has_methods k dir) (\<lambda>b.
           if \<not> b then Ok (- EPERM, k)
           else
             bindR (dentry_unhash d k) (\<lambda>k.
             bindR (wjfs_rmdir cf dir d k) (\<lambda>(error, k).
             bindR (if error = 0 then bindR (mark_dead d k) (d_delete d) else Ok k) (\<lambda>k.
             bindR (dput (Some d) k) (\<lambda>k. Ok (error, k)))))))"

section \<open>Renaming\<close>

definition vfs_rename_dir :: "addr \<Rightarrow> addr \<Rightarrow> addr \<Rightarrow> addr \<Rightarrow> kernel \<Rightarrow> (int \<times> kernel) res" where
  "vfs_rename_dir old_dir old_dentry new_dir new_dentry k =
     bindR (if new_dir \<noteq> old_dir
            then bindR (d_inode_of k old_dentry) (\<lambda>i. inode_permission k i MAY_WRITE) else Ok 0) (\<lambda>error.
       if error \<noteq> 0 then Ok (error, k)
       else
         bindR (dentry_at k new_dentry) (\<lambda>y.
         bindR (if d_inode y \<noteq> None then dentry_unhash new_dentry k else Ok k) (\<lambda>k.
         bindR (wjfs_rename old_dir old_dentry new_dir new_dentry k) (\<lambda>(error, k).
         bindR (case d_inode y of
                  None \<Rightarrow> Ok k
                | Some target \<Rightarrow>
                    bindR (if error = 0 then upd_inode target (\<lambda>x. x\<lparr>i_dead := True\<rparr>) k else Ok k) (\<lambda>k.
                    bindR (if d_unhashed k new_dentry then d_rehash new_dentry k else Ok k) (\<lambda>k.
                      dput (Some new_dentry) k))) (\<lambda>k.
         bindR (if error = 0 then d_move old_dentry new_dentry k else Ok k) (\<lambda>k.
           Ok (error, k)))))))"

definition vfs_rename_other :: "addr \<Rightarrow> addr \<Rightarrow> addr \<Rightarrow> addr \<Rightarrow> kernel \<Rightarrow> (int \<times> kernel) res" where
  "vfs_rename_other old_dir old_dentry new_dir new_dentry k =
     bindR (dget new_dentry k) (\<lambda>k.
     bindR (wjfs_rename old_dir old_dentry new_dir new_dentry k) (\<lambda>(error, k).
     bindR (if error = 0 then d_move old_dentry new_dentry k else Ok k) (\<lambda>k.
     bindR (dput (Some new_dentry) k) (\<lambda>k.
       Ok (error, k)))))"

definition vfs_rename :: "addr \<Rightarrow> addr \<Rightarrow> addr \<Rightarrow> addr \<Rightarrow> kernel \<Rightarrow> (int \<times> kernel) res" where
  "vfs_rename old_dir old_dentry new_dir new_dentry k =
     bindR (d_inode_of k old_dentry) (\<lambda>i.
     bindR (inode_at k i) (\<lambda>x.
     bindR (dentry_at k new_dentry) (\<lambda>y.
       let is_dir = S_ISDIR (i_mode x)
       in if d_inode y = Some i then Ok (0, k)
          else
            bindR (may_delete k old_dir old_dentry is_dir) (\<lambda>error.
              if error \<noteq> 0 then Ok (error, k)
              else
                bindR (if d_inode y = None then may_create k new_dir new_dentry
                       else may_delete k new_dir new_dentry is_dir) (\<lambda>error.
                  if error \<noteq> 0 then Ok (error, k)
                  else
                    bindR (has_methods k old_dir) (\<lambda>b.
                      if \<not> b then Ok (- EPERM, k)
                      else if is_dir then vfs_rename_dir old_dir old_dentry new_dir new_dentry k
                      else vfs_rename_other old_dir old_dentry new_dir new_dentry k))))))"

end
