(* ===== verification/Spec2Isabelle.thy ===== *)
theory Spec2Isabelle
  imports ServerLoop Lifetime Vfs
begin

text \<open>
  A verification of wjfs, a network file system in memory for Linux 2.6.32
  (\<^verbatim>\<open>src/wjfs/fs\<close>, with the socket library \<^verbatim>\<open>src/wjfs/ksocket-0.0.2\<close>).

  \<^bold>\<open>The program.\<close>  Every machine that mounts wjfs keeps a tree of directories and files in the
  dentry and page caches.  A method of the file system that makes or removes an entry
  (\<open>wjfs_mknod\<close>, \<open>wjfs_unlink\<close>, ... in \<^verbatim>\<open>wjfs.c\<close>) also connects to the other machine and sends
  a request in text (\<open>wjfs_client_create\<close>, ... in \<^verbatim>\<open>wjfs_create.c\<close>, \<^verbatim>\<open>wjfs_remove.c\<close>,
  \<^verbatim>\<open>wjfs_read.c\<close>, \<^verbatim>\<open>wjfs_write.c\<close>).  The kernel thread \<open>wjfs_server\<close> accepts connections, and
  \<open>rdma_create\<close>, \<open>rdma_remove\<close>, \<open>rdma_read\<close> and \<open>rdma_write\<close> carry the requests out.  The link of
  a remote entry is registered in \<open>reg_ino_mapp_table\<close>, which pairs the local inode numbers
  with those of the sender; reading and writing a registered file goes over the network.

  \<^bold>\<open>The model.\<close>  One record \<open>kernel\<close> (theory \<open>Kernel\<close>) is the state of a machine: stores of inodes,
  dentries and sockets, the hash of dentries, the globals of \<^verbatim>\<open>wjfs.c\<close>, the allocator and the
  network.  A C function is a function that returns \<open>Ok\<close> with its result and the new state or
  \<open>Fault\<close> (theory \<open>Prelude\<close>): a null or dangling pointer, an access outside an array, a \<open>BUG()\<close>.
  The allocator may refuse any request and the network may answer anything: both are functions
  in the state.  Uninitialised stack memory is an explicit argument (a frame).  Inode numbers,
  modes, counts and the numbers of requests are words of their width; positions in a file are natural
  numbers and return codes integers; strings are byte arrays with a terminating zero.

  \<^bold>\<open>The theories\<close>, from the bottom up.
  \<^item> \<open>CString\<close>, \<open>Decimal\<close>, \<open>Vsprintf\<close>, \<open>Vsscanf\<close>: \<^verbatim>\<open>lib/string.c\<close>, \<^verbatim>\<open>lib/vsprintf.c\<close> and \<open>string2int\<close>.
    The digits of \<open>put_dec\<close> are those of division by ten, and \<open>sprintf\<close> writes the expected text.
  \<^item> \<open>Wire\<close>: the four requests.  What a client prints the server reads back; a long message
    overruns a buffer of the server.
  \<^item> \<open>MapTable\<close>: the table of registrations.  The locale \<open>registry\<close> says what its clients rely on
    (a multiset of registrations with insertion, lookup and removal), and the table is an
    instance of it.
  \<^item> \<open>Kernel\<close>, \<open>Dcache\<close>, \<open>Namei\<close>, \<open>Vfs\<close>: the state, and the services of \<^verbatim>\<open>fs/inode.c\<close>, \<^verbatim>\<open>fs/dcache.c\<close>
    and \<^verbatim>\<open>fs/namei.c\<close> that wjfs calls or that call it.
  \<^item> \<open>DentryTree\<close>, \<open>Lookup\<close>, \<open>TreeSearch\<close>: the invariant \<open>fs_ok\<close> (parents and children agree, no
    cycles, names terminated, hashed dentries live, reference counts high enough), that the
    services keep it, and what lookups and the two searches of \<^verbatim>\<open>wjfs.c\<close> find.
  \<^item> \<open>Ksocket\<close>, \<open>Clients\<close>: the socket library and the four clients, with what they return, send
    and leave allocated in every case.
  \<^item> \<open>InodeOps\<close>: the methods of inodes and directories and what they do to the tree.
  \<^item> \<open>PageCache\<close>, \<open>FileContent\<close>: \<^verbatim>\<open>mm/filemap.c\<close> and \<^verbatim>\<open>fs/libfs.c\<close>; reading and writing refine a
    file that is a list of bytes.
  \<^item> \<open>Handlers\<close>, \<open>Serving\<close>, \<open>FileServing\<close>: the server's handlers and their effect on the tree, the
    table and the files.
  \<^item> \<open>Server\<close>, \<open>ServerLoop\<close>: the thread, when it ends, and how a file can give it orders.
  \<^item> \<open>MountOptions\<close>, \<open>Super\<close>, \<open>Mount\<close>, \<open>Umount\<close>: mount options, mounting and unmounting.
  \<^item> \<open>Lifetime\<close>: the step relation \<open>serves\<close> of the server and its invariant \<open>serving\<close>, by the
    locale \<open>preserved\<close>; from the mount to the unmount nothing is left behind.
  \<^item> This theory: a client on one machine and the server on the other.

  \<^bold>\<open>Bounds.\<close>  The searches of the tree recurse at most once per dentry, so their fuel is the number
  of dentries and one more; it is proved to be enough.  \<open>wjfs_d_genocide\<close> takes at most two steps
  for every dentry, and taking the tree apart at most as many steps down as there are dentries
  before each one it frees; both are proved to end within their fuel.  The server's loop need
  not end: it is a partial function, and the theorems say exactly when it returns.

  \<^bold>\<open>What the theorems show against the code.\<close>  Several of them describe faults: a request for an
  unknown parent, a name of 16 bytes, a full table, a message of 20 bytes, a large or an empty
  file, a mount without memory, a request after the unmount, a file whose text is a request.

  \<^bold>\<open>Not modelled.\<close>  Locks and interleaving of the server with local processes (each operation runs
  alone); \<open>printk\<close>; the LRU list and memory pressure; mmap, splice, readahead and write-back;
  \<open>simple_statfs\<close>, \<open>simple_getattr\<close> and seeking, which change nothing of wjfs; \<open>wjfs_get_sb\<close>,
  \<open>init_wjfs\<close> and \<open>exit_wjfs\<close>, which hand \<open>wjfs_fill_super\<close>, the type of the file system and the
  server thread to the kernel; the network below
  the socket calls; \<open>wait_on_retry_sync_kiocb\<close>, which the modelled readers and writers never
  reach; the superseded copies of wjfs in \<^verbatim>\<open>src/fs3.*\<close> and \<^verbatim>\<open>save.c\<close>; the rest of Linux, which wjfs does not call.
\<close>

unbundle bit_operations_syntax

section \<open>A client and a server\<close>

text \<open>The tree and the permissions do not depend on the sockets.\<close>

lemma opened_simps [simp]:
  "dents (opened srv k) = dents k" "inodes (opened srv k) = inodes k" "dhash (opened srv k) = dhash k"
  "last_ino (opened srv k) = last_ino k" "clock (opened srv k) = clock k" "mem (opened srv k) = mem k"
  "reg_ino_mapp_table (opened srv k) = reg_ino_mapp_table k" "rroot_dentry (opened srv k) = rroot_dentry k"
  "fsuid (opened srv k) = fsuid k" "fsgid (opened srv k) = fsgid k" "groups (opened srv k) = groups k"
  "cap_dac_override (opened srv k) = cap_dac_override k" "cap_dac_read_search (opened srv k) = cap_dac_read_search k"
  "socks (opened srv k) = socks k @ [Some ()]"
  by (simp_all add: opened_def Let_def)

lemma opened_reaches: "reaches (opened srv k) r d \<longleftrightarrow> reaches k r d"
  using reaches_same_modes [of k r d "opened srv k"] reaches_same_modes [of "opened srv k" r d k] by auto

lemma opened_fs_ok: "fs_ok (opened srv k) \<longleftrightarrow> fs_ok k"
  using fs_ok_cong [of k "opened srv k"] fs_ok_cong [of "opened srv k" k] by auto

lemma opened_candidate: "candidate (opened srv k) r ps p \<longleftrightarrow> candidate k r ps p"
  by (simp add: candidate_def opened_reaches name_of_def)

lemma opened_place_free: "place_free (opened srv k) p px dir dx s \<longleftrightarrow> place_free k p px dir dx s"
proof -
  have "generic_permission (opened srv k) dx MAY_EXEC = generic_permission k dx MAY_EXEC"
    by (simp add: generic_permission_def acl_permission_check_def)
  moreover have "named (opened srv k) p s = named k p s"
    by (simp add: named_def fun_eq_iff)
  ultimately show ?thesis
    by (simp add: place_free_def searchable_def opened_fs_ok)
qed

text \<open>One round of the server that serves a create request.\<close>

lemma entry_request_start:
  assumes "sendable ino s pino ps" "length op = 2" "word_ok op"
  shows "take 2 (entry_request op ino s pino ps mode) = op" "length (entry_request op ino s pino ps mode) = 1024"
proof -
  have "length (blanks (entry_words op ino s pino ps) @ mode_word mode) < 1024"
    using assms entry_words_length [of s ps op ino pino] by (simp add: sendable_def mode_word_ok)
  then show "length (entry_request op ino s pino ps mode) = 1024"
    using entry_request_text [OF assms(1), of op mode] assms(2) by (simp add: Let_def)
  show "take 2 (entry_request op ino s pino ps mode) = op"
    using entry_request_text [OF assms(1), of op mode] assms(2) by (simp add: Let_def entry_words_def)
qed

lemma served_create:
  assumes "sendable ino s pino ps" "connected srv k" "incoming k = entry_request ''CR'' ino s pino ps mode"
    and "length (sf_ip sf) = 16" "frame_ok 6 (sf_create sf)" "length s < 16"
    and "rroot_dentry k = Some r" "dobj k r = Some x" "fs_ok k" "\<forall>n. mem k n" "candidate k r ps q"
    and "\<forall>p. candidate k r ps p \<longrightarrow> (\<exists>px dir dx. place_free k p px dir dx s)"
    and "table_ok (reg_ino_mapp_table k)" "size (regs (reg_ino_mapp_table k)) < 1024"
  shows "\<exists>p px dir dx k'. candidate k r ps p \<and> place_free k p px dir dx s \<and> server_round sf srv k = Ok (Again k') \<and> fs_ok k' \<and>
    dobj k' = (dobj k)(p := Some (with_child (length (dents k)) px),
      length (dents k) := Some (link_dentry p s (length (inodes k)))) \<and>
    regs (reg_ino_mapp_table k') =
      add_mset \<lparr>r_name = s, r_local = (last_ino k + 1, i_ino dx), r_remote = (ino, pino), r_ip = ip_text (net_peer k (net_no k + 2))\<rparr>
        (regs (reg_ino_mapp_table k))"
proof -
  let ?k = "opened srv k" and ?s = "length (socks k)"
  have cr: "word_ok ''CR''" "length ''CR'' = 2"
    by (simp_all add: separator_def newline_def)
  note start = entry_request_start [OF assms(1) cr(2,1), of mode]
  obtain ip where ip: "peer_text k = Some ip" "holds ip (ip_text (net_peer k (net_no k + 2)))"
    using peer_text_holds [of k] assms(10) by blast
  have hyps: "rroot_dentry ?k = Some r" "dobj ?k r = Some x" "fs_ok ?k" "\<forall>n. mem ?k n" "candidate ?k r ps q"
    "\<forall>p. candidate ?k r ps p \<longrightarrow> (\<exists>px dir dx. place_free ?k p px dir dx s)"
    "table_ok (reg_ino_mapp_table ?k)" "size (regs (reg_ino_mapp_table ?k)) < 1024"
    using assms(7-14) by (simp_all add: opened_candidate opened_place_free opened_fs_ok)
  from rdma_create_ok [OF assms(1,5,6) ip(2) ip_text_length hyps, of mode]
  obtain p px dir dx k1 where k1: "candidate k r ps p" "place_free k p px dir dx s"
    "rdma_create (sf_create sf) (entry_request ''CR'' ino s pino ps mode) (Some ip) ?k = Ok k1" "fs_ok k1"
    "dobj k1 = (dobj k)(p := Some (with_child (length (dents k)) px),
      length (dents k) := Some (link_dentry p s (length (inodes k))))"
    "socks k1 = socks k @ [Some ()]" "regs (reg_ino_mapp_table k1) =
      add_mset \<lparr>r_name = s, r_local = (last_ino k + 1, i_ino dx), r_remote = (ino, pino), r_ip = ip_text (net_peer k (net_no k + 2))\<rparr>
        (regs (reg_ino_mapp_table k))"
    unfolding opened_candidate opened_place_free opened_simps by blast
  have "take 4 (incoming k) \<noteq> ''quit''"
  proof
    assume "take 4 (incoming k) = ''quit''"
    then have "take 2 (take 4 (incoming k)) = ''qu''"
      by simp
    then show False
      using start(1) assms(3) by simp
  qed
  moreover have "serve_request sf ?s (incoming k) (peer_text k) ?k = Ok k1"
    using serve_entry(1) [of "incoming k" sf ?s "Some ip" ?k] start assms(3) ip(1) k1(3) by simp
  moreover obtain k' where k': "kclose (Some ?s) k1 = Ok (net_ret k1 (net_no k1), k')" "dents k' = dents k1" "inodes k' = inodes k1"
    "dhash k' = dhash k1" "reg_ino_mapp_table k' = reg_ino_mapp_table k1"
    using k1(6) by (simp add: kclose_def sock_at_def sget_def net_call_ret_def net_enter_def sock_release_def)
  ultimately have "server_round sf srv k = Ok (Again k')"
    by (simp add: server_round_eq [OF assms(2,4)])
  moreover have "fs_ok k'"
    using k1(4) k'(2-4) by (rule fs_ok_cong)
  ultimately show ?thesis
    using k1 k'(2,5) by metis
qed

text \<open>The text a client sends arrives whole.\<close>

definition delivers :: "kernel \<Rightarrow> string \<Rightarrow> bool" where
  "delivers k t \<longleftrightarrow> net_in k (net_no k + 3) = t \<and> net_ret k (net_no k + 3) = int (length t)"

lemma delivers_incoming:
  assumes "delivers k t" "length t < 1024"
  shows "incoming k = received (length t) t"
  using assms by (simp add: incoming_def delivers_def received_def Let_def)

text \<open>
  C1.  A file or directory made on one machine appears on the other.  The client's
  \<open>wjfs_mknod\<close> attaches the inode and sends one request; a server, in the invariant and with
  memory, to which the network delivers that text serves it in one round and then has, under a
  directory with the parent's name, a new dentry with the same name, registered with the
  client's numbers and address.
\<close>

theorem create_is_mirrored:
  assumes "entry_free kc cdir d x px dx" "client_frame_ok cf" "mem kc (mem_no kc)"
    and "0 \<le> net_ret kc (net_no kc)" "0 \<le> net_ret kc (net_no kc + 1)"
    and "sendable (last_ino kc + 1) (cstring (d_name x)) (i_ino dx) (cstring (d_name px))" "length (cstring (d_name x)) < 16"
  shows "\<exists>kc' t s. wjfs_mknod cf cdir d mode dev kc = Ok (0, kc') \<and> fs_ok kc' \<and> NSend s t \<in> set (net_log kc') \<and>
    (\<forall>ks srv sf r y q. connected srv ks \<and> delivers ks t \<and> length (sf_ip sf) = 16 \<and> frame_ok 6 (sf_create sf) \<and>
       rroot_dentry ks = Some r \<and> dobj ks r = Some y \<and> fs_ok ks \<and> (\<forall>n. mem ks n) \<and> candidate ks r (cstring (d_name px)) q \<and>
       (\<forall>p. candidate ks r (cstring (d_name px)) p \<longrightarrow> (\<exists>px dir dx. place_free ks p px dir dx (cstring (d_name x)))) \<and>
       table_ok (reg_ino_mapp_table ks) \<and> size (regs (reg_ino_mapp_table ks)) < 1024 \<longrightarrow>
       (\<exists>p pino ks'. candidate ks r (cstring (d_name px)) p \<and> server_round sf srv ks = Ok (Again ks') \<and> fs_ok ks' \<and>
         dobj ks' (length (dents ks)) = Some (link_dentry p (cstring (d_name x)) (length (inodes ks))) \<and>
         regs (reg_ino_mapp_table ks') = add_mset \<lparr>r_name = cstring (d_name x), r_local = (last_ino ks + 1, pino),
             r_remote = (last_ino kc + 1, i_ino dx), r_ip = ip_text (net_peer ks (net_no ks + 2))\<rparr> (regs (reg_ino_mapp_table ks))))"
proof -
  let ?s = "cstring (d_name x)" and ?ps = "cstring (d_name px)" and ?ino = "last_ino kc + 1"
  define t where "t = entry_text ''CR'' ?ino x (i_ino dx) px (dir_flag mode)"
  let ?k = "made cdir dx d x mode dev kc"
  define kc' where "kc' = snd (exchange t ?k)"
  have mk: "wjfs_mknod cf cdir d mode dev kc = Ok (0, kc')"
    unfolding kc'_def t_def by (rule wjfs_mknod_eq [OF assms(1-3)])
  have ok: "fs_ok kc'"
    using attach_fresh(2) [OF assms(1)] same_fs_exchange unfolding kc'_def by (rule fs_ok_same_fs)
  have net: "net_ret ?k = net_ret kc" "net_no ?k = net_no kc"
    by (simp_all add: made_def Let_def attached_def set_inode_def set_dentry_def with_inode_def)
  have sent: "NSend (length (socks ?k)) t \<in> set (net_log kc')"
    using assms(4,5) by (simp add: kc'_def exchange_def Let_def net)
  have len: "length t < 1024"
    using assms(6) entry_words_length [of ?s ?ps "''CR''" ?ino "i_ino dx"]
    by (simp add: t_def entry_text_def sendable_def mode_word_ok)
  have inc: "incoming ks = entry_request ''CR'' ?ino ?s (i_ino dx) ?ps (dir_flag mode)" if "delivers ks t" for ks
    using delivers_incoming [OF that len] by (simp add: entry_request_def t_def entry_text_def Let_def)
  show ?thesis
  proof (rule exI [of _ kc'], rule exI [of _ t], rule exI [of _ "length (socks ?k)"], intro conjI allI impI mk ok sent)
    fix ks srv and sf :: server_frame and r y q
    assume h: "connected srv ks \<and> delivers ks t \<and> length (sf_ip sf) = 16 \<and> frame_ok 6 (sf_create sf) \<and>
       rroot_dentry ks = Some r \<and> dobj ks r = Some y \<and> fs_ok ks \<and> (\<forall>n. mem ks n) \<and> candidate ks r ?ps q \<and>
       (\<forall>p. candidate ks r ?ps p \<longrightarrow> (\<exists>px dir dx. place_free ks p px dir dx ?s)) \<and>
       table_ok (reg_ino_mapp_table ks) \<and> size (regs (reg_ino_mapp_table ks)) < 1024"
    then have hs: "connected srv ks" "delivers ks t" "length (sf_ip sf) = 16" "frame_ok 6 (sf_create sf)"
       "rroot_dentry ks = Some r" "dobj ks r = Some y" "fs_ok ks" "\<forall>n. mem ks n" "candidate ks r ?ps q"
       "\<forall>p. candidate ks r ?ps p \<longrightarrow> (\<exists>px dir dx. place_free ks p px dir dx ?s)"
       "table_ok (reg_ino_mapp_table ks)" "size (regs (reg_ino_mapp_table ks)) < 1024"
      by blast+
    obtain p qx and ex :: inode and ks' where "candidate ks r ?ps p" "server_round sf srv ks = Ok (Again ks')" "fs_ok ks'"
      "dobj ks' = (dobj ks)(p := Some (with_child (length (dents ks)) qx),
        length (dents ks) := Some (link_dentry p ?s (length (inodes ks))))"
      "regs (reg_ino_mapp_table ks') =
        add_mset \<lparr>r_name = ?s, r_local = (last_ino ks + 1, i_ino ex), r_remote = (?ino, i_ino dx),
          r_ip = ip_text (net_peer ks (net_no ks + 2))\<rparr> (regs (reg_ino_mapp_table ks))"
      using served_create [OF assms(6) hs(1) inc [OF hs(2)] hs(3,4) assms(7) hs(5-12)] by blast
    then show "\<exists>p pino ks'. candidate ks r ?ps p \<and> server_round sf srv ks = Ok (Again ks') \<and> fs_ok ks' \<and>
         dobj ks' (length (dents ks)) = Some (link_dentry p ?s (length (inodes ks))) \<and>
         regs (reg_ino_mapp_table ks') = add_mset \<lparr>r_name = ?s, r_local = (last_ino ks + 1, pino),
             r_remote = (?ino, i_ino dx), r_ip = ip_text (net_peer ks (net_no ks + 2))\<rparr> (regs (reg_ino_mapp_table ks))"
      by (intro exI [of _ p] exI [of _ "i_ino ex"] exI [of _ ks']) simp
  qed
qed

text \<open>The example machine as a server that has not looked \<open>new\<close> up and to which \<open>t\<close> is sent.\<close>

definition server1 :: "string \<Rightarrow> kernel" where
  "server1 t = kernel1\<lparr>dhash := [4, 2, 1], socks := [Some ()], net_in := \<lambda>_. t, net_ret := \<lambda>_. int (length t)\<rparr>"

lemma server1_simps [simp]:
  "dents (server1 t) = dents kernel1" "inodes (server1 t) = inodes kernel1" "dhash (server1 t) = [4, 2, 1]"
  "rroot_dentry (server1 t) = Some 0" "reg_ino_mapp_table (server1 t) = blank_table"
  "generic_permission (server1 t) = generic_permission kernel1" "mem (server1 t) = mem kernel1"
  by (simp_all add: server1_def kernel1_def kernel0_def fun_eq_iff generic_permission_def acl_permission_check_def)

lemma server1_ok: "fs_ok (server1 t)"
proof -
  have "fs_ok (kernel1\<lparr>dhash := [4, 2, 1]\<rparr>)"
    by (rule fs_ok_dhash [OF kernel1_ok]) (simp_all add: kernel1_def)
  then show ?thesis
    by (rule fs_ok_cong) simp_all
qed

lemma server1_candidate: "candidate (server1 t) 0 ''/'' p \<longleftrightarrow> p = 0"
  by (cases "dobj kernel1 p") (auto simp: candidate_def name_of_def kernel1_dobj cstring_def intro: gr0I)

lemma server1_place_free:
  "place_free (server1 t) 0 (ex_dentry ''/'' 4 (Some 0) 0 [4, 3, 1]) 0 (ex_inode 1 0x41ED 4 DirOps) ''new''"
  using kernel1_searchable server1_ok [of t]
  by (auto simp: place_free_def searchable_def named_def kernel1_dobj cstring_def short_name_def good_name_def)

lemma server1_connected: "connected 0 (server1 t)" "delivers (server1 t) t"
  by (simp_all add: connected_def delivers_def server1_def obj_def)

theorem create_is_mirrored_witness:
  "\<exists>kc' t ks'. wjfs_mknod cf0 0 3 0x81A4 0 kernel1 = Ok (0, kc') \<and> server_round sf0 0 (server1 t) = Ok (Again ks') \<and>
      dobj ks' 5 = Some (link_dentry 0 ''new'' 4)"
proof -
  let ?x = "ex_dentry ''new'' 1 None 0 []" and ?px = "ex_dentry ''/'' 4 (Some 0) 0 [4, 3, 1]" and ?dx = "ex_inode 1 0x41ED 4 DirOps"
  have n: "cstring (d_name ?x) = ''new''" "cstring (d_name ?px) = ''/''"
    by (simp_all add: cstring_def)
  have s: "sendable (last_ino kernel1 + 1) (cstring (d_name ?x)) (i_ino ?dx) (cstring (d_name ?px))" "length (cstring (d_name ?x)) < 16"
    unfolding n by (simp_all add: kernel1_root sendable_def separator_def newline_def)
  have net: "0 \<le> net_ret kernel1 (net_no kernel1)" "0 \<le> net_ret kernel1 (net_no kernel1 + 1)"
    by (simp_all add: kernel1_def kernel0_def)
  obtain kc' t where t: "wjfs_mknod cf0 0 3 0x81A4 0 kernel1 = Ok (0, kc')"
    "\<forall>ks srv sf r y q. connected srv ks \<and> delivers ks t \<and> length (sf_ip sf) = 16 \<and> frame_ok 6 (sf_create sf) \<and>
       rroot_dentry ks = Some r \<and> dobj ks r = Some y \<and> fs_ok ks \<and> (\<forall>n. mem ks n) \<and> candidate ks r ''/'' q \<and>
       (\<forall>p. candidate ks r ''/'' p \<longrightarrow> (\<exists>px dir dx. place_free ks p px dir dx ''new'')) \<and>
       table_ok (reg_ino_mapp_table ks) \<and> size (regs (reg_ino_mapp_table ks)) < 1024 \<longrightarrow>
       (\<exists>p pino ks'. candidate ks r ''/'' p \<and> server_round sf srv ks = Ok (Again ks') \<and> fs_ok ks' \<and>
         dobj ks' (length (dents ks)) = Some (link_dentry p ''new'' (length (inodes ks))) \<and>
         regs (reg_ino_mapp_table ks') = add_mset \<lparr>r_name = ''new'', r_local = (last_ino ks + 1, pino),
             r_remote = (last_ino kernel1 + 1, i_ino ?dx), r_ip = ip_text (net_peer ks (net_no ks + 2))\<rparr> (regs (reg_ino_mapp_table ks)))"
    using create_is_mirrored [OF kernel1_entry_free cf0_ok kernel1_memory net s, unfolded n] by blast
  have "length (sf_ip sf0) = 16" "frame_ok 6 (sf_create sf0)"
    using fr6_ok by (simp_all add: sf0_def)
  moreover have "\<forall>n. mem (server1 t) n" "table_ok (reg_ino_mapp_table (server1 t))" "size (regs (reg_ino_mapp_table (server1 t))) < 1024"
    "candidate (server1 t) 0 ''/'' 0" "rroot_dentry (server1 t) = Some 0" "dobj (server1 t) 0 = Some ?px"
    using kernel1_memory by (simp_all add: server1_candidate blank_table_ok)
  moreover have "\<forall>p. candidate (server1 t) 0 ''/'' p \<longrightarrow> (\<exists>px dir dx. place_free (server1 t) p px dir dx ''new'')"
    using server1_place_free [of t] unfolding server1_candidate by blast
  ultimately obtain p ks' where "candidate (server1 t) 0 ''/'' p" "server_round sf0 0 (server1 t) = Ok (Again ks')"
      "dobj ks' (length (dents (server1 t))) = Some (link_dentry p ''new'' (length (inodes (server1 t))))"
    using t(2) [rule_format, of 0 "server1 t" sf0 0 ?px 0] server1_connected [of t] server1_ok [of t] by blast
  moreover have "length (dents (server1 t)) = 5" "length (inodes (server1 t)) = 4"
    by (simp_all add: kernel1_def)
  ultimately show ?thesis
    using t(1) by (auto simp: server1_candidate)
qed

end
